(* ===== verification/Prelude.thy ===== *)
theory Prelude
  imports Main "HOL-Library.Word" "HOL-Library.List_Lexorder"
begin

unbundle bit_operations_syntax

text \<open>
  Shared ground of the development: the machine types, the faults of the C++ program
  (a read or write outside a block, a null dereference, a failed assertion, a loop that
  never ends) as values of a sum type with its bind, the object representation of the
  16- and 32-bit integers, and the reads and writes of byte blocks that every parser
  and serializer of the broker is made of.
\<close>

section \<open>Machine types\<close>

type_synonym u8 = "8 word"
type_synonym u16 = "16 word"
type_synonym u32 = "32 word"
type_synonym bytes = "u8 list"

named_theorems res_simps \<open>evaluation of the fault monad\<close>
named_theorems mem_simps \<open>reads and writes of byte blocks\<close>

section \<open>Faults and results\<close>

text \<open>
  A computation of the program either produces a value (\<open>Inr\<close>) or runs into a
  fault (\<open>Inl\<close>): behaviour that C++ leaves undefined, an \<open>abort\<close> from
  \<open>assert\<close>, or a loop that does not end. Error codes the program itself returns are
  values, not faults.
\<close>

datatype fault = OobRead | OobWrite | NullDeref | AssertFail | Diverges

type_synonym 'a res = "fault + 'a"

fun rbind :: "'a res \<Rightarrow> ('a \<Rightarrow> 'b res) \<Rightarrow> 'b res" where
  "rbind (Inl e) f = Inl e"
| "rbind (Inr x) f = f x"

declare rbind.simps [res_simps]

lemma rbind_cong [fundef_cong]:
  "m = m' \<Longrightarrow> (\<And>x. m' = Inr x \<Longrightarrow> f x = g x) \<Longrightarrow> rbind m f = rbind m' g"
  by (cases m') simp_all

lemma rbind_eq_Inr: "rbind m f = Inr y \<longleftrightarrow> (\<exists>x. m = Inr x \<and> f x = Inr y)"
  by (cases m) auto

lemma rbind_eq_Inl: "rbind m f = Inl e \<longleftrightarrow> m = Inl e \<or> (\<exists>x. m = Inr x \<and> f x = Inl e)"
  by (cases m) auto

lemma rbind_InrE:
  assumes "rbind m f = Inr y"
  obtains x where "m = Inr x" "f x = Inr y"
  using assms by (auto simp: rbind_eq_Inr)

lemma rbind_assoc: "rbind (rbind m f) g = rbind m (\<lambda>x. rbind (f x) g)"
  by (cases m) simp_all

lemma rbind_if: "rbind (if c then x else y) f = (if c then rbind x f else rbind y f)"
  by simp

text \<open>A pointer that may be null, dereferenced.\<close>

fun deref :: "'a option \<Rightarrow> 'a res" where
  "deref None = Inl NullDeref"
| "deref (Some x) = Inr x"

lemma deref_eq_Inr [simp]: "deref p = Inr x \<longleftrightarrow> p = Some x"
  by (cases p) auto

section \<open>Object representation on a little-endian host\<close>

text \<open>
  \<open>memcpy\<close> between an integer and a buffer copies the object representation, lowest
  byte first; \<open>ntohs\<close>, \<open>htons\<close>, \<open>ntohl\<close> and \<open>htonl\<close> reverse the bytes of that
  representation.
\<close>

definition mem16 :: "u16 \<Rightarrow> bytes" where
  "mem16 v = [ucast v, ucast (drop_bit 8 v)]"

fun val16 :: "bytes \<Rightarrow> u16" where
  "val16 (a # b # _) = ucast a OR push_bit 8 (ucast b)"
| "val16 _ = 0"

definition mem32 :: "u32 \<Rightarrow> bytes" where
  "mem32 v = [ucast v, ucast (drop_bit 8 v), ucast (drop_bit 16 v), ucast (drop_bit 24 v)]"

fun val32 :: "bytes \<Rightarrow> u32" where
  "val32 (a # b # c # d # _) =
     ucast a OR push_bit 8 (ucast b) OR push_bit 16 (ucast c) OR push_bit 24 (ucast d)"
| "val32 _ = 0"

definition ntohs :: "u16 \<Rightarrow> u16" where
  "ntohs v = val16 (rev (mem16 v))"

definition ntohl :: "u32 \<Rightarrow> u32" where
  "ntohl v = val32 (rev (mem32 v))"

abbreviation htons :: "u16 \<Rightarrow> u16" where
  "htons \<equiv> ntohs"

abbreviation htonl :: "u32 \<Rightarrow> u32" where
  "htonl \<equiv> ntohl"

lemma bit_u8_high: "8 \<le> n \<Longrightarrow> \<not> bit (a :: u8) n"
  by (auto dest: bit_imp_le_length)

lemma length_mem16 [simp]: "length (mem16 v) = 2"
  by (simp add: mem16_def)

lemma length_mem32 [simp]: "length (mem32 v) = 4"
  by (simp add: mem32_def)

lemma val16_mem16 [simp]: "val16 (mem16 v) = v"
  by (rule bit_word_eqI) (auto simp: mem16_def bit_simps)

lemma mem16_val16 [simp]: "mem16 (val16 [a, b]) = [a, b]"
  by (auto simp: mem16_def bit_simps bit_u8_high intro!: bit_word_eqI)

lemma val32_mem32 [simp]: "val32 (mem32 v) = v"
proof (rule bit_word_eqI)
  fix n assume "n < LENGTH(32)"
  then consider "n < 8" | "8 \<le> n" "n < 16" | "16 \<le> n" "n < 24" | "24 \<le> n" "n < 32"
    by force
  then show "bit (val32 (mem32 v)) n \<longleftrightarrow> bit v n"
    by cases (auto simp: mem32_def bit_simps)
qed

lemma mem32_val32 [simp]: "mem32 (val32 [a, b, c, d]) = [a, b, c, d]"
  by (auto simp: mem32_def bit_simps bit_u8_high intro!: bit_word_eqI)

lemma mem16_ntohs: "mem16 (ntohs v) = rev (mem16 v)"
  by (simp only: ntohs_def mem16_def [of v] rev.simps append.simps mem16_val16)

lemma mem32_ntohl: "mem32 (ntohl v) = rev (mem32 v)"
  by (simp only: ntohl_def mem32_def [of v] rev.simps append.simps mem32_val32)

lemma ntohs_ntohs [simp]: "ntohs (ntohs v) = v"
  by (simp add: ntohs_def [of "ntohs v"] mem16_ntohs)

lemma ntohl_ntohl [simp]: "ntohl (ntohl v) = v"
  by (simp add: ntohl_def [of "ntohl v"] mem32_ntohl)

lemma val16_append [simp]: "2 \<le> length xs \<Longrightarrow> val16 (xs @ ys) = val16 xs"
  by (cases xs rule: val16.cases) auto

text \<open>The bytes of a 16- or 32-bit integer in network order, which is what reaches the wire.\<close>

definition be16 :: "u16 \<Rightarrow> bytes" where
  "be16 v = [ucast (drop_bit 8 v), ucast v]"

definition be32 :: "u32 \<Rightarrow> bytes" where
  "be32 v = [ucast (drop_bit 24 v), ucast (drop_bit 16 v), ucast (drop_bit 8 v), ucast v]"

lemma length_be16 [simp]: "length (be16 v) = 2"
  by (simp add: be16_def)

lemma length_be32 [simp]: "length (be32 v) = 4"
  by (simp add: be32_def)

lemma mem16_htons [mem_simps]: "mem16 (htons v) = be16 v"
  unfolding mem16_ntohs by (simp add: mem16_def be16_def)

lemma mem32_htonl [mem_simps]: "mem32 (htonl v) = be32 v"
  unfolding mem32_ntohl by (simp add: mem32_def be32_def)

lemma ntohs_val16_be16 [simp]: "ntohs (val16 (be16 v)) = v"
  by (simp flip: mem16_htons)

lemma ntohl_val32_be32 [simp]: "ntohl (val32 (be32 v)) = v"
  by (simp flip: mem32_htonl)

section \<open>Natural numbers as machine integers\<close>

lemma unat_of_nat32 [simp]: "n < 2 ^ 32 \<Longrightarrow> unat (of_nat n :: u32) = n"
  by (simp add: unsigned_of_nat take_bit_nat_eq_self)

lemma unat_of_nat16 [simp]: "n < 2 ^ 16 \<Longrightarrow> unat (of_nat n :: u16) = n"
  by (simp add: unsigned_of_nat take_bit_nat_eq_self)

lemma unat_of_nat8 [simp]: "n < 2 ^ 8 \<Longrightarrow> unat (of_nat n :: u8) = n"
  by (simp add: unsigned_of_nat take_bit_nat_eq_self)

lemma unat_Suc8: "unat (w :: u8) < 255 \<Longrightarrow> unat (w + 1) = Suc (unat w)"
  using unat_add_lem [of w 1] by simp

lemma unat_div128 [simp]: "unat (v div 128 :: u32) = unat v div 128"
  by (simp add: unat_div)

lemma unat_mod128 [simp]: "unat (v mod 128 :: u32) = unat v mod 128"
  by (simp add: unat_mod)

lemma unat_drop_bit_u8: "unat (drop_bit n (w :: u8)) = unat w div 2 ^ n"
proof -
  have "unat w < 2 ^ 8" using unsigned_less [of w, where 'a = nat] by simp
  then show ?thesis
    by (simp only: unsigned_drop_bit_eq) (simp add: take_bit_nat_eq_self drop_bit_eq_div)
qed

text \<open>Truncation of a 16-bit length to the \<open>uint8_t\<close> sizes of the parser.\<close>

lemma ucast_u16_u8 [simp]: "(ucast (of_nat n :: u16) :: u8) = of_nat n"
  by (simp add: word_unat_eq_iff unsigned_ucast_eq unsigned_of_nat min_def)

section \<open>Reading a block\<close>

text \<open>
  A pointer into a buffer is the index it stands at. Reading one byte or a run of \<open>n\<close>
  bytes outside the block is a fault; reading no byte at the end of the block is not.
\<close>

definition rd8 :: "bytes \<Rightarrow> nat \<Rightarrow> u8 res" where
  "rd8 buf i = (if i < length buf then Inr (buf ! i) else Inl OobRead)"

definition rd_block :: "bytes \<Rightarrow> nat \<Rightarrow> nat \<Rightarrow> bytes res" where
  "rd_block buf i n = (if i + n \<le> length buf then Inr (take n (drop i buf)) else Inl OobRead)"

lemma rd8_append [mem_simps]: "rd8 (xs @ b # ys) (length xs) = Inr b"
  by (simp add: rd8_def)

lemma rd_block_append [mem_simps]:
  "n = length bs \<Longrightarrow> i = length xs \<Longrightarrow> rd_block (xs @ bs @ ys) i n = Inr bs"
  by (simp add: rd_block_def)

text \<open>Reading behind the head of a block, and reading a block from a later start.\<close>

lemma rd_Cons [mem_simps]:
  "rd8 (a # zs) 0 = Inr a"
  "rd8 (a # zs) (Suc k) = rd8 zs k"
  "rd_block (a # zs) (Suc k) n = rd_block zs k n"
  "rd_block (a # zs) (numeral w) n = rd_block zs (pred_numeral w) n"
  "rd_block (a # zs) (numeral w + k) n = rd_block zs (pred_numeral w + k) n"
  by (auto simp: rd8_def rd_block_def numeral_eq_Suc)

lemma rd_block_skip [mem_simps]:
  "rd_block (bs @ ys) 0 (length bs) = Inr bs"
  "rd_block (xs @ zs) (length xs) n = rd_block zs 0 n"
  "rd_block (xs @ zs) (length xs + k) n = rd_block zs k n"
  "rd_block (xs @ zs) (Suc (Suc (length xs))) n = rd_block zs 2 n"
  by (auto simp: rd_block_def)

lemma rd_block_be16 [mem_simps]:
  "rd_block (be16 v @ zs) 0 2 = Inr (be16 v)"
  "rd_block (be16 v @ zs) (Suc (Suc k)) n = rd_block zs k n"
  "rd_block (be16 v @ zs) 2 n = rd_block zs 0 n"
  by (simp_all add: be16_def rd_block_def)

lemma rd_block_be32 [mem_simps]: "rd_block (be32 v @ zs) 0 4 = Inr (be32 v)"
  by (simp add: be32_def rd_block_def)

lemma rd_block_mem [mem_simps]:
  "rd_block (mem16 v) 0 2 = Inr (mem16 v)" "rd_block (mem32 u) 0 4 = Inr (mem32 u)"
  by (simp_all add: rd_block_def)

lemma rd_drop:
  "p \<le> length buf \<Longrightarrow> rd8 (drop p buf) k = rd8 buf (p + k)"
  "p \<le> length buf \<Longrightarrow> rd_block (drop p buf) k n = rd_block buf (p + k) n"
  by (auto simp: rd8_def rd_block_def add.commute)

lemma rd8_InrD: "rd8 buf i = Inr b \<Longrightarrow> i < length buf"
  by (simp add: rd8_def split: if_splits)

lemma rd_block_InrD: "rd_block buf i n = Inr bs \<Longrightarrow> i + n \<le> length buf \<and> length bs = n"
  by (auto simp: rd_block_def split: if_splits)

section \<open>Writing a block\<close>

text \<open>
  \<open>memcpy (dst + i, bs)\<close>: the bytes at \<open>i\<close> and after are replaced; a copy past the
  end of the block is a fault.
\<close>

definition mem_put :: "bytes \<Rightarrow> nat \<Rightarrow> bytes \<Rightarrow> bytes res" where
  "mem_put dst i bs =
     (if i + length bs \<le> length dst then Inr (take i dst @ bs @ drop (i + length bs) dst)
      else Inl OobWrite)"

lemma length_mem_put: "mem_put dst i bs = Inr dst' \<Longrightarrow> length dst' = length dst"
  by (auto simp: mem_put_def split: if_splits)

text \<open>Two copies next to each other are one copy: the law every serializer below rests on.\<close>

lemma mem_put_mem_put:
  assumes "j = i + length as"
  shows "rbind (mem_put dst i as) (\<lambda>d. mem_put d j bs) = mem_put dst i (as @ bs)"
  using assms by (auto simp: mem_put_def ac_simps)

lemma mem_put_Nil: "i \<le> length dst \<Longrightarrow> mem_put dst i [] = Inr dst"
  by (simp add: mem_put_def)

lemma mem_put_all: "length bs = length dst \<Longrightarrow> mem_put dst 0 bs = Inr bs"
  by (simp add: mem_put_def)

end
