(* ===== verification/Functions.thy ===== *)
theory Functions
  imports Prelude
begin

text \<open>
  The helpers of \<open>src/functions.cpp\<close>: reading big-endian integers, writing to and reading
  from a descriptor, random identifiers and the tokenizer of topic names. The kernel is a sequence
  of answers, one for each system call the loop makes.
\<close>

section \<open>Integers in network order\<close>

definition ConvertToHost2Bytes :: "bytes \<Rightarrow> nat \<Rightarrow> u16 res" where
  "ConvertToHost2Bytes buf p = rbind (rd_block buf p 2) (\<lambda>bs. Inr (ntohs (val16 bs)))"

definition ConvertToHost4Bytes :: "bytes \<Rightarrow> nat \<Rightarrow> u32 res" where
  "ConvertToHost4Bytes buf p = rbind (rd_block buf p 4) (\<lambda>bs. Inr (ntohl (val32 bs)))"

lemma ConvertToHost2Bytes_be16 [mem_simps]:
  "p = length xs \<Longrightarrow> ConvertToHost2Bytes (xs @ be16 v @ ys) p = Inr v"
  by (simp add: ConvertToHost2Bytes_def rd_block_append)

lemma ConvertToHost4Bytes_be32 [mem_simps]:
  "p = length xs \<Longrightarrow> ConvertToHost4Bytes (xs @ be32 v @ ys) p = Inr v"
  by (simp add: ConvertToHost4Bytes_def rd_block_append)

lemma ConvertToHost2Bytes_InrD: "ConvertToHost2Bytes buf p = Inr v \<Longrightarrow> p + 2 \<le> length buf"
  by (auto simp: ConvertToHost2Bytes_def rbind_eq_Inr dest: rd_block_InrD)

lemma ConvertToHost4Bytes_InrD: "ConvertToHost4Bytes buf p = Inr v \<Longrightarrow> p + 4 \<le> length buf"
  by (auto simp: ConvertToHost4Bytes_def rbind_eq_Inr dest: rd_block_InrD)

section \<open>Writing to a descriptor\<close>

text \<open>
  \<open>w i n\<close> is what the \<open>i\<close>-th call of \<open>write\<close> returns when it is offered
  \<open>n\<close> bytes; the bytes a call accepts are appended to what has gone out. The loop ends because a
  call that does not end it makes progress.
\<close>

function write_loop ::
    "(nat \<Rightarrow> nat \<Rightarrow> int) \<Rightarrow> nat \<Rightarrow> bytes \<Rightarrow> nat \<Rightarrow> nat \<Rightarrow> bytes \<Rightarrow> int \<times> bytes" where
  "write_loop w i dat len sent_bytes out =
     (if sent_bytes < len then
        let res = w i (len - sent_bytes) in
        if res \<le> 0 then (-1, out)
        else write_loop w (Suc i) dat len (sent_bytes + nat res)
               (out @ take (nat res) (drop sent_bytes dat))
      else (int sent_bytes, out))"
  by pat_completeness auto
termination
  by (relation "measure (\<lambda>(w, i, dat, len, sent_bytes, out). len - sent_bytes)") auto

declare write_loop.simps [simp del]

definition WriteData :: "(nat \<Rightarrow> nat \<Rightarrow> int) \<Rightarrow> bytes \<Rightarrow> nat \<Rightarrow> int \<times> bytes" where
  "WriteData w dat len = write_loop w 0 dat len 0 []"

lemma write_loop_result:
  assumes kernel: "\<And>i n. w i n \<le> int n" and "out = take sent_bytes dat" and "sent_bytes \<le> len"
  shows "(\<exists>n < len. write_loop w i dat len sent_bytes out = (-1, take n dat)) \<or>
    write_loop w i dat len sent_bytes out = (int len, take len dat)"
  using assms
proof (induction w i dat len sent_bytes out rule: write_loop.induct)
  case (1 w i dat len sent_bytes out)
  show ?case
  proof (cases "sent_bytes < len \<and> 0 < w i (len - sent_bytes)")
    case True
    let ?r = "w i (len - sent_bytes)"
    have "out @ take (nat ?r) (drop sent_bytes dat) = take (sent_bytes + nat ?r) dat"
      using "1.prems"(2) by (simp add: take_add)
    moreover have "sent_bytes + nat ?r \<le> len"
      using True "1.prems"(1) [of i "len - sent_bytes"] by linarith
    ultimately show ?thesis
      using True "1.IH" "1.prems"(1) by (simp add: write_loop.simps [of w i] Let_def)
  next
    case False
    with "1.prems" show ?thesis
      by (auto simp: write_loop.simps [of w i] Let_def)
  qed
qed


section \<open>Reading from a descriptor\<close>

text \<open>
  What one round of \<open>ReadData\<close> sees: \<open>select\<close> fails or times out, or \<open>read\<close> returns
  an error or end of file, or it delivers bytes (at least one, at most as many as asked for).
\<close>

datatype rd_event = SelectFails | SelectTimeout | ReadFails | Got u8 bytes

text \<open>
  \<open>ev i n\<close> is the event of round \<open>i\<close> when \<open>n\<close> bytes are still wanted. The result is
  the count and the bytes stored so far.
\<close>

function read_data_loop ::
    "(nat \<Rightarrow> nat \<Rightarrow> rd_event) \<Rightarrow> nat \<Rightarrow> nat \<Rightarrow> bytes \<Rightarrow> int \<times> bytes" where
  "read_data_loop ev i len dat =
     (case ev i (len - length dat) of
        SelectFails \<Rightarrow> (-1, dat)
      | SelectTimeout \<Rightarrow> (int (length dat), dat)
      | ReadFails \<Rightarrow> (int (length dat), dat)
      | Got b bs \<Rightarrow>
          let dat = dat @ b # bs in
          if len \<le> length dat then (int (length dat), dat)
          else read_data_loop ev (Suc i) len dat)"
  by pat_completeness auto
termination
  by (relation "measure (\<lambda>(ev, i, len, dat). len - length dat)") auto

declare read_data_loop.simps [simp del]

definition ReadData :: "(nat \<Rightarrow> nat \<Rightarrow> rd_event) \<Rightarrow> int \<Rightarrow> int \<Rightarrow> int \<times> bytes" where
  "ReadData ev fd len =
     (if fd < 0 \<or> len \<le> 0 then (0, []) else read_data_loop ev 0 (nat len) [])"

lemma read_data_loop_result:
  assumes kernel: "\<And>i n. case ev i n of Got b bs \<Rightarrow> Suc (length bs) \<le> n | _ \<Rightarrow> True"
    and "length dat < len" and "read_data_loop ev i len dat = (c, dat')"
  shows "length dat' \<le> len \<and> (\<exists>new. dat' = dat @ new) \<and> (c = -1 \<or> c = int (length dat'))"
  using assms
proof (induction ev i len dat rule: read_data_loop.induct)
  case (1 ev i len dat)
  show ?case
  proof (cases "ev i (len - length dat)")
    case (Got b bs)
    with "1.prems"(1) [of "len - length dat" i] "1.prems"(2)
    have le: "length (dat @ b # bs) \<le> len" by simp
    show ?thesis
    proof (cases "len \<le> length (dat @ b # bs)")
      case True
      with Got le "1.prems"(3) show ?thesis
        by (auto simp: read_data_loop.simps [of ev i])
    next
      case False
      with Got "1.prems"(3) have "read_data_loop ev (Suc i) len (dat @ b # bs) = (c, dat')"
        by (simp add: read_data_loop.simps [of ev i] Let_def)
      from "1.IH" [OF Got refl False "1.prems"(1) _ this] False
      show ?thesis by auto
    qed
  qed (use "1.prems" in \<open>auto simp: read_data_loop.simps [of ev i]\<close>)
qed

section \<open>Random identifiers\<close>

definition alphanum :: bytes where
  "alphanum = map of_nat ([48..<58] @ [65..<91] @ [97..<123])"

text \<open>\<open>rnd i\<close> is the \<open>i\<close>-th value of \<open>rand ()\<close>, which is not negative.\<close>

definition GenRandom :: "(nat \<Rightarrow> nat) \<Rightarrow> u8 \<Rightarrow> bytes" where
  "GenRandom rnd len =
     map (\<lambda>i. alphanum ! (rnd i mod length alphanum)) [0 ..< unat len]"

lemma length_alphanum [simp]: "length alphanum = 62"
  by (simp add: alphanum_def)

lemma GenRandom_alphanum:
  "length (GenRandom rnd len) = unat len \<and> set (GenRandom rnd len) \<subseteq> set alphanum"
  by (auto simp: GenRandom_def intro!: nth_mem)

section \<open>Topic names as tokens\<close>

text \<open>
  The expression \<open>[\s|\/]+\<close> the callers pass: a run of white space, bars and slashes.
\<close>

definition is_sep :: "u8 \<Rightarrow> bool" where
  "is_sep c \<longleftrightarrow> c \<in> set [0x09, 0x0A, 0x0B, 0x0C, 0x0D, 0x20, 0x2F, 0x7C]"

text \<open>
  The token iterator with index -1 yields the stretches between the matches; the empty ones are
  removed afterwards.
\<close>

function re_split :: "(u8 \<Rightarrow> bool) \<Rightarrow> bytes \<Rightarrow> bytes list" where
  "re_split sep str =
     (case dropWhile (\<lambda>c. \<not> sep c) str of
        [] \<Rightarrow> [takeWhile (\<lambda>c. \<not> sep c) str]
      | c # rest \<Rightarrow> takeWhile (\<lambda>c. \<not> sep c) str # re_split sep (dropWhile sep rest))"
  by pat_completeness auto
termination
proof (relation "measure (\<lambda>(sep, str). length str)")
  fix sep :: "u8 \<Rightarrow> bool" and str c rest
  assume "dropWhile (\<lambda>c. \<not> sep c) str = c # rest"
  then have "Suc (length rest) \<le> length str"
    by (metis length_Cons length_dropWhile_le)
  moreover have "length (dropWhile sep rest) \<le> length rest" by (rule length_dropWhile_le)
  ultimately show "((sep, dropWhile sep rest), sep, str) \<in> measure (\<lambda>(sep, str). length str)"
    by simp
qed simp

declare re_split.simps [simp del]

definition tokenize :: "bytes \<Rightarrow> (u8 \<Rightarrow> bool) \<Rightarrow> bytes list" where
  "tokenize str re = filter (\<lambda>s. s \<noteq> []) (re_split re str)"

lemma re_split_no_sep: "t \<in> set (re_split sep str) \<Longrightarrow> \<forall>c \<in> set t. \<not> sep c"
proof (induction sep str rule: re_split.induct)
  case (1 sep str)
  then show ?case
    by (cases "dropWhile (\<lambda>c. \<not> sep c) str")
      (auto simp: re_split.simps [of sep str] dest: set_takeWhileD)
qed

lemma tokenize_token: "t \<in> set (tokenize str re) \<Longrightarrow> t \<noteq> [] \<and> (\<forall>c \<in> set t. \<not> re c)"
  using re_split_no_sep by (auto simp: tokenize_def)

text \<open>Tokens joined by single separators are tokenized back.\<close>

fun join_tokens :: "u8 \<Rightarrow> bytes list \<Rightarrow> bytes" where
  "join_tokens c [] = []"
| "join_tokens c [t] = t"
| "join_tokens c (t # ts) = t @ c # join_tokens c ts"

definition token :: "(u8 \<Rightarrow> bool) \<Rightarrow> bytes \<Rightarrow> bool" where
  "token sep t \<longleftrightarrow> t \<noteq> [] \<and> (\<forall>c\<in>set t. \<not> sep c)"

lemma span_token:
  assumes "token sep t" and "sep c"
  shows "takeWhile (\<lambda>c. \<not> sep c) (t @ c # rest) = t"
    "dropWhile (\<lambda>c. \<not> sep c) (t @ c # rest) = c # rest"
  using assms by (induction t) (auto simp: token_def)

lemma re_split_token: "token sep t \<Longrightarrow> re_split sep t = [t]"
proof -
  assume "token sep t"
  then have "takeWhile (\<lambda>c. \<not> sep c) t = t" "dropWhile (\<lambda>c. \<not> sep c) t = []"
    by (simp_all add: token_def takeWhile_eq_all_conv dropWhile_eq_Nil_conv)
  then show ?thesis by (subst re_split.simps) (simp only: list.case)
qed

lemma re_split_join:
  assumes "sep c" and "\<forall>t\<in>set ts. token sep t" and "ts \<noteq> []"
  shows "re_split sep (join_tokens c ts) = ts"
  using assms
proof (induction c ts rule: join_tokens.induct)
  case (3 c t t' ts)
  have "token sep t'" using 3 by simp
  then obtain d ds where t': "t' = d # ds" "\<not> sep d" by (cases t') (auto simp: token_def)
  have "\<exists>ys. join_tokens c (t' # ts) = t' @ ys" by (cases ts) auto
  then have start: "dropWhile sep (join_tokens c (t' # ts)) = join_tokens c (t' # ts)"
    using t' by auto
  show ?case
    using 3 span_token [of sep t c "join_tokens c (t' # ts)"]
    by (simp add: re_split.simps [of sep "t @ c # join_tokens c (t' # ts)"] start)
qed (simp_all add: re_split_token)

lemma tokenize_join:
  assumes "re c" and "\<forall>t\<in>set ts. token re t"
  shows "tokenize (join_tokens c ts) re = ts"
proof (cases "ts = []")
  case True
  then show ?thesis by (simp add: tokenize_def re_split.simps)
next
  case False
  then show ?thesis
    using assms re_split_join [of re c ts] by (simp add: tokenize_def token_def filter_id_conv)
qed

end
