(* ===== verification/Containers.thy ===== *)
theory Containers
  imports Prelude
begin

text \<open>
  The standard containers the broker keeps its state in. \<open>std::map\<close> and
  \<open>std::set<MqttTopic>\<close> are lists sorted by key (the iteration order of the code);
  \<open>std::unordered_map\<close> is a list with distinct keys whose order stands for the
  iteration order, which the language leaves open; \<open>std::unordered_multimap\<close> is a list
  in which equal keys are adjacent. The contract that \<open>find\<close>, \<open>insert\<close> and
  \<open>erase\<close> share is the locale \<open>keyed_store\<close>, interpreted for the ordered and
  for the unordered container.
\<close>

section \<open>Operations\<close>

definition kv_find :: "('e \<Rightarrow> 'k) \<Rightarrow> 'k \<Rightarrow> 'e list \<Rightarrow> 'e option" where
  "kv_find key k es = find (\<lambda>e. key e = k) es"

definition kv_erase :: "('e \<Rightarrow> 'k) \<Rightarrow> 'k \<Rightarrow> 'e list \<Rightarrow> 'e list" where
  "kv_erase key k es = filter (\<lambda>e. key e \<noteq> k) es"

text \<open>
  \<open>insert\<close> and \<open>emplace\<close> leave a container that already holds the key as it is. A new
  entry goes to its place in the order, or to the front of an unordered container.
\<close>

fun ord_insert :: "('e \<Rightarrow> 'k::linorder) \<Rightarrow> 'e \<Rightarrow> 'e list \<Rightarrow> 'e list" where
  "ord_insert key e [] = [e]"
| "ord_insert key e (x # xs) =
     (if key e < key x then e # x # xs
      else if key e = key x then x # xs
      else x # ord_insert key e xs)"

definition un_insert :: "('e \<Rightarrow> 'k) \<Rightarrow> 'e \<Rightarrow> 'e list \<Rightarrow> 'e list" where
  "un_insert key e es = (if kv_find key (key e) es = None then e # es else es)"

definition ord_ok :: "('e \<Rightarrow> 'k::linorder) \<Rightarrow> 'e list \<Rightarrow> bool" where
  "ord_ok key es \<longleftrightarrow> sorted_wrt (<) (map key es)"

definition un_ok :: "('e \<Rightarrow> 'k) \<Rightarrow> 'e list \<Rightarrow> bool" where
  "un_ok key es \<longleftrightarrow> distinct (map key es)"

lemma kv_find_simps [simp]:
  "kv_find key k [] = None"
  "kv_find key k (e # es) = (if key e = k then Some e else kv_find key k es)"
  by (simp_all add: kv_find_def)

lemma kv_erase_simps [simp]:
  "kv_erase key k [] = []"
  "kv_erase key k (e # es) = (if key e = k then kv_erase key k es else e # kv_erase key k es)"
  by (simp_all add: kv_erase_def)

lemma set_kv_erase [simp]: "set (kv_erase key k es) = {e \<in> set es. key e \<noteq> k}"
  by (auto simp: kv_erase_def)

lemma kv_find_None_iff: "kv_find key k es = None \<longleftrightarrow> k \<notin> key ` set es"
  by (induction es) auto

lemma kv_find_SomeD: "kv_find key k es = Some e \<Longrightarrow> e \<in> set es \<and> key e = k"
  by (induction es) (auto split: if_splits)

lemma kv_find_Some_iff:
  "distinct (map key es) \<Longrightarrow> kv_find key k es = Some e \<longleftrightarrow> e \<in> set es \<and> key e = k"
  by (induction es) (auto simp: image_iff)

lemma kv_find_erase:
  "kv_find key k (kv_erase key k' es) = (if k = k' then None else kv_find key k es)"
  by (induction es) auto

lemma distinct_map_kv_erase: "distinct (map key es) \<Longrightarrow> distinct (map key (kv_erase key k es))"
  by (induction es) auto

section \<open>The contract of a keyed container\<close>

locale keyed_store =
  fixes key :: "'e \<Rightarrow> 'k"
    and ins :: "'e \<Rightarrow> 'e list \<Rightarrow> 'e list"
    and ok :: "'e list \<Rightarrow> bool"
  assumes ok_Nil: "ok []"
    and ok_ins: "ok es \<Longrightarrow> ok (ins e es)"
    and ok_erase: "ok es \<Longrightarrow> ok (kv_erase key k es)"
    and ok_distinct: "ok es \<Longrightarrow> distinct (map key es)"
    and set_ins: "ok es \<Longrightarrow>
      set (ins e es) = (if key e \<in> key ` set es then set es else insert e (set es))"
begin

lemma find_iff: "ok es \<Longrightarrow> kv_find key k es = Some e \<longleftrightarrow> e \<in> set es \<and> key e = k"
  by (rule kv_find_Some_iff) (rule ok_distinct)

lemma find_in: "ok es \<Longrightarrow> e \<in> set es \<Longrightarrow> kv_find key (key e) es = Some e"
  by (simp add: find_iff)

text \<open>An entry that is there wins over the one inserted.\<close>

lemma find_ins:
  assumes "ok es"
  shows "kv_find key k (ins e es) =
    (if k = key e \<and> kv_find key k es = None then Some e else kv_find key k es)"
proof (cases "kv_find key k (ins e es)")
  case None
  then have "k \<notin> key ` set (ins e es)" by (simp add: kv_find_None_iff)
  with assms have "k \<notin> key ` set es" "k \<noteq> key e" by (auto simp: set_ins split: if_splits)
  with None show ?thesis by (simp add: kv_find_None_iff [THEN iffD2])
next
  case (Some e')
  with assms have "e' \<in> set (ins e es)" "key e' = k"
    by (simp_all add: find_iff [OF ok_ins])
  with assms Some show ?thesis
    by (auto simp: set_ins find_in kv_find_None_iff split: if_splits)
qed

text \<open>Erase and then insert, which is how the code overwrites.\<close>

lemma find_replace:
  assumes "ok es"
  shows "kv_find key k (ins e (kv_erase key (key e) es)) =
    (if k = key e then Some e else kv_find key k es)"
  using assms by (simp add: find_ins [OF ok_erase] kv_find_erase)

lemma ok_replace: "ok es \<Longrightarrow> ok (ins e (kv_erase key (key e) es))"
  by (intro ok_ins ok_erase)

lemma set_replace:
  "ok es \<Longrightarrow> set (ins e (kv_erase key (key e) es)) = insert e {e' \<in> set es. key e' \<noteq> key e}"
  by (auto simp: set_ins [OF ok_erase] image_iff)

lemma length_ins:
  assumes "ok es"
  shows "length (ins e es) = (if key e \<in> key ` set es then length es else Suc (length es))"
proof -
  have len: "length xs = card (key ` set xs)" if "ok xs" for xs
    using ok_distinct [OF that] distinct_card by fastforce
  show ?thesis
    using assms by (auto simp: len [OF ok_ins] len set_ins insert_absorb)
qed

end

lemma set_ord_insert:
  "ord_ok key es \<Longrightarrow>
    set (ord_insert key e es) = (if key e \<in> key ` set es then set es else insert e (set es))"
  by (induction es) (auto simp: ord_ok_def)

lemma ord_ok_Cons: "ord_ok key (e # es) \<longleftrightarrow> (\<forall>x\<in>set es. key e < key x) \<and> ord_ok key es"
  by (simp add: ord_ok_def)

lemma ord_ok_insert: "ord_ok key es \<Longrightarrow> ord_ok key (ord_insert key e es)"
proof (induction es)
  case Nil
  then show ?case by (simp add: ord_ok_def)
next
  case (Cons x xs)
  then show ?case
    by (auto simp: ord_ok_Cons set_ord_insert split: if_splits)
qed

lemma ord_insert_greatest: "\<forall>x\<in>set es. key x < key e \<Longrightarrow> ord_insert key e es = es @ [e]"
  by (induction es) (auto dest: less_not_sym)

interpretation ord: keyed_store key "ord_insert key" "ord_ok key" for key
proof unfold_locales
  fix k and es
  show "ord_ok key []" by (simp add: ord_ok_def)
  assume ok: "ord_ok key es"
  show "ord_ok key (kv_erase key k es)"
    using ok by (induction es) (auto simp: ord_ok_Cons)
  show "distinct (map key es)"
    using ok by (auto simp: ord_ok_def strict_sorted_iff)
qed (simp_all add: ord_ok_insert set_ord_insert)

interpretation un: keyed_store key "un_insert key" "un_ok key" for key
  by unfold_locales (auto simp: un_ok_def un_insert_def kv_find_None_iff distinct_map_kv_erase)

section \<open>The unordered multimap\<close>

text \<open>
  An entry is inserted next to those with the same key, in front of them. The elements with
  a key form one range: \<open>find\<close> gives its first element and the loop of the code runs until the
  key changes.
\<close>

fun mm_insert :: "'k \<Rightarrow> 'v \<Rightarrow> ('k \<times> 'v) list \<Rightarrow> ('k \<times> 'v) list" where
  "mm_insert k v [] = [(k, v)]"
| "mm_insert k v ((k', v') # es) =
     (if k = k' then (k, v) # (k', v') # es else (k', v') # mm_insert k v es)"

definition mm_range :: "'k \<Rightarrow> ('k \<times> 'v) list \<Rightarrow> ('k \<times> 'v) list" where
  "mm_range k es = takeWhile (\<lambda>e. fst e = k) (dropWhile (\<lambda>e. fst e \<noteq> k) es)"

fun grouped :: "('k \<times> 'v) list \<Rightarrow> bool" where
  "grouped [] = True"
| "grouped (e # es) \<longleftrightarrow>
     grouped es \<and> fst e \<notin> fst ` set (dropWhile (\<lambda>x. fst x = fst e) es)"

lemma takeWhile_eq_filter_grouped:
  "k \<notin> fst ` set (dropWhile (\<lambda>e. fst e = k) es) \<Longrightarrow>
    takeWhile (\<lambda>e. fst e = k) es = filter (\<lambda>e. fst e = k) es"
proof (induction es)
  case (Cons e es)
  then show ?case
    by (cases "fst e = k") (auto simp: filter_empty_conv eq_commute [of "[]"])
qed simp

lemma mm_range_eq_filter: "grouped es \<Longrightarrow> mm_range k es = filter (\<lambda>e. fst e = k) es"
proof (induction es)
  case (Cons e es)
  show ?case
  proof (cases "fst e = k")
    case True
    with Cons.prems have "k \<notin> fst ` set (dropWhile (\<lambda>x. fst x = k) es)" by auto
    with True show ?thesis by (simp add: mm_range_def takeWhile_eq_filter_grouped)
  next
    case False
    with Cons show ?thesis by (simp add: mm_range_def)
  qed
qed (simp add: mm_range_def)

lemma set_mm_insert [simp]: "set (mm_insert k v es) = insert (k, v) (set es)"
  by (induction k v es rule: mm_insert.induct) auto

lemma dropWhile_mm_insert:
  "k \<noteq> c \<Longrightarrow> c \<notin> fst ` set (dropWhile (\<lambda>x. fst x = c) es) \<Longrightarrow>
    c \<notin> fst ` set (dropWhile (\<lambda>x. fst x = c) (mm_insert k v es))"
  by (induction k v es rule: mm_insert.induct) (auto split: if_splits)

lemma grouped_mm_insert: "grouped es \<Longrightarrow> grouped (mm_insert k v es)"
  by (induction k v es rule: mm_insert.induct) (auto dest: dropWhile_mm_insert)

lemma mm_range_insert:
  assumes "grouped es"
  shows "mm_range c (mm_insert k v es) = (if c = k then (k, v) # mm_range k es else mm_range c es)"
proof -
  have "filter (\<lambda>e. fst e = c) (mm_insert k v es) =
      (if c = k then (k, v) # filter (\<lambda>e. fst e = k) es else filter (\<lambda>e. fst e = c) es)"
    by (induction k v es rule: mm_insert.induct) auto
  with assms show ?thesis
    by (simp add: mm_range_eq_filter grouped_mm_insert)
qed

lemma grouped_filter: "grouped es \<Longrightarrow> grouped (filter P es)"
proof (induction es)
  case (Cons e es)
  have "fst e \<notin> fst ` set (dropWhile (\<lambda>x. fst x = fst e) (filter P es))"
    if "fst e \<notin> fst ` set (dropWhile (\<lambda>x. fst x = fst e) es)"
    using that by (induction es) (auto dest!: set_dropWhileD split: if_splits)
  with Cons show ?case by auto
qed simp

end
