(* ===== verification/Topics.thy ===== *)
theory Topics
  imports Functions Containers
begin

text \<open>
  A topic value (\<open>src/mqtt_topic.cpp\<close>) and the storage of topics
  (\<open>src/topic_storage.cpp\<close>): the set of retained topics, ordered by name, with the search that
  serves a new subscription, and the multimap that keeps QoS 2 messages until they are released. The
  mutexes guard each operation as a whole.
\<close>

section \<open>Topics\<close>

text \<open>The value is behind a shared pointer, which may be null; it is never changed in place.\<close>

record MqttTopic =
  t_qos :: u8
  t_id :: u16
  t_name :: bytes
  t_data :: "bytes option"

definition new_MqttTopic :: "u8 \<Rightarrow> u16 \<Rightarrow> bytes \<Rightarrow> bytes option \<Rightarrow> MqttTopic" where
  "new_MqttTopic q i nm d = \<lparr>t_qos = (if q > 2 then 0 else q), t_id = i, t_name = nm, t_data = d\<rparr>"

definition SetPacketID :: "u16 \<Rightarrow> MqttTopic \<Rightarrow> MqttTopic" where
  "SetPacketID new_id t = t\<lparr>t_id := new_id\<rparr>"

definition SetQos :: "u8 \<Rightarrow> MqttTopic \<Rightarrow> MqttTopic" where
  "SetQos q t = t\<lparr>t_qos := q\<rparr>"

definition topic_GetSize :: "MqttTopic \<Rightarrow> u32 res" where
  "topic_GetSize t = rbind (deref (t_data t)) (\<lambda>d. Inr (2 + of_nat (length d) - 2))"

definition topic_GetValue :: "MqttTopic \<Rightarrow> bytes res" where
  "topic_GetValue t = deref (t_data t)"

text \<open>The data as bytes and as a string are the same list here.\<close>

definition topic_GetData :: "MqttTopic \<Rightarrow> bytes res" where
  "topic_GetData t = deref (t_data t)"

definition topic_GetString :: "MqttTopic \<Rightarrow> bytes res" where
  "topic_GetString t = deref (t_data t)"

definition topic_GetPtr :: "MqttTopic \<Rightarrow> bytes option" where
  "topic_GetPtr t = t_data t"

definition topic_GetID :: "MqttTopic \<Rightarrow> u16" where
  "topic_GetID t = t_id t"

definition topic_GetQoS :: "MqttTopic \<Rightarrow> u8" where
  "topic_GetQoS t = t_qos t"

definition topic_GetName :: "MqttTopic \<Rightarrow> bytes" where
  "topic_GetName t = t_name t"

definition SetName :: "bytes \<Rightarrow> MqttTopic \<Rightarrow> MqttTopic" where
  "SetName nm t = t\<lparr>t_name := nm\<rparr>"

text \<open>Topics are compared by their names only.\<close>

definition topic_eq :: "MqttTopic \<Rightarrow> bytes \<Rightarrow> bool" where
  "topic_eq t str \<longleftrightarrow> t_name t = str"

definition topic_less :: "MqttTopic \<Rightarrow> MqttTopic \<Rightarrow> bool" where
  "topic_less t u \<longleftrightarrow> t_name t < t_name u"

section \<open>Retained topics\<close>

record CTopicStorage =
  topics :: "MqttTopic list"
  qos_2_topics :: "(bytes \<times> MqttTopic) list"

definition StoreTopic :: "MqttTopic \<Rightarrow> 'a CTopicStorage_scheme \<Rightarrow> 'a CTopicStorage_scheme" where
  "StoreTopic t s = s\<lparr>topics := ord_insert t_name t (kv_erase t_name (t_name t) (topics s))\<rparr>"

definition StoreTopicValue ::
    "u8 \<Rightarrow> u16 \<Rightarrow> bytes \<Rightarrow> bytes option \<Rightarrow> 'a CTopicStorage_scheme \<Rightarrow> 'a CTopicStorage_scheme" where
  "StoreTopicValue q i nm d s =
     (let topic = new_MqttTopic q i nm d
      in s\<lparr>topics := ord_insert t_name topic (kv_erase t_name (t_name topic) (topics s))\<rparr>)"

definition GetStoredValue :: "bytes \<Rightarrow> 'a CTopicStorage_scheme \<Rightarrow> (bytes \<times> bool) res" where
  "GetStoredValue nm s =
     (case kv_find t_name nm (topics s) of
        Some t \<Rightarrow> rbind (topic_GetValue t) (\<lambda>d. Inr (d, True))
      | None \<Rightarrow> Inr ([], False))"

definition GetStoredValuePtr :: "bytes \<Rightarrow> 'a CTopicStorage_scheme \<Rightarrow> bytes option" where
  "GetStoredValuePtr nm s =
     (case kv_find t_name nm (topics s) of Some t \<Rightarrow> t_data t | None \<Rightarrow> None)"

definition GetTopic :: "bytes \<Rightarrow> 'a CTopicStorage_scheme \<Rightarrow> MqttTopic \<times> bool" where
  "GetTopic nm s =
     (case kv_find t_name nm (topics s) of
        Some t \<Rightarrow> (t, True)
      | None \<Rightarrow> (new_MqttTopic 0 0 nm None, False))"

definition DeleteTopicValue :: "MqttTopic \<Rightarrow> 'a CTopicStorage_scheme \<Rightarrow> 'a CTopicStorage_scheme" where
  "DeleteTopicValue t s = s\<lparr>topics := kv_erase t_name (t_name t) (topics s)\<rparr>"

subsection \<open>The search for a filter\<close>

definition plus_tok :: bytes where "plus_tok = [0x2B]"
definition hash_tok :: bytes where "hash_tok = [0x23]"
lemma plus_hash [simp]: "plus_tok \<noteq> hash_tok" "hash_tok \<noteq> plus_tok"
  by (simp_all add: plus_tok_def hash_tok_def)

definition slash_hash :: bytes where "slash_hash = [0x2F, 0x23]"

text \<open>\<open>v[i]\<close> of a vector, without a check in the language: past the end is a fault.\<close>

definition vec_at :: "'a list \<Rightarrow> nat \<Rightarrow> 'a res" where
  "vec_at xs i = (if i < length xs then Inr (xs ! i) else Inl OobRead)"

text \<open>
  The loop over the tokens of the filter. \<open>ins\<close> says whether the stored topic has been inserted
  into the result; the third list is what is left of the first from \<open>i\<close> on.
\<close>

fun matched_loop :: "bytes list \<Rightarrow> bytes list \<Rightarrow> nat \<Rightarrow> bytes list \<Rightarrow> bool \<Rightarrow> bool res" where
  "matched_loop name_toks stored_toks i [] ins = Inr ins"
| "matched_loop name_toks stored_toks i (tok # toks) ins =
     (let at_end = (Suc i = length name_toks \<and> Suc i = length stored_toks)
      in if tok = plus_tok then matched_loop name_toks stored_toks (Suc i) toks (ins \<or> at_end)
         else
           let ins = ins \<or> tok = hash_tok
           in rbind (vec_at stored_toks i) (\<lambda>stored.
              if tok \<noteq> stored then Inr ins
              else matched_loop name_toks stored_toks (Suc i) toks (ins \<or> at_end)))"

fun matched_topics :: "bytes list \<Rightarrow> MqttTopic list \<Rightarrow> MqttTopic list \<Rightarrow> MqttTopic list res" where
  "matched_topics name_toks [] acc = Inr acc"
| "matched_topics name_toks (t # ts) acc =
     rbind (matched_loop name_toks (tokenize (t_name t) is_sep) 0 name_toks False) (\<lambda>ins.
     matched_topics name_toks ts (if ins then ord_insert t_name t acc else acc))"

definition GetMatchedTopics :: "bytes \<Rightarrow> 'a CTopicStorage_scheme \<Rightarrow> MqttTopic list res" where
  "GetMatchedTopics nm s =
     (if nm = hash_tok \<or> nm = slash_hash then Inr (topics s)
      else matched_topics (tokenize nm is_sep) (topics s) [])"

section \<open>Messages of QoS 2\<close>

definition AddQoSTopic ::
    "bytes \<Rightarrow> MqttTopic \<Rightarrow> 'a CTopicStorage_scheme \<Rightarrow> 'a CTopicStorage_scheme" where
  "AddQoSTopic client t s = s\<lparr>qos_2_topics := mm_insert client t (qos_2_topics s)\<rparr>"

text \<open>The iterator loop of the lookup: it starts at the first entry of the client.\<close>

fun qos_find_loop :: "bytes \<Rightarrow> u16 \<Rightarrow> (bytes \<times> MqttTopic) list \<Rightarrow> MqttTopic option" where
  "qos_find_loop client i [] = None"
| "qos_find_loop client i ((c, t) # es) =
     (if c \<noteq> client then None else if t_id t = i then Some t else qos_find_loop client i es)"

definition GetQoSTopic :: "bytes \<Rightarrow> u16 \<Rightarrow> 'a CTopicStorage_scheme \<Rightarrow> MqttTopic \<times> bool" where
  "GetQoSTopic client i s =
     (case qos_find_loop client i (dropWhile (\<lambda>e. fst e \<noteq> client) (qos_2_topics s)) of
        Some t \<Rightarrow> (t, True)
      | None \<Rightarrow> (new_MqttTopic 0 0 [] None, False))"

fun qos_del_loop :: "bytes \<Rightarrow> u16 \<Rightarrow> (bytes \<times> MqttTopic) list \<Rightarrow> (bytes \<times> MqttTopic) list" where
  "qos_del_loop client i [] = []"
| "qos_del_loop client i ((c, t) # es) =
     (if c \<noteq> client then (c, t) # es
      else if t_id t = i then es else (c, t) # qos_del_loop client i es)"

definition DelQoSTopic ::
    "bytes \<Rightarrow> u16 \<Rightarrow> 'a CTopicStorage_scheme \<Rightarrow> 'a CTopicStorage_scheme" where
  "DelQoSTopic client i s = s\<lparr>qos_2_topics :=
     takeWhile (\<lambda>e. fst e \<noteq> client) (qos_2_topics s) @
     qos_del_loop client i (dropWhile (\<lambda>e. fst e \<noteq> client) (qos_2_topics s))\<rparr>"

definition GetQoSTopicCount :: "'a CTopicStorage_scheme \<Rightarrow> u32" where
  "GetQoSTopicCount s = of_nat (length (qos_2_topics s))"

section \<open>What the storage keeps\<close>

definition storage_inv :: "'a CTopicStorage_scheme \<Rightarrow> bool" where
  "storage_inv s \<longleftrightarrow> ord_ok t_name (topics s) \<and> grouped (qos_2_topics s)"

lemma StoreTopicValue_StoreTopic: "StoreTopicValue q i nm d s = StoreTopic (new_MqttTopic q i nm d) s"
  by (simp add: StoreTopicValue_def StoreTopic_def Let_def)

lemma StoreTopic_inv: "storage_inv s \<Longrightarrow> storage_inv (StoreTopic t s)"
  by (simp add: storage_inv_def StoreTopic_def ord.ok_replace)

lemma DeleteTopicValue_inv: "storage_inv s \<Longrightarrow> storage_inv (DeleteTopicValue t s)"
  by (simp add: storage_inv_def DeleteTopicValue_def ord.ok_erase)

text \<open>The last value stored under a name is the one found, and no other name changes.\<close>

lemma find_StoreTopic:
  "storage_inv s \<Longrightarrow> kv_find t_name nm (topics (StoreTopic t s)) =
    (if nm = t_name t then Some t else kv_find t_name nm (topics s))"
  unfolding storage_inv_def StoreTopic_def by (simp add: ord.find_replace)

lemma find_DeleteTopicValue:
  "kv_find t_name nm (topics (DeleteTopicValue t s)) =
    (if nm = t_name t then None else kv_find t_name nm (topics s))"
  by (simp add: DeleteTopicValue_def kv_find_erase)

subsection \<open>The messages a client has not released\<close>

definition held :: "bytes \<Rightarrow> 'a CTopicStorage_scheme \<Rightarrow> MqttTopic list" where
  "held client s = map snd (filter (\<lambda>e. fst e = client) (qos_2_topics s))"

fun remove_first :: "('x \<Rightarrow> bool) \<Rightarrow> 'x list \<Rightarrow> 'x list" where
  "remove_first P [] = []"
| "remove_first P (x # xs) = (if P x then xs else x # remove_first P xs)"

lemma qos_find_loop_range:
  "qos_find_loop client i es = find (\<lambda>t. t_id t = i) (map snd (takeWhile (\<lambda>e. fst e = client) es))"
  by (induction client i es rule: qos_find_loop.induct) auto

lemma qos_del_loop_range:
  "qos_del_loop client i es =
    remove_first (\<lambda>e. t_id (snd e) = i) (takeWhile (\<lambda>e. fst e = client) es) @
    dropWhile (\<lambda>e. fst e = client) es"
  by (induction client i es rule: qos_del_loop.induct) auto

lemma held_range:
  assumes "storage_inv s"
  shows "held client s = map snd (mm_range client (qos_2_topics s))"
  using assms by (simp add: held_def storage_inv_def mm_range_eq_filter)

lemma GetQoSTopic_held:
  assumes "storage_inv s"
  shows "GetQoSTopic client i s =
    (case find (\<lambda>t. t_id t = i) (held client s) of
       Some t \<Rightarrow> (t, True) | None \<Rightarrow> (new_MqttTopic 0 0 [] None, False))"
  by (simp add: GetQoSTopic_def qos_find_loop_range held_range [OF assms] mm_range_def)

lemma AddQoSTopic_inv: "storage_inv s \<Longrightarrow> storage_inv (AddQoSTopic client t s)"
  by (simp add: storage_inv_def AddQoSTopic_def grouped_mm_insert)

lemma held_AddQoSTopic:
  assumes "storage_inv s"
  shows "held c (AddQoSTopic client t s) = (if c = client then t # held c s else held c s)"
  using assms AddQoSTopic_inv [OF assms, of client t]
  by (simp add: held_range mm_range_insert AddQoSTopic_def storage_inv_def)

lemma remove_first_map: "map f (remove_first (P \<circ> f) xs) = remove_first P (map f xs)"
  by (induction xs) auto

lemma remove_first_filter_other:
  "\<forall>x\<in>set xs. \<not> Q x \<Longrightarrow> filter Q (remove_first P xs) = []"
  by (induction xs) auto

lemma filter_remove_first_all:
  "\<forall>x\<in>set xs. Q x \<Longrightarrow> filter Q (remove_first P xs) = remove_first P xs"
  by (induction xs) (auto simp: filter_id_conv)

lemma remove_first_shape:
  "remove_first P xs = xs \<or> (\<exists>as x bs. xs = as @ x # bs \<and> remove_first P xs = as @ bs)"
proof (induction xs)
  case (Cons y ys)
  show ?case
  proof (cases "P y")
    case True
    have "y # ys = [] @ y # ys" by simp
    with True show ?thesis by fastforce
  next
    case False
    with Cons show ?thesis by (metis append_Cons remove_first.simps(2))
  qed
qed simp

lemma dropWhile_delete: "set (dropWhile P (as @ bs)) \<subseteq> set (dropWhile P (as @ x # bs))"
  by (induction as) (auto dest: set_dropWhileD)

lemma grouped_delete: "grouped (as @ x # bs) \<Longrightarrow> grouped (as @ bs)"
proof (induction as)
  case (Cons a as)
  with dropWhile_delete [of "\<lambda>y. fst y = fst a" as bs x] show ?case by auto
qed simp

lemma DelQoSTopic_split:
  "qos_2_topics s = takeWhile (\<lambda>e. fst e \<noteq> client) (qos_2_topics s) @ mm_range client (qos_2_topics s) @
    dropWhile (\<lambda>e. fst e = client) (dropWhile (\<lambda>e. fst e \<noteq> client) (qos_2_topics s))"
  "qos_2_topics (DelQoSTopic client i s) = takeWhile (\<lambda>e. fst e \<noteq> client) (qos_2_topics s) @
    remove_first (\<lambda>e. t_id (snd e) = i) (mm_range client (qos_2_topics s)) @
    dropWhile (\<lambda>e. fst e = client) (dropWhile (\<lambda>e. fst e \<noteq> client) (qos_2_topics s))"
  by (simp_all add: mm_range_def DelQoSTopic_def qos_del_loop_range)

lemma DelQoSTopic_inv:
  assumes "storage_inv s"
  shows "storage_inv (DelQoSTopic client i s)"
proof -
  obtain as bs cs where split: "qos_2_topics s = as @ bs @ cs"
    "qos_2_topics (DelQoSTopic client i s) = as @ remove_first (\<lambda>e. t_id (snd e) = i) bs @ cs"
    using DelQoSTopic_split [where s = s and client = client] by blast
  have g: "grouped (as @ bs @ cs)" using assms split(1) by (simp add: storage_inv_def)
  have "grouped (as @ remove_first (\<lambda>e. t_id (snd e) = i) bs @ cs)"
    using remove_first_shape [of "\<lambda>e. t_id (snd e) = i" bs]
  proof (elim disjE exE conjE)
    fix us x vs
    assume "bs = us @ x # vs" and "remove_first (\<lambda>e. t_id (snd e) = i) bs = us @ vs"
    with g grouped_delete [of "as @ us" x "vs @ cs"] show ?thesis by simp
  qed (use g in simp)
  moreover have "topics (DelQoSTopic client i s) = topics s" by (simp add: DelQoSTopic_def)
  ultimately show ?thesis using assms by (simp add: storage_inv_def split(2))
qed

text \<open>One message of the client with that identifier goes, the first; nothing else changes.\<close>

lemma held_DelQoSTopic:
  assumes "storage_inv s"
  shows "held c (DelQoSTopic client i s) =
    (if c = client then remove_first (\<lambda>t. t_id t = i) (held c s) else held c s)"
proof -
  define es where "es = qos_2_topics s"
  define as where "as = takeWhile (\<lambda>e. fst e \<noteq> client) es"
  define bs where "bs = mm_range client es"
  define cs where "cs = dropWhile (\<lambda>e. fst e = client) (dropWhile (\<lambda>e. fst e \<noteq> client) es)"
  define P where "P = (\<lambda>e :: bytes \<times> MqttTopic. t_id (snd e) = i)"
  have split: "es = as @ bs @ cs"
    "qos_2_topics (DelQoSTopic client i s) = as @ remove_first P bs @ cs"
    unfolding es_def as_def bs_def cs_def P_def by (rule DelQoSTopic_split)+
  have as: "\<forall>e\<in>set as. fst e \<noteq> client" by (auto simp: as_def dest: set_takeWhileD)
  have bs: "\<forall>e\<in>set bs. fst e = client" by (auto simp: bs_def mm_range_def dest: set_takeWhileD)
  have "filter (\<lambda>e. fst e = client) es = bs"
    using assms by (simp add: bs_def es_def mm_range_eq_filter storage_inv_def)
  then have cs: "filter (\<lambda>e. fst e = client) cs = []"
    using split(1) as bs by (simp add: filter_id_conv)
  have map: "map snd (remove_first P bs) = remove_first (\<lambda>t. t_id t = i) (map snd bs)"
    using remove_first_map [of snd "\<lambda>t. t_id t = i" bs] by (simp add: P_def comp_def)
  show ?thesis
  proof (cases "c = client")
    case True
    have "filter (\<lambda>e. fst e = client) (as @ remove_first P bs @ cs) = remove_first P bs"
      using as bs cs by (simp add: filter_remove_first_all)
    moreover have "filter (\<lambda>e. fst e = client) (qos_2_topics s) = bs"
      using \<open>filter (\<lambda>e. fst e = client) es = bs\<close> by (simp add: es_def)
    ultimately show ?thesis using True map by (simp add: held_def split(2))
  next
    case False
    then have "filter (\<lambda>e. fst e = c) bs = []" "filter (\<lambda>e. fst e = c) (remove_first P bs) = []"
      using bs remove_first_filter_other [of bs "\<lambda>e. fst e = c" P] by auto
    with False split show ?thesis by (simp add: held_def es_def [symmetric])
  qed
qed

section \<open>Matching\<close>

text \<open>
  What the loops are meant to decide, level by level: a hash stands for one level and all that
  follow, a plus for one level.
\<close>

fun level_match :: "bytes list \<Rightarrow> bytes list \<Rightarrow> bool" where
  "level_match [] [] \<longleftrightarrow> True"
| "level_match (f # fs) (t # ts) \<longleftrightarrow> f = hash_tok \<or> ((f = plus_tok \<or> f = t) \<and> level_match fs ts)"
| "level_match _ _ \<longleftrightarrow> False"

text \<open>
  The filter agrees with all levels of the topic and goes on: then the loop looks for a level the
  topic does not have.
\<close>

fun overruns :: "bytes list \<Rightarrow> bytes list \<Rightarrow> bool" where
  "overruns [] ts \<longleftrightarrow> False"
| "overruns (f # fs) [] \<longleftrightarrow> f \<noteq> plus_tok \<or> overruns fs []"
| "overruns (f # fs) (t # ts) \<longleftrightarrow> (f = plus_tok \<or> f = t) \<and> overruns fs ts"

lemma matched_loop_past:
  "length st \<le> i \<Longrightarrow> matched_loop ft st i fs ins = (if overruns fs [] then Inl OobRead else Inr ins)"
  by (induction fs arbitrary: i ins) (auto simp: Let_def vec_at_def)

lemma matched_loop_levels:
  assumes "hash_tok \<notin> set st" and "i \<le> length st" and "i + length fs = length ft" and "fs \<noteq> []"
  shows "matched_loop ft st i fs ins =
    (if overruns fs (drop i st) then Inl OobRead else Inr (ins \<or> level_match fs (drop i st)))"
  using assms(2-)
proof (induction fs arbitrary: i ins)
  case (Cons f fs)
  show ?case
  proof (cases "i = length st")
    case True
    then show ?thesis by (simp add: matched_loop_past del: matched_loop.simps)
  next
    case False
    with Cons.prems have i: "i < length st" by simp
    then have drop: "drop i st = st ! i # drop (Suc i) st" by (simp add: Cons_nth_drop_Suc)
    have no_hash: "st ! i \<noteq> hash_tok" using i assms(1) by (metis nth_mem)
    have last: "drop (Suc i) st = [] \<longleftrightarrow> Suc i = length st" using i by auto
    show ?thesis
    proof (cases "fs = []")
      case True
      then show ?thesis
        using Cons.prems i no_hash last unfolding drop
        by (cases "drop (Suc i) st") (auto simp: Let_def vec_at_def)
    next
      case False
      then have "Suc i \<noteq> length ft" using Cons.prems by (cases fs) auto
      with Cons.IH [of "Suc i"] Cons.prems i False no_hash show ?thesis
        unfolding drop by (simp add: Let_def vec_at_def)
    qed
  qed
qed simp

text \<open>The search loop, in full.\<close>

lemma matched_loop_spec:
  assumes "hash_tok \<notin> set st" and "ft \<noteq> []"
  shows "matched_loop ft st 0 ft False =
    (if overruns ft st then Inl OobRead else Inr (level_match ft st))"
  using assms matched_loop_levels [of st 0 ft ft False] by simp

text \<open>No retained topic is overrun: the result is the set of those that match.\<close>

lemma matched_topics_filter:
  assumes "ft \<noteq> []" and "\<forall>t\<in>set ts. hash_tok \<notin> set (tokenize (t_name t) is_sep)"
    and "\<forall>t\<in>set ts. \<not> overruns ft (tokenize (t_name t) is_sep)"
    and "ord_ok t_name (acc @ ts)"
  shows "matched_topics ft ts acc =
    Inr (acc @ filter (\<lambda>t. level_match ft (tokenize (t_name t) is_sep)) ts)"
  using assms(2,3,4)
proof (induction ts arbitrary: acc)
  case (Cons t ts)
  have spec: "matched_loop ft (tokenize (t_name t) is_sep) 0 ft False =
      Inr (level_match ft (tokenize (t_name t) is_sep))"
    using matched_loop_spec [of "tokenize (t_name t) is_sep" ft] Cons.prems assms(1) by simp
  have last: "ord_insert t_name t acc = acc @ [t]"
    using Cons.prems(3) by (intro ord_insert_greatest) (auto simp: ord_ok_def sorted_wrt_append)
  have ok: "ord_ok t_name (acc @ ts)" "ord_ok t_name ((acc @ [t]) @ ts)"
    using Cons.prems(3) by (auto simp: ord_ok_def sorted_wrt_append)
  show ?case
    using Cons.IH [OF _ _ ok(1)] Cons.IH [OF _ _ ok(2)] Cons.prems(1,2)
    by (simp add: spec last)
qed simp

lemma GetMatchedTopics_filter:
  assumes "storage_inv s" and "tokenize nm is_sep \<noteq> []" and "nm \<noteq> hash_tok" and "nm \<noteq> slash_hash"
    and "\<forall>t\<in>set (topics s). hash_tok \<notin> set (tokenize (t_name t) is_sep) \<and>
      \<not> overruns (tokenize nm is_sep) (tokenize (t_name t) is_sep)"
  shows "GetMatchedTopics nm s =
    Inr (filter (\<lambda>t. level_match (tokenize nm is_sep) (tokenize (t_name t) is_sep)) (topics s))"
  using assms matched_topics_filter [of "tokenize nm is_sep" "topics s" "[]"]
  by (simp add: GetMatchedTopics_def storage_inv_def)

text \<open>One that is overrun makes the search read past the tokens of that topic.\<close>

lemma matched_topics_overrun:
  assumes "ft \<noteq> []" and "hash_tok \<notin> set (tokenize (t_name t) is_sep)"
    and "overruns ft (tokenize (t_name t) is_sep)" and "t \<in> set ts"
    and "\<forall>t\<in>set ts. hash_tok \<notin> set (tokenize (t_name t) is_sep)"
  shows "matched_topics ft ts acc = Inl OobRead"
  using assms(4,5)
proof (induction ts arbitrary: acc)
  case (Cons t' ts)
  show ?case
  proof (cases "overruns ft (tokenize (t_name t') is_sep)")
    case True
    with Cons.prems assms(1) show ?thesis by (simp add: matched_loop_spec)
  next
    case False
    with assms(3) Cons.prems have "t \<in> set ts" by auto
    with False Cons assms(1) show ?thesis by (simp add: matched_loop_spec)
  qed
qed simp

end
