(* ===== verification/Protocol.thy ===== *)
theory Protocol
  imports Prelude
begin

text \<open>
  The constants of \<open>headers/mqtt_protocol.h\<close>: control packet types, quality of service,
  property identifiers, reason codes, the tags of the wire data types and the error codes the
  handlers return, each enum as a datatype with the numeric value of its members.
\<close>

section \<open>Control packet types\<close>

datatype (plugins only: code size) mqtt_pack_type =
    RESERVED | CONNECT | CONNACK | PUBLISH | PUBACK | PUBREC | PUBREL | PUBCOMP | SUBSCRIBE
  | SUBACK | UNSUBSCRIBE | UNSUBACK | PINGREQ | PINGRESP | DISCONNECT | AUTH

primrec pack_code :: "mqtt_pack_type \<Rightarrow> u8" where
  "pack_code RESERVED = 0"
| "pack_code CONNECT = 1"
| "pack_code CONNACK = 2"
| "pack_code PUBLISH = 3"
| "pack_code PUBACK = 4"
| "pack_code PUBREC = 5"
| "pack_code PUBREL = 6"
| "pack_code PUBCOMP = 7"
| "pack_code SUBSCRIBE = 8"
| "pack_code SUBACK = 9"
| "pack_code UNSUBSCRIBE = 10"
| "pack_code UNSUBACK = 11"
| "pack_code PINGREQ = 12"
| "pack_code PINGRESP = 13"
| "pack_code DISCONNECT = 14"
| "pack_code AUTH = 15"

section \<open>Quality of service\<close>

datatype mqtt_QoS = QoS_0 | QoS_1 | QoS_2

primrec qos_code :: "mqtt_QoS \<Rightarrow> u8" where
  "qos_code QoS_0 = 0"
| "qos_code QoS_1 = 1"
| "qos_code QoS_2 = 2"

section \<open>Property identifiers\<close>

datatype (plugins only: code size) mqtt_property_id =
    payload_format_indicator | message_expiry_interval | content_type | response_topic
  | correlation_data | subscription_identifier | session_expiry_interval
  | assigned_client_identifier | server_keep_alive | authentication_method
  | authentication_data | request_problem_information | will_delay_interval
  | request_response_information | response_information | server_reference | reason_string
  | receive_maximum | topic_alias_maximum | topic_alias | maximum_qos | retain_available
  | user_property | maximum_packet_size | wildcard_subscription_available
  | subscription_identifier_available | shared_subscription_available

primrec pid :: "mqtt_property_id \<Rightarrow> u8" where
  "pid payload_format_indicator = 1"
| "pid message_expiry_interval = 2"
| "pid content_type = 3"
| "pid response_topic = 8"
| "pid correlation_data = 9"
| "pid subscription_identifier = 11"
| "pid session_expiry_interval = 0x11"
| "pid assigned_client_identifier = 0x12"
| "pid server_keep_alive = 0x13"
| "pid authentication_method = 0x15"
| "pid authentication_data = 0x16"
| "pid request_problem_information = 0x17"
| "pid will_delay_interval = 0x18"
| "pid request_response_information = 0x19"
| "pid response_information = 0x1a"
| "pid server_reference = 0x1c"
| "pid reason_string = 0x1f"
| "pid receive_maximum = 0x21"
| "pid topic_alias_maximum = 0x22"
| "pid topic_alias = 0x23"
| "pid maximum_qos = 0x24"
| "pid retain_available = 0x25"
| "pid user_property = 0x26"
| "pid maximum_packet_size = 0x27"
| "pid wildcard_subscription_available = 0x28"
| "pid subscription_identifier_available = 0x29"
| "pid shared_subscription_available = 0x2a"

section \<open>Reason codes\<close>

datatype (plugins only: code size) mqtt_reason_code =
    success | granted_quos_1 | granted_quos_2 | disconnect_with_will | no_subscription_existed
  | unspecified_error | malformed_error | protocol_error | imp_specific_error
  | unsupported_protocol_version | client_identifier_not_valid | bad_user_name_passwd
  | not_authorized | server_unavailable | server_busy | banned | server_shutting_down
  | bad_authentication_method | keep_alive_timeout | session_taken_over | topic_filter_invalid
  | topic_name_invalid | receive_maximum_exceeded | topic_alias_invalid | packet_too_large
  | message_rate_too_high | quota_exceeded | administrative_action | payload_format_invalid
  | retain_not_supported | qos_not_supported | use_another_server | server_moved
  | shared_subscription_not_supported | connection_rate_exceeded | maximum_connection_time
  | subscription_identifiers_not_supported | wildcard_subscriptions_not_supported

primrec rc :: "mqtt_reason_code \<Rightarrow> u8" where
  "rc success = 0"
| "rc granted_quos_1 = 1"
| "rc granted_quos_2 = 2"
| "rc disconnect_with_will = 4"
| "rc no_subscription_existed = 0x11"
| "rc unspecified_error = 0x80"
| "rc malformed_error = 0x81"
| "rc protocol_error = 0x82"
| "rc imp_specific_error = 0x83"
| "rc unsupported_protocol_version = 0x84"
| "rc client_identifier_not_valid = 0x85"
| "rc bad_user_name_passwd = 0x86"
| "rc not_authorized = 0x87"
| "rc server_unavailable = 0x88"
| "rc server_busy = 0x89"
| "rc banned = 0x8a"
| "rc server_shutting_down = 0x8b"
| "rc bad_authentication_method = 0x8c"
| "rc keep_alive_timeout = 0x8d"
| "rc session_taken_over = 0x8e"
| "rc topic_filter_invalid = 0x8f"
| "rc topic_name_invalid = 0x90"
| "rc receive_maximum_exceeded = 0x93"
| "rc topic_alias_invalid = 0x94"
| "rc packet_too_large = 0x95"
| "rc message_rate_too_high = 0x96"
| "rc quota_exceeded = 0x97"
| "rc administrative_action = 0x98"
| "rc payload_format_invalid = 0x99"
| "rc retain_not_supported = 0x9a"
| "rc qos_not_supported = 0x9b"
| "rc use_another_server = 0x9c"
| "rc server_moved = 0x9d"
| "rc shared_subscription_not_supported = 0x9e"
| "rc connection_rate_exceeded = 0x9f"
| "rc maximum_connection_time = 0xa0"
| "rc subscription_identifiers_not_supported = 0xa1"
| "rc wildcard_subscriptions_not_supported = 0xa2"

section \<open>Data types on the wire\<close>

datatype mqtt_data_type =
    undefined_type | byte | two_byte | four_byte | mqtt_string | binary_data
  | mqtt_string_pair | variable_int

section \<open>Errors the protocol code returns\<close>

datatype mqtt_err =
    mqtt_ok | read_err | var_int_err | mqtt_property_err | disconnect | handle_error
  | protocol_version_err | duplicate_client_id | user_name_err | auth_fail

text \<open>The constants of the header: the two flag bits and the protocol version the broker accepts.\<close>

definition RETAIN_FLAG :: u8 where "RETAIN_FLAG = 0x01"

definition DUP_FLAG :: u8 where "DUP_FLAG = 0x08"

definition MQTT_VERSION_5 :: u8 where "MQTT_VERSION_5 = 5"

text \<open>A packet type fits the four high bits of the first byte, and the codes are different.\<close>

lemma pack_code_inject: "pack_code p = pack_code q \<longleftrightarrow> p = q"
  by (cases p; cases q; simp)

lemma pack_code_bound: "pack_code p < 16"
  by (cases p) simp_all

end
