(* ===== verification/Serializer.thy ===== *)
theory Serializer
  imports Prelude
begin

text \<open>
  The interface \<open>Serialize (dst_buf, offset)\<close> that fixed headers, entities, properties,
  property chains and variable headers share: bytes are written to a block from a position on and a
  32-bit \<open>offset\<close> is advanced. Its contract is a pure encoding: the call writes exactly the
  encoding and adds exactly its length.
\<close>

text \<open>Write a finished encoding and advance the offset: what every serializer amounts to.\<close>

definition emit :: "bytes \<Rightarrow> bytes \<Rightarrow> nat \<Rightarrow> u32 \<Rightarrow> (bytes \<times> u32) res" where
  "emit bs dst pos off = rbind (mem_put dst pos bs) (\<lambda>d. Inr (d, off + of_nat (length bs)))"

lemma emit_emit:
  assumes "pos' = pos + length as"
  shows "rbind (emit as dst pos off) (\<lambda>(d, o'). emit bs d pos' o') = emit (as @ bs) dst pos off"
proof -
  have "rbind (emit as dst pos off) (\<lambda>(d, o'). emit bs d pos' o') =
      rbind (rbind (mem_put dst pos as) (\<lambda>d. mem_put d pos' bs))
        (\<lambda>d. Inr (d, off + of_nat (length as) + of_nat (length bs)))"
    by (simp add: emit_def rbind_assoc)
  also have "\<dots> = emit (as @ bs) dst pos off"
    using assms by (simp add: mem_put_mem_put emit_def ac_simps)
  finally show ?thesis .
qed

lemma emit_fresh: "length dst = length bs \<Longrightarrow> emit bs dst 0 off = Inr (bs, off + of_nat (length bs))"
  by (simp add: emit_def mem_put_all)

lemma mem_put_emit:
  "mem_put dst pos bs = Inr d \<Longrightarrow> emit bs dst pos off = Inr (d, off + of_nat (length bs))"
  by (simp add: emit_def)

locale serializer =
  fixes ser :: "'a \<Rightarrow> bytes \<Rightarrow> nat \<Rightarrow> u32 \<Rightarrow> (bytes \<times> u32) res"
    and enc :: "'a \<Rightarrow> bytes"
    and ok :: "'a \<Rightarrow> bool"
  assumes ser_emit: "ok x \<Longrightarrow> ser x dst pos off = emit (enc x) dst pos off"
begin

lemma ser_keeps_length: "ok x \<Longrightarrow> ser x dst pos off = Inr (d, o') \<Longrightarrow> length d = length dst"
  by (auto simp: ser_emit emit_def rbind_eq_Inr dest: length_mem_put)

lemma ser_fresh:
  "ok x \<Longrightarrow> length dst = length (enc x) \<Longrightarrow> ser x dst 0 0 = Inr (enc x, of_nat (length (enc x)))"
  by (simp add: ser_emit emit_fresh)

lemma ser_overflow:
  "ok x \<Longrightarrow> length dst < pos + length (enc x) \<Longrightarrow> ser x dst pos off = Inl OobWrite"
  by (simp add: ser_emit emit_def mem_put_def)

text \<open>After a first part has been written, the serializer appends its encoding.\<close>

lemma ser_after:
  assumes "ok x" and "pos' = pos + length as"
  shows "rbind (emit as dst pos off) (\<lambda>(d, o'). ser x d pos' o') = emit (as @ enc x) dst pos off"
  using assms by (simp add: ser_emit emit_emit)

end

text \<open>A serializer that also announces its size, which is what a packet's buffer is allocated by.\<close>

locale sized_serializer = serializer +
  fixes size_of :: "'a \<Rightarrow> u32"
  assumes size_of: "ok x \<Longrightarrow> size_of x = of_nat (length (enc x))"
begin

lemma unat_size_of: "ok x \<Longrightarrow> length (enc x) < 2 ^ 32 \<Longrightarrow> unat (size_of x) = length (enc x)"
  by (simp add: size_of)

text \<open>A block of the announced size is filled exactly.\<close>

lemma ser_into_allocated:
  assumes "ok x" and "length (enc x) < 2 ^ 32"
  shows "ser x (replicate (unat (size_of x)) b) 0 0 = Inr (enc x, size_of x)"
  using assms by (simp add: ser_fresh unat_size_of) (simp add: size_of)

end

end
