(* ===== verification/Var_Int.thy ===== *)
theory Var_Int
  imports Protocol Serializer
begin

text \<open>
  The variable byte integer of MQTT: \<open>ReadVariableInt\<close> (from a socket), \<open>DeCodeVarInt\<close>
  (from a buffer), \<open>CodeVarInt\<close> and \<open>GetVarIntSize\<close>, from the head of
  \<open>src/mqtt_protocol.cpp\<close>, with the pure encoding \<open>vint\<close> they are compared to.
\<close>

section \<open>Reading\<close>

text \<open>\<open>mult<V, num>::value\<close>, the compile-time power.\<close>

fun mult :: "u32 \<Rightarrow> nat \<Rightarrow> u32" where
  "mult V 0 = 1"
| "mult V (Suc num) = V * mult V num"

text \<open>
  The loop leaves after the fifth byte at the latest, whatever it reads; the fuel counts its
  rounds. \<open>value\<close> and \<open>multiplayer\<close> are \<open>uint32_t\<close>, \<open>offset\<close> is \<open>uint8_t\<close>.
\<close>

fun decode_loop :: "nat \<Rightarrow> bytes \<Rightarrow> nat \<Rightarrow> u32 \<Rightarrow> u32 \<Rightarrow> u8 \<Rightarrow> (mqtt_err + u32 \<times> u8) res" where
  "decode_loop 0 buf p val multiplayer offset = Inl Diverges"
| "decode_loop (Suc n) buf p val multiplayer offset =
     rbind (rd8 buf (p + unat offset)) (\<lambda>single_byte.
       let val = val + ucast (single_byte AND 0x7F) * multiplayer in
       if multiplayer > mult 128 3 then Inr (Inl var_int_err)
       else
         let multiplayer = multiplayer * 128; offset = offset + 1 in
         if single_byte AND 0x80 = 0 then Inr (Inr (val, offset))
         else decode_loop n buf p val multiplayer offset)"

definition DeCodeVarInt :: "bytes \<Rightarrow> nat \<Rightarrow> (mqtt_err + u32 \<times> u8) res" where
  "DeCodeVarInt buf p = decode_loop 5 buf p 0 1 0"

text \<open>
  From a socket: the bytes that will still arrive are a list; \<open>read\<close> returns one of them, or
  something other than 1 when there is none. The rest of the input is part of the result.
\<close>

fun read_loop :: "nat \<Rightarrow> bytes \<Rightarrow> u32 \<Rightarrow> u32 \<Rightarrow> (mqtt_err + u32) \<times> bytes" where
  "read_loop 0 inp val multiplayer = (Inl var_int_err, inp)"
| "read_loop (Suc n) inp val multiplayer =
     (case inp of
        [] \<Rightarrow> (Inl read_err, [])
      | single_byte # rest \<Rightarrow>
          let val = val + ucast (single_byte AND 0x7F) * multiplayer in
          if multiplayer > mult 128 3 then (Inl var_int_err, rest)
          else
            let multiplayer = multiplayer * 128 in
            if single_byte AND 0x80 = 0 then (Inr val, rest)
            else read_loop n rest val multiplayer)"

definition ReadVariableInt :: "bytes \<Rightarrow> (mqtt_err + u32) \<times> bytes" where
  "ReadVariableInt inp = read_loop 5 inp 0 1"

section \<open>Writing\<close>

text \<open>The loop of \<open>CodeVarInt\<close>; it ends because the value is divided by 128 in each round.\<close>

function code_loop :: "bytes \<Rightarrow> nat \<Rightarrow> u32 \<Rightarrow> u8 \<Rightarrow> (bytes \<times> u8) res" where
  "code_loop dst p val offset =
     (let single_byte = ucast (val mod 0x80) :: u8;
          val = val div 0x80;
          single_byte = (if val > 0 then single_byte OR 0x80 else single_byte)
      in rbind (mem_put dst (p + unat offset) [single_byte]) (\<lambda>dst.
           let offset = offset + 1 in
           if val = 0 then Inr (dst, offset) else code_loop dst p val offset))"
  by pat_completeness auto
termination
  by (relation "measure (\<lambda>(dst, p, val, offset). unat val)")
    (auto simp flip: unat_eq_0)

declare code_loop.simps [simp del]

definition CodeVarInt :: "bytes \<Rightarrow> nat \<Rightarrow> u32 \<Rightarrow> (bytes \<times> u8) res" where
  "CodeVarInt dst p val = code_loop dst p val 0"

function size_loop :: "u32 \<Rightarrow> u8 \<Rightarrow> u8" where
  "size_loop val count = (if val > 0 then size_loop (val div 0x80) (count + 1) else count)"
  by pat_completeness auto
termination
  by (relation "measure (\<lambda>(val, count). unat val)") (auto simp flip: unat_eq_0 simp: word_less_nat_alt)

declare size_loop.simps [simp del]

definition GetVarIntSize :: "u32 \<Rightarrow> u8" where
  "GetVarIntSize val = (if val = 0 then 1 else size_loop val 0)"

section \<open>The pure encoding\<close>

text \<open>Seven bits per byte, least significant group first, bit 7 set on all but the last byte.\<close>

fun vint :: "nat \<Rightarrow> bytes" where
  "vint n = (if n < 128 then [of_nat n] else of_nat (n mod 128 + 128) # vint (n div 128))"

declare vint.simps [simp del]

lemma vint_small: "n < 128 \<Longrightarrow> vint n = [of_nat n]"
  by (simp add: vint.simps)

lemma vint_large: "128 \<le> n \<Longrightarrow> vint n = of_nat (n mod 128 + 128) # vint (n div 128)"
  by (simp add: vint.simps [of n])

lemma vint_not_Nil [simp]: "vint n \<noteq> []"
  by (simp add: vint.simps [of n])

lemma length_vint_pos [simp]: "0 < length (vint n)"
  by simp

lemma length_vint_le: "n < 128 ^ Suc k \<Longrightarrow> length (vint n) \<le> Suc k"
proof (induction k arbitrary: n)
  case 0
  then show ?case by (simp add: vint_small)
next
  case (Suc k)
  show ?case
  proof (cases "n < 128")
    case False
    with Suc.prems have "n div 128 < 128 ^ Suc k" by (simp add: div_less_iff_less_mult)
    with False Suc.IH show ?thesis by (simp add: vint_large)
  qed (simp add: vint_small)
qed

lemma length_vint_u32: "length (vint (unat (v :: u32))) \<le> 5"
proof -
  have "unat v < 2 ^ 32" using unsigned_less [of v] by simp
  then show ?thesis using length_vint_le [of "unat v" 4] by simp
qed

section \<open>The bit tests of the loops\<close>

lemma low7: "unat ((b :: u8) AND 0x7F) = unat b mod 128"
proof -
  have "b AND 0x7F = take_bit 7 b"
    by (simp only: take_bit_eq_mask) (simp add: mask_eq_exp_minus_1)
  then show ?thesis
    by (simp only: unsigned_take_bit_eq) (simp add: take_bit_eq_mod)
qed

lemma cont_bit: "(b :: u8) AND 0x80 = 0 \<longleftrightarrow> unat b < 128"
proof -
  have "b AND 0x80 = 0 \<longleftrightarrow> \<not> bit b 7"
    using and_exp_eq_0_iff_not_bit [of b 7] by simp
  also have "\<dots> \<longleftrightarrow> \<not> bit (unat b) 7"
    by (simp add: bit_unsigned_iff)
  also have "\<dots> \<longleftrightarrow> unat b < 128"
  proof -
    have "unat b < 256" using unsigned_less [of b, where 'a = nat] by simp
    then have "unat b div 128 = 0 \<or> unat b div 128 = 1" by linarith
    then show ?thesis by (auto simp: bit_iff_odd)
  qed
  finally show ?thesis .
qed

lemma set_cont_bit:
  assumes "n < 128"
  shows "(of_nat n :: u8) OR 0x80 = of_nat (n + 128)"
proof -
  have "(of_nat n :: u8) AND 0x80 = 0" using assms by (simp add: cont_bit)
  then have "(of_nat n :: u8) OR 0x80 = of_nat n + 0x80" by (simp add: disjunctive_add_eq_or)
  then show ?thesis by simp
qed

lemma ucast_low7: "(ucast ((b :: u8) AND 0x7F) :: u32) = of_nat (unat b mod 128)"
proof -
  have "unat b mod 128 < 2 ^ 32" by (rule less_trans [of _ 128]) simp_all
  then have "unat (ucast (b AND 0x7F) :: u32) = unat (of_nat (unat b mod 128) :: u32)"
    by (simp only: unsigned_ucast_eq low7) (simp add: take_bit_nat_eq_self)
  then show ?thesis by (simp only: word_unat_eq_iff)
qed


lemma ucast_u8_u32_mod: "(ucast (of_nat n :: u8) :: u32) = of_nat (n mod 256)"
proof -
  have "n mod 256 < 2 ^ 32" by (rule less_trans [of _ 256]) simp_all
  then have "unat (ucast (of_nat n :: u8) :: u32) = unat (of_nat (n mod 256) :: u32)"
    by (simp add: unsigned_ucast_eq unsigned_of_nat take_bit_eq_mod)
  then show ?thesis by (simp only: word_unat_eq_iff)
qed

lemma ucast_of_nat_u8_u32:
  "n < 256 \<Longrightarrow> (ucast (of_nat n :: u8) :: u32) = of_nat n"
  by (simp add: ucast_u8_u32_mod)

lemma length_vint_u32_small: "length (vint (unat (v :: u32))) < 256"
  using length_vint_u32 [of v] by simp

section \<open>Writing is the encoding\<close>

lemma ucast_mod128: "(ucast (v mod 128 :: u32) :: u8) = of_nat (unat v mod 128)"
proof -
  have "unat v mod 128 < 2 ^ 8" by (rule less_trans [of _ 128]) simp_all
  then have "unat (ucast (v mod 128 :: u32) :: u8) = unat (of_nat (unat v mod 128) :: u8)"
    by (simp only: unsigned_ucast_eq unat_mod128) (simp add: take_bit_eq_mod)
  then show ?thesis by (simp only: word_unat_eq_iff)
qed

lemma mem_put_Cons:
  "j = Suc i \<Longrightarrow> rbind (mem_put dst i [b]) (\<lambda>d. mem_put d j bs) = mem_put dst i (b # bs)"
  using mem_put_mem_put [of j i "[b]" dst bs] by simp

lemma code_loop_vint:
  assumes "unat offset + length (vint (unat val)) < 256"
  shows "code_loop dst p val offset =
    rbind (mem_put dst (p + unat offset) (vint (unat val)))
      (\<lambda>d. Inr (d, offset + of_nat (length (vint (unat val)))))"
  using assms
proof (induction dst p val offset rule: code_loop.induct)
  case (1 dst p val offset)
  let ?q = "val div 0x80"
  show ?case
  proof (cases "?q = 0")
    case True
    then have "unat val < 128" by (simp add: word_unat_eq_iff div_eq_0_iff)
    with True show ?thesis
      by (simp add: code_loop.simps [of dst p val offset] Let_def vint_small ucast_mod128)
  next
    case False
    then have large: "128 \<le> unat val" by (simp add: word_unat_eq_iff div_eq_0_iff)
    then have vint: "vint (unat val) = of_nat (unat val mod 128 + 128) # vint (unat ?q)"
      by (simp add: vint_large)
    have pos: "0 < ?q" using False by (simp add: word_neq_0_conv)
    have off: "unat (offset + 1) = Suc (unat offset)"
      using "1.prems" vint by (intro unat_Suc8) simp
    have byte: "(of_nat (unat val mod 128) :: u8) OR 0x80 = of_nat (unat val mod 128 + 128)"
      by (rule set_cont_bit) simp
    let ?b = "of_nat (unat val mod 128 + 128) :: u8"
    have put: "mem_put dst (p + unat offset) (vint (unat val)) =
        rbind (mem_put dst (p + unat offset) [?b])
          (\<lambda>d. mem_put d (p + unat (offset + 1)) (vint (unat ?q)))"
      by (simp only: vint off) (simp add: mem_put_Cons)
    have step: "code_loop dst p val offset =
        rbind (mem_put dst (p + unat offset) [?b]) (\<lambda>d. code_loop d p ?q (offset + 1))"
      using False pos byte by (subst code_loop.simps) (simp add: Let_def ucast_mod128)
    show ?thesis
    proof (cases "mem_put dst (p + unat offset) [?b]")
      case (Inl e)
      then show ?thesis unfolding step put by simp
    next
      case (Inr d)
      have "code_loop d p ?q (offset + 1) =
          rbind (mem_put d (p + unat (offset + 1)) (vint (unat ?q)))
            (\<lambda>d. Inr (d, offset + 1 + of_nat (length (vint (unat ?q)))))"
        using False pos Inr "1.prems" off vint byte
        by (intro "1.IH" [OF refl refl refl _ refl]) (simp_all add: ucast_mod128)
      with Inr show ?thesis unfolding step put by (simp add: vint ac_simps)
    qed
  qed
qed


text \<open>\<open>CodeVarInt\<close> writes the encoding of its value at the destination and returns its length.\<close>

lemma CodeVarInt_vint:
  "CodeVarInt dst p val =
    rbind (mem_put dst p (vint (unat val))) (\<lambda>d. Inr (d, of_nat (length (vint (unat val)))))"
  using code_loop_vint [of 0 val dst p] length_vint_u32 [of val]
  by (simp add: CodeVarInt_def)

lemma size_loop_vint:
  "val \<noteq> 0 \<Longrightarrow> size_loop val count = count + of_nat (length (vint (unat val)))"
proof (induction val count rule: size_loop.induct)
  case (1 val count)
  then have pos: "0 < val" by (simp add: word_neq_0_conv)
  show ?case
  proof (cases "val div 0x80 = 0")
    case True
    then have "unat val < 128" by (simp add: word_unat_eq_iff div_eq_0_iff)
    with True pos show ?thesis
      by (simp add: size_loop.simps [of val] size_loop.simps [of 0] vint_small)
  next
    case False
    then have "128 \<le> unat val" by (simp add: word_unat_eq_iff div_eq_0_iff)
    with "1.IH" [OF pos False] pos show ?thesis
      by (simp add: size_loop.simps [of val] vint_large)
  qed
qed

lemma GetVarIntSize_vint: "GetVarIntSize val = of_nat (length (vint (unat val)))"
  by (simp add: GetVarIntSize_def size_loop_vint vint_small)

lemma unat_GetVarIntSize: "unat (GetVarIntSize val) = length (vint (unat val))"
  using length_vint_u32 [of val] by (simp add: GetVarIntSize_vint)

section \<open>Reading back\<close>

lemma mult_128_3: "mult 128 3 = 128 ^ 3"
  by (simp add: numeral_3_eq_3)

text \<open>One round of the decoder on a byte that is there.\<close>

lemma decode_round:
  assumes "buf = xs @ b # ys" and "length xs = p + i" and "i \<le> 3"
  shows "decode_loop (Suc n) buf p val (128 ^ i) (of_nat i) =
    (if unat b < 128 then Inr (Inr (val + of_nat (unat b mod 128) * 128 ^ i, of_nat (Suc i)))
     else decode_loop n buf p (val + of_nat (unat b mod 128) * 128 ^ i) (128 ^ Suc i) (of_nat (Suc i)))"
proof -
  have "\<not> (128 :: u32) ^ i > 128 ^ 3"
  proof -
    have "i = 0 \<or> i = 1 \<or> i = 2 \<or> i = 3" using assms(3) by linarith
    then show ?thesis by auto
  qed
  moreover have "unat (of_nat i :: u8) = i" using assms(3) by simp
  moreover have "rd8 buf (p + i) = Inr b"
    using assms(1) rd8_append [of xs b ys] by (simp add: assms(2))
  ultimately show ?thesis
    by (simp add: Let_def mult_128_3 ucast_low7 cont_bit ac_simps)
qed

declare decode_loop.simps(2) [simp del]

lemma decode_last:
  assumes "m < 128" and "buf = xs @ of_nat m # ys" and "length xs = p + i" and "i \<le> 3"
  shows "decode_loop (Suc n) buf p val (128 ^ i) (of_nat i) =
    Inr (Inr (val + of_nat m * 128 ^ i, of_nat (Suc i)))"
  using assms(1) by (subst decode_round [OF assms(2-4)]) simp

lemma decode_loop_vint:
  assumes "m < 128 ^ Suc j" and "i + j = 3" and "buf = xs @ vint m @ ys" and "length xs = p + i"
    and "Suc j \<le> n"
  shows "decode_loop n buf p val (128 ^ i) (of_nat i) =
    Inr (Inr (val + of_nat m * 128 ^ i, of_nat (i + length (vint m))))"
  using assms
proof (induction j arbitrary: m i xs val n)
  case 0
  then obtain n' where "n = Suc n'" by (cases n) auto
  moreover have "decode_loop (Suc n') buf p val (128 ^ i) (of_nat i) =
      Inr (Inr (val + of_nat m * 128 ^ i, of_nat (Suc i)))"
    using 0 by (intro decode_last [of _ _ xs ys]) (simp_all add: vint_small)
  ultimately show ?case using 0 by (simp add: vint_small)
next
  case (Suc j)
  then obtain n' where n: "n = Suc n'" by (cases n) auto
  show ?case
  proof (cases "m < 128")
    case True
    then have "decode_loop (Suc n') buf p val (128 ^ i) (of_nat i) =
        Inr (Inr (val + of_nat m * 128 ^ i, of_nat (Suc i)))"
      using Suc.prems by (intro decode_last [of _ _ xs ys]) (simp_all add: vint_small)
    with True n show ?thesis by (simp add: vint_small)
  next
    case False
    let ?b = "of_nat (m mod 128 + 128) :: u8"
    have b: "unat ?b = m mod 128 + 128"
      by (intro unat_of_nat8) (simp add: less_trans [of "m mod 128" 128])
    have buf: "buf = xs @ ?b # (vint (m div 128) @ ys)"
      using Suc.prems(3) False by (simp add: vint_large)
    have m: "m div 128 < 128 ^ Suc j"
      using Suc.prems(1) by (simp add: div_less_iff_less_mult)
    have "decode_loop n buf p val (128 ^ i) (of_nat i) =
        decode_loop n' buf p (val + of_nat (m mod 128) * 128 ^ i) (128 ^ Suc i) (of_nat (Suc i))"
      using Suc.prems(2,4) b by (simp add: n decode_round [OF buf] del: of_nat_add)
    also have "\<dots> = Inr (Inr (val + of_nat (m mod 128) * 128 ^ i
        + of_nat (m div 128) * 128 ^ Suc i, of_nat (Suc i + length (vint (m div 128)))))"
      using Suc.prems m n
      by (intro Suc.IH [of _ _ "xs @ [?b]"]) (simp_all add: buf)
    also have "val + of_nat (m mod 128) * 128 ^ i + of_nat (m div 128) * 128 ^ Suc i
        = val + (of_nat m :: u32) * 128 ^ i"
    proof -
      have "(of_nat m :: u32) = of_nat (m mod 128 + 128 * (m div 128))"
        by (simp only: mod_mult_div_eq)
      also have "\<dots> = of_nat (m mod 128) + 128 * of_nat (m div 128)"
        by (simp only: of_nat_add of_nat_mult of_nat_numeral)
      finally have m_eq: "(of_nat m :: u32) = of_nat (m mod 128) + 128 * of_nat (m div 128)" .
      show ?thesis unfolding m_eq by (simp only: algebra_simps power_Suc)
    qed
    finally show ?thesis
      using False by (simp add: vint_large)
  qed
qed


lemma DeCodeVarInt_vint:
  assumes "m < 128 ^ 4"
  shows "DeCodeVarInt (xs @ vint m @ ys) (length xs) = Inr (Inr (of_nat m, of_nat (length (vint m))))"
  using decode_loop_vint [of m 3 0 "xs @ vint m @ ys" xs ys "length xs" 5 0] assms
  by (simp add: DeCodeVarInt_def)

text \<open>A round in general: the byte is missing, it is one too many, the last one, or another follows.\<close>

lemma decode_loop_step:
  assumes "i \<le> 4"
  shows "decode_loop (Suc n) buf p (of_nat w) (128 ^ i) (of_nat i) =
    (if length buf \<le> p + i then Inl OobRead
     else if i = 4 then Inr (Inl var_int_err)
     else let w' = w + unat (buf ! (p + i)) mod 128 * 128 ^ i in
       if unat (buf ! (p + i)) < 128 then Inr (Inr (of_nat w', of_nat (Suc i)))
       else decode_loop n buf p (of_nat w') (128 ^ Suc i) (of_nat (Suc i)))"
proof -
  have i: "i = 0 \<or> i = 1 \<or> i = 2 \<or> i = 3 \<or> i = 4" using assms by linarith
  then have mul: "(128 :: u32) ^ i > 128 ^ 3 \<longleftrightarrow> i = 4" by auto
  have "unat (of_nat i :: u8) = i" using assms by simp
  with mul show ?thesis
    by (simp add: decode_loop.simps rd8_def Let_def mult_128_3 ucast_low7 cont_bit ac_simps)
qed

lemma decode_step_bound:
  assumes "w < 128 ^ i"
  shows "w + b mod 128 * 128 ^ i < (128 :: nat) ^ Suc i"
proof -
  have "b mod 128 * 128 ^ i \<le> 127 * (128 :: nat) ^ i" by (intro mult_right_mono) auto
  with assms have "w + b mod 128 * 128 ^ i < 128 ^ i + 127 * 128 ^ i" by linarith
  then show ?thesis by simp
qed

lemma decode_loop_sound:
  assumes "decode_loop n buf p (of_nat w) (128 ^ i) (of_nat i) = Inr (Inr (v, s))"
    and "w < 128 ^ i" and "i \<le> 4"
  shows "i < unat s \<and> unat s \<le> 4 \<and> p + unat s \<le> length buf \<and> unat v < 128 ^ unat s"
  using assms
proof (induction n arbitrary: w i)
  case (Suc n)
  let ?w = "w + unat (buf ! (p + i)) mod 128 * 128 ^ i"
  have w: "?w < 128 ^ Suc i" by (rule decode_step_bound) (rule Suc.prems)
  have i: "i < 4" and len: "\<not> length buf \<le> p + i"
    using Suc.prems(1,3) by (auto simp: decode_loop_step split: if_splits)
  show ?case
  proof (cases "unat (buf ! (p + i)) < 128")
    case True
    with Suc.prems i len have v: "v = of_nat ?w" and s: "s = of_nat (Suc i)"
      by (simp_all add: decode_loop_step)
    moreover have "unat s = Suc i"
      unfolding s using i by (intro unat_of_nat8) simp
    moreover have "?w < 2 ^ 32"
      using w i power_increasing [of "Suc i" 4 "128 :: nat"] by simp
    then have "unat v = ?w" unfolding v by (rule unat_of_nat32)
    ultimately show ?thesis
      using w i len by simp
  next
    case False
    with Suc.prems i len
    have "decode_loop n buf p (of_nat ?w) (128 ^ Suc i) (of_nat (Suc i)) = Inr (Inr (v, s))"
      by (simp add: decode_loop_step Let_def)
    from Suc.IH [OF this w] i show ?thesis by simp
  qed
qed simp

lemma DeCodeVarInt_sound:
  assumes "DeCodeVarInt buf p = Inr (Inr (v, s))"
  shows "0 < unat s" "unat s \<le> 4" "p + unat s \<le> length buf" "unat v < 128 ^ unat s"
  using decode_loop_sound [of 5 buf p 0 0 v s] assms by (simp_all add: DeCodeVarInt_def)

lemma DeCodeVarInt_bound: "DeCodeVarInt buf p = Inr (Inr (v, s)) \<Longrightarrow> unat v < 2 ^ 28"
  using DeCodeVarInt_sound [of buf p v s] power_increasing [of "unat s" 4 "128 :: nat"]
  by (simp add: power_one_over)

text \<open>Five rounds are enough, whatever the bytes are.\<close>

lemma decode_loop_fuel:
  "n + i = 5 \<Longrightarrow> 0 < n \<Longrightarrow> decode_loop n buf p (of_nat w) (128 ^ i) (of_nat i) \<noteq> Inl Diverges"
proof (induction n arbitrary: w i)
  case (Suc n)
  show ?case
  proof (cases "i = 4")
    case False
    with Suc.prems Suc.IH [of "Suc i" "w + unat (buf ! (p + i)) mod 128 * 128 ^ i"]
    show ?thesis by (simp add: decode_loop_step Let_def)
  qed (use decode_loop_step [of i n buf p w] in simp)
qed simp

lemma DeCodeVarInt_total: "DeCodeVarInt buf p \<noteq> Inl Diverges"
  using decode_loop_fuel [of 5 0 buf p 0] by (simp add: DeCodeVarInt_def)

section \<open>The socket reader and the buffer reader agree\<close>

lemma read_loop_decode:
  "n + i = 5 \<Longrightarrow> 0 < n \<Longrightarrow>
    read_loop n (drop i buf) (of_nat w) (128 ^ i) =
      (case decode_loop n buf 0 (of_nat w) (128 ^ i) (of_nat i) of
         Inl _ \<Rightarrow> (Inl read_err, [])
       | Inr (Inl e) \<Rightarrow> (Inl e, drop 5 buf)
       | Inr (Inr (v, s)) \<Rightarrow> (Inr v, drop (unat s) buf))"
proof (induction n arbitrary: w i)
  case (Suc n)
  then have i: "i = 0 \<or> i = 1 \<or> i = 2 \<or> i = 3 \<or> i = 4" by linarith
  then have mul: "(128 :: u32) ^ i > mult 128 3 \<longleftrightarrow> i = 4" by (auto simp: mult_128_3)
  show ?case
  proof (cases "length buf \<le> i")
    case True
    with Suc.prems show ?thesis by (simp add: decode_loop_step)
  next
    case False
    then have drop: "drop i buf = buf ! i # drop (Suc i) buf" by (simp add: Cons_nth_drop_Suc)
    have "read_loop n (drop (Suc i) buf) (of_nat w + of_nat (unat (buf ! i) mod 128) * 128 ^ i)
        (128 ^ i * 128) =
      (case decode_loop n buf 0 (of_nat w + of_nat (unat (buf ! i) mod 128) * 128 ^ i)
          (128 ^ i * 128) (1 + of_nat i) of
         Inl _ \<Rightarrow> (Inl read_err, [])
       | Inr (Inl e) \<Rightarrow> (Inl e, drop 5 buf)
       | Inr (Inr (v, s)) \<Rightarrow> (Inr v, drop (unat s) buf))" if "i \<noteq> 4"
      using Suc.IH [of "Suc i" "w + unat (buf ! i) mod 128 * 128 ^ i"] Suc.prems that
      by (simp add: ac_simps)
    moreover have "unat (1 + of_nat i :: u8) = Suc i"
      using i by auto
    ultimately show ?thesis
      using False Suc.prems mul
      by (simp add: drop decode_loop_step Let_def ucast_low7 cont_bit ac_simps)
  qed
qed simp

lemma ReadVariableInt_DeCodeVarInt:
  "ReadVariableInt inp =
    (case DeCodeVarInt inp 0 of
       Inl _ \<Rightarrow> (Inl read_err, [])
     | Inr (Inl e) \<Rightarrow> (Inl e, drop 5 inp)
     | Inr (Inr (v, s)) \<Rightarrow> (Inr v, drop (unat s) inp))"
  using read_loop_decode [of 5 0 inp 0] by (simp add: ReadVariableInt_def DeCodeVarInt_def)

end
