(* ===== verification/Entities.thy ===== *)
theory Entities
  imports Var_Int Functions
begin

text \<open>
  The value classes of \<open>src/mqtt_protocol.cpp\<close>: the subclasses of \<open>MqttEntity\<close> as
  constructors of one datatype, their construction from buffers, their accessors and their
  serialization. Integers are held in host representation; strings and binary data are byte
  lists.
\<close>

section \<open>The values\<close>

datatype MqttEntity =
    MqttByteEntity u8
  | MqttTwoByteEntity u16
  | MqttFourByteEntity u32
  | MqttStringEntity bytes
  | MqttBinaryDataEntity bytes
  | MqttStringPairEntity bytes bytes
  | MqttVIntEntity u32

text \<open>Construction from a pointer: the object representation is copied from the buffer.\<close>

definition new_MqttByteEntity :: "bytes \<Rightarrow> nat \<Rightarrow> MqttEntity res" where
  "new_MqttByteEntity buf p = rbind (rd8 buf p) (\<lambda>b. Inr (MqttByteEntity b))"

definition new_MqttTwoByteEntity :: "bytes \<Rightarrow> nat \<Rightarrow> MqttEntity res" where
  "new_MqttTwoByteEntity buf p = rbind (rd_block buf p 2) (\<lambda>bs. Inr (MqttTwoByteEntity (val16 bs)))"

definition new_MqttFourByteEntity :: "bytes \<Rightarrow> nat \<Rightarrow> MqttEntity res" where
  "new_MqttFourByteEntity buf p = rbind (rd_block buf p 4) (\<lambda>bs. Inr (MqttFourByteEntity (val32 bs)))"

definition new_MqttStringEntity :: "u16 \<Rightarrow> bytes \<Rightarrow> nat \<Rightarrow> MqttEntity res" where
  "new_MqttStringEntity len buf p = rbind (rd_block buf p (unat len)) (\<lambda>bs. Inr (MqttStringEntity bs))"

definition new_MqttBinaryDataEntity :: "u16 \<Rightarrow> bytes \<Rightarrow> nat \<Rightarrow> MqttEntity res" where
  "new_MqttBinaryDataEntity len buf p =
     rbind (rd_block buf p (unat len)) (\<lambda>bs. Inr (MqttBinaryDataEntity bs))"

definition new_MqttVIntEntity :: "bytes \<Rightarrow> nat \<Rightarrow> MqttEntity res" where
  "new_MqttVIntEntity buf p = rbind (rd_block buf p 4) (\<lambda>bs. Inr (MqttVIntEntity (val32 bs)))"

section \<open>Accessors\<close>

primrec ent_GetType :: "MqttEntity \<Rightarrow> mqtt_data_type" where
  "ent_GetType (MqttByteEntity v) = byte"
| "ent_GetType (MqttTwoByteEntity v) = two_byte"
| "ent_GetType (MqttFourByteEntity v) = four_byte"
| "ent_GetType (MqttStringEntity s) = mqtt_string"
| "ent_GetType (MqttBinaryDataEntity d) = binary_data"
| "ent_GetType (MqttStringPairEntity s t) = mqtt_string_pair"
| "ent_GetType (MqttVIntEntity v) = variable_int"

text \<open>Each class overrides the accessors that make sense for it; the base class has defaults.\<close>

definition MqttEntity_GetUint :: u32 where "MqttEntity_GetUint = 0"

definition MqttByteEntity_GetUint :: "u8 \<Rightarrow> u32" where "MqttByteEntity_GetUint v = ucast v"

definition MqttTwoByteEntity_GetUint :: "u16 \<Rightarrow> u32" where "MqttTwoByteEntity_GetUint v = ucast v"

definition MqttFourByteEntity_GetUint :: "u32 \<Rightarrow> u32" where "MqttFourByteEntity_GetUint v = v"

definition MqttVIntEntity_GetUint :: "u32 \<Rightarrow> u32" where "MqttVIntEntity_GetUint v = v"

primrec ent_GetUint :: "MqttEntity \<Rightarrow> u32" where
  "ent_GetUint (MqttByteEntity v) = MqttByteEntity_GetUint v"
| "ent_GetUint (MqttTwoByteEntity v) = MqttTwoByteEntity_GetUint v"
| "ent_GetUint (MqttFourByteEntity v) = MqttFourByteEntity_GetUint v"
| "ent_GetUint (MqttStringEntity s) = MqttEntity_GetUint"
| "ent_GetUint (MqttBinaryDataEntity d) = MqttEntity_GetUint"
| "ent_GetUint (MqttStringPairEntity s t) = MqttEntity_GetUint"
| "ent_GetUint (MqttVIntEntity v) = MqttVIntEntity_GetUint v"

definition MqttEntity_GetString :: bytes where "MqttEntity_GetString = []"

definition MqttStringEntity_GetString :: "bytes \<Rightarrow> bytes" where "MqttStringEntity_GetString s = s"

definition MqttBinaryDataEntity_GetString :: "bytes \<Rightarrow> bytes" where
  "MqttBinaryDataEntity_GetString d = d"

primrec ent_GetString :: "MqttEntity \<Rightarrow> bytes" where
  "ent_GetString (MqttByteEntity v) = MqttEntity_GetString"
| "ent_GetString (MqttTwoByteEntity v) = MqttEntity_GetString"
| "ent_GetString (MqttFourByteEntity v) = MqttEntity_GetString"
| "ent_GetString (MqttStringEntity s) = MqttStringEntity_GetString s"
| "ent_GetString (MqttBinaryDataEntity d) = MqttBinaryDataEntity_GetString d"
| "ent_GetString (MqttStringPairEntity s t) = MqttEntity_GetString"
| "ent_GetString (MqttVIntEntity v) = MqttEntity_GetString"

text \<open>\<open>GetPair\<close> is a null pointer for everything but a pair.\<close>

definition MqttEntity_GetPair :: "(bytes \<times> bytes) option" where "MqttEntity_GetPair = None"

definition MqttStringPairEntity_GetPair :: "bytes \<Rightarrow> bytes \<Rightarrow> (bytes \<times> bytes) option" where
  "MqttStringPairEntity_GetPair s t = Some (s, t)"

fun ent_GetPair :: "MqttEntity \<Rightarrow> (bytes \<times> bytes) option" where
  "ent_GetPair (MqttStringPairEntity s t) = MqttStringPairEntity_GetPair s t"
| "ent_GetPair _ = MqttEntity_GetPair"

definition MqttEntity_GetStringPair :: "bytes \<times> bytes" where "MqttEntity_GetStringPair = ([], [])"

definition MqttStringPairEntity_GetStringPair :: "bytes \<Rightarrow> bytes \<Rightarrow> bytes \<times> bytes" where
  "MqttStringPairEntity_GetStringPair s t =
     (MqttStringEntity_GetString s, MqttStringEntity_GetString t)"

fun ent_GetStringPair :: "MqttEntity \<Rightarrow> bytes \<times> bytes" where
  "ent_GetStringPair (MqttStringPairEntity s t) = MqttStringPairEntity_GetStringPair s t"
| "ent_GetStringPair _ = MqttEntity_GetStringPair"

text \<open>
  The block \<open>GetData\<close> points to. That of a string ends in the terminating zero of
  \<open>std::string\<close>; that of binary data has exactly the announced bytes.
\<close>

definition MqttByteEntity_GetData :: "u8 \<Rightarrow> bytes" where "MqttByteEntity_GetData v = [v]"

definition MqttTwoByteEntity_GetData :: "u16 \<Rightarrow> bytes" where "MqttTwoByteEntity_GetData v = mem16 v"

definition MqttFourByteEntity_GetData :: "u32 \<Rightarrow> bytes" where "MqttFourByteEntity_GetData v = mem32 v"

definition MqttStringEntity_GetData :: "bytes \<Rightarrow> bytes" where "MqttStringEntity_GetData s = s @ [0]"

definition MqttBinaryDataEntity_GetData :: "bytes \<Rightarrow> bytes" where "MqttBinaryDataEntity_GetData d = d"

definition MqttStringPairEntity_GetData :: "bytes \<Rightarrow> bytes \<Rightarrow> bytes" where
  "MqttStringPairEntity_GetData s t = MqttStringEntity_GetData s"

definition MqttVIntEntity_GetData :: "u32 \<Rightarrow> bytes" where "MqttVIntEntity_GetData v = mem32 v"

primrec ent_GetData :: "MqttEntity \<Rightarrow> bytes" where
  "ent_GetData (MqttByteEntity v) = MqttByteEntity_GetData v"
| "ent_GetData (MqttTwoByteEntity v) = MqttTwoByteEntity_GetData v"
| "ent_GetData (MqttFourByteEntity v) = MqttFourByteEntity_GetData v"
| "ent_GetData (MqttStringEntity s) = MqttStringEntity_GetData s"
| "ent_GetData (MqttBinaryDataEntity d) = MqttBinaryDataEntity_GetData d"
| "ent_GetData (MqttStringPairEntity s t) = MqttStringPairEntity_GetData s t"
| "ent_GetData (MqttVIntEntity v) = MqttVIntEntity_GetData v"

definition isEmpty :: "bytes \<Rightarrow> bool" where
  "isEmpty d \<longleftrightarrow> (of_nat (length d) :: u16) = 0"

section \<open>Sizes\<close>

definition MqttByteEntity_Size :: "u8 \<Rightarrow> u32" where "MqttByteEntity_Size v = 1"

definition MqttTwoByteEntity_Size :: "u16 \<Rightarrow> u32" where "MqttTwoByteEntity_Size v = 2"

definition MqttFourByteEntity_Size :: "u32 \<Rightarrow> u32" where "MqttFourByteEntity_Size v = 4"

definition MqttStringEntity_Size :: "bytes \<Rightarrow> u32" where
  "MqttStringEntity_Size s = 2 + of_nat (length s)"

definition MqttBinaryDataEntity_Size :: "bytes \<Rightarrow> u32" where
  "MqttBinaryDataEntity_Size d = 2 + of_nat (length d)"

definition MqttStringPairEntity_Size :: "bytes \<Rightarrow> bytes \<Rightarrow> u32" where
  "MqttStringPairEntity_Size s t = MqttStringEntity_Size s + MqttStringEntity_Size t"

definition MqttVIntEntity_Size :: "u32 \<Rightarrow> u32" where
  "MqttVIntEntity_Size v = ucast (GetVarIntSize (MqttVIntEntity_GetUint v))"

primrec ent_Size :: "MqttEntity \<Rightarrow> u32" where
  "ent_Size (MqttByteEntity v) = MqttByteEntity_Size v"
| "ent_Size (MqttTwoByteEntity v) = MqttTwoByteEntity_Size v"
| "ent_Size (MqttFourByteEntity v) = MqttFourByteEntity_Size v"
| "ent_Size (MqttStringEntity s) = MqttStringEntity_Size s"
| "ent_Size (MqttBinaryDataEntity d) = MqttBinaryDataEntity_Size d"
| "ent_Size (MqttStringPairEntity s t) = MqttStringPairEntity_Size s t"
| "ent_Size (MqttVIntEntity v) = MqttVIntEntity_Size v"

lemmas entity_defs [simp] =
  MqttEntity_GetUint_def MqttByteEntity_GetUint_def MqttTwoByteEntity_GetUint_def
  MqttFourByteEntity_GetUint_def MqttVIntEntity_GetUint_def MqttEntity_GetString_def
  MqttStringEntity_GetString_def MqttBinaryDataEntity_GetString_def MqttEntity_GetPair_def
  MqttStringPairEntity_GetPair_def MqttEntity_GetStringPair_def
  MqttStringPairEntity_GetStringPair_def MqttByteEntity_GetData_def MqttTwoByteEntity_GetData_def
  MqttFourByteEntity_GetData_def MqttStringEntity_GetData_def MqttBinaryDataEntity_GetData_def
  MqttStringPairEntity_GetData_def MqttVIntEntity_GetData_def MqttByteEntity_Size_def
  MqttTwoByteEntity_Size_def MqttFourByteEntity_Size_def MqttVIntEntity_Size_def

section \<open>Serialization\<close>

definition MqttByteEntity_Serialize :: "u8 \<Rightarrow> bytes \<Rightarrow> nat \<Rightarrow> u32 \<Rightarrow> (bytes \<times> u32) res" where
  "MqttByteEntity_Serialize v dst p offset = rbind (mem_put dst p [v]) (\<lambda>dst. Inr (dst, offset + 1))"

definition MqttTwoByteEntity_Serialize :: "u16 \<Rightarrow> bytes \<Rightarrow> nat \<Rightarrow> u32 \<Rightarrow> (bytes \<times> u32) res" where
  "MqttTwoByteEntity_Serialize v dst p offset =
     (let raw_val = htons v
      in rbind (mem_put dst p (mem16 raw_val)) (\<lambda>dst. Inr (dst, offset + 2)))"

definition MqttFourByteEntity_Serialize :: "u32 \<Rightarrow> bytes \<Rightarrow> nat \<Rightarrow> u32 \<Rightarrow> (bytes \<times> u32) res" where
  "MqttFourByteEntity_Serialize v dst p offset =
     (let raw_val = htonl v
      in rbind (mem_put dst p (mem32 raw_val)) (\<lambda>dst. Inr (dst, offset + 4)))"

definition MqttStringEntity_Serialize :: "bytes \<Rightarrow> bytes \<Rightarrow> nat \<Rightarrow> u32 \<Rightarrow> (bytes \<times> u32) res" where
  "MqttStringEntity_Serialize s dst p offset =
     (let len = htons (of_nat (length s))
      in rbind (mem_put dst p (mem16 len)) (\<lambda>dst.
         rbind (mem_put dst (p + 2) s) (\<lambda>dst.
         Inr (dst, offset + MqttStringEntity_Size s))))"

definition MqttBinaryDataEntity_Serialize :: "bytes \<Rightarrow> bytes \<Rightarrow> nat \<Rightarrow> u32 \<Rightarrow> (bytes \<times> u32) res" where
  "MqttBinaryDataEntity_Serialize d dst p offset =
     (let len = htons (of_nat (length d))
      in rbind (mem_put dst p (mem16 len)) (\<lambda>dst.
         rbind (mem_put dst (p + 2) d) (\<lambda>dst.
         Inr (dst, offset + MqttBinaryDataEntity_Size d))))"

definition SerializeWithoutLen :: "bytes \<Rightarrow> bytes \<Rightarrow> nat \<Rightarrow> u32 \<Rightarrow> (bytes \<times> u32) res" where
  "SerializeWithoutLen d dst p offset =
     rbind (mem_put dst p d) (\<lambda>dst. Inr (dst, offset + (MqttBinaryDataEntity_Size d - 2)))"

definition MqttStringPairEntity_Serialize ::
    "bytes \<Rightarrow> bytes \<Rightarrow> bytes \<Rightarrow> nat \<Rightarrow> u32 \<Rightarrow> (bytes \<times> u32) res" where
  "MqttStringPairEntity_Serialize s t dst p offset =
     rbind (MqttStringEntity_Serialize s dst p offset) (\<lambda>(dst, offset).
     MqttStringEntity_Serialize t dst (p + unat (MqttStringEntity_Size s)) offset)"

definition MqttVIntEntity_Serialize :: "u32 \<Rightarrow> bytes \<Rightarrow> nat \<Rightarrow> u32 \<Rightarrow> (bytes \<times> u32) res" where
  "MqttVIntEntity_Serialize v dst p offset =
     rbind (CodeVarInt dst p v) (\<lambda>(dst, size). Inr (dst, offset + ucast size))"

primrec ent_Serialize :: "MqttEntity \<Rightarrow> bytes \<Rightarrow> nat \<Rightarrow> u32 \<Rightarrow> (bytes \<times> u32) res" where
  "ent_Serialize (MqttByteEntity v) = MqttByteEntity_Serialize v"
| "ent_Serialize (MqttTwoByteEntity v) = MqttTwoByteEntity_Serialize v"
| "ent_Serialize (MqttFourByteEntity v) = MqttFourByteEntity_Serialize v"
| "ent_Serialize (MqttStringEntity s) = MqttStringEntity_Serialize s"
| "ent_Serialize (MqttBinaryDataEntity d) = MqttBinaryDataEntity_Serialize d"
| "ent_Serialize (MqttStringPairEntity s t) = MqttStringPairEntity_Serialize s t"
| "ent_Serialize (MqttVIntEntity v) = MqttVIntEntity_Serialize v"

section \<open>The encoding of a value\<close>

definition str_enc :: "bytes \<Rightarrow> bytes" where
  "str_enc s = be16 (of_nat (length s)) @ s"

primrec ent_enc :: "MqttEntity \<Rightarrow> bytes" where
  "ent_enc (MqttByteEntity v) = [v]"
| "ent_enc (MqttTwoByteEntity v) = be16 v"
| "ent_enc (MqttFourByteEntity v) = be32 v"
| "ent_enc (MqttStringEntity s) = str_enc s"
| "ent_enc (MqttBinaryDataEntity d) = str_enc d"
| "ent_enc (MqttStringPairEntity s t) = str_enc s @ str_enc t"
| "ent_enc (MqttVIntEntity v) = vint (unat v)"

lemma length_str_enc [simp]: "length (str_enc s) = 2 + length s"
  by (simp add: str_enc_def)

text \<open>Values whose encoding a 32-bit count can hold.\<close>

definition ent_ok :: "MqttEntity \<Rightarrow> bool" where
  "ent_ok e \<longleftrightarrow> length (ent_enc e) < 2 ^ 32"

lemma string_Size_enc: "MqttStringEntity_Size s = of_nat (length (str_enc s))"
  by (simp add: MqttStringEntity_Size_def)

lemma string_Serialize_emit:
  "MqttStringEntity_Serialize s dst p off = emit (str_enc s) dst p off"
proof -
  have "MqttStringEntity_Serialize s dst p off =
      rbind (rbind (mem_put dst p (be16 (of_nat (length s)))) (\<lambda>d. mem_put d (p + 2) s))
        (\<lambda>d. Inr (d, off + of_nat (length (str_enc s))))"
    by (simp only: MqttStringEntity_Serialize_def Let_def mem16_htons rbind_assoc string_Size_enc)
  then show ?thesis by (simp add: mem_put_mem_put emit_def str_enc_def)
qed

lemma binary_Serialize_emit:
  "MqttBinaryDataEntity_Serialize d dst p off = emit (str_enc d) dst p off"
  using string_Serialize_emit [of d dst p off]
  by (simp add: MqttBinaryDataEntity_Serialize_def MqttStringEntity_Serialize_def
      MqttBinaryDataEntity_Size_def MqttStringEntity_Size_def)

lemma SerializeWithoutLen_emit: "SerializeWithoutLen d dst p off = emit d dst p off"
  by (simp add: SerializeWithoutLen_def MqttBinaryDataEntity_Size_def emit_def)

lemma vint_Serialize_emit: "MqttVIntEntity_Serialize v dst p off = emit (vint (unat v)) dst p off"
  by (simp add: MqttVIntEntity_Serialize_def CodeVarInt_vint emit_def rbind_assoc
      ucast_of_nat_u8_u32 length_vint_u32_small)

text \<open>Every value serializes to its encoding and announces its length.\<close>

interpretation ent: sized_serializer ent_Serialize ent_enc ent_ok ent_Size
proof unfold_locales
  fix e dst p off
  assume ok: "ent_ok e"
  show "ent_Serialize e dst p off = emit (ent_enc e) dst p off"
  proof (cases e)
    case (MqttStringPairEntity s t)
    with ok have "unat (MqttStringEntity_Size s) = length (str_enc s)"
      unfolding string_Size_enc by (intro unat_of_nat32) (simp add: ent_ok_def)
    with MqttStringPairEntity show ?thesis
      by (simp add: MqttStringPairEntity_Serialize_def string_Serialize_emit emit_emit)
  qed (simp_all add: MqttByteEntity_Serialize_def MqttTwoByteEntity_Serialize_def emit_def
      MqttFourByteEntity_Serialize_def mem16_htons mem32_htonl string_Serialize_emit
      binary_Serialize_emit vint_Serialize_emit)
  show "ent_Size e = of_nat (length (ent_enc e))"
    by (cases e) (simp_all add: MqttStringEntity_Size_def MqttBinaryDataEntity_Size_def
        MqttStringPairEntity_Size_def GetVarIntSize_vint ucast_of_nat_u8_u32
        length_vint_u32_small)
qed

end
