(* ===== verification/Properties.thy ===== *)
theory Properties
  imports Entities
begin

text \<open>
  A property is an identifier with a value (\<open>MqttProperty\<close>); \<open>CreateProperty\<close> reads one
  from a buffer and reports how many bytes it took in a \<open>uint8_t\<close>. The string and binary
  readers of \<open>CONNECT\<close> payloads, which report their size the same way, are here too.
\<close>

section \<open>The property\<close>

record MqttProperty =
  prop_id :: u8
  property :: MqttEntity

definition new_MqttProperty :: "u8 \<Rightarrow> MqttEntity \<Rightarrow> MqttProperty" where
  "new_MqttProperty i e = \<lparr>prop_id = i, property = e\<rparr>"

definition prop_Size :: "MqttProperty \<Rightarrow> u32" where
  "prop_Size q = ent_Size (property q)"

definition prop_Serialize :: "MqttProperty \<Rightarrow> bytes \<Rightarrow> nat \<Rightarrow> u32 \<Rightarrow> (bytes \<times> u32) res" where
  "prop_Serialize q dst p offset =
     rbind (mem_put dst p [prop_id q]) (\<lambda>dst. ent_Serialize (property q) dst (p + 1) (offset + 1))"

definition GetId :: "MqttProperty \<Rightarrow> u8" where
  "GetId q = prop_id q"

definition prop_GetData :: "MqttProperty \<Rightarrow> bytes" where
  "prop_GetData q = ent_GetData (property q)"

definition prop_GetType :: "MqttProperty \<Rightarrow> mqtt_data_type" where
  "prop_GetType q = ent_GetType (property q)"

definition prop_GetPair :: "MqttProperty \<Rightarrow> (bytes \<times> bytes) option" where
  "prop_GetPair q = ent_GetPair (property q)"

definition prop_GetUint :: "MqttProperty \<Rightarrow> u32" where
  "prop_GetUint q = ent_GetUint (property q)"

definition prop_GetString :: "MqttProperty \<Rightarrow> bytes" where
  "prop_GetString q = ent_GetString (property q)"

definition prop_GetStringPair :: "MqttProperty \<Rightarrow> bytes \<times> bytes" where
  "prop_GetStringPair q = ent_GetStringPair (property q)"

section \<open>Reading\<close>

text \<open>The switch of \<open>CreateProperty\<close>: which data type an identifier announces.\<close>

definition property_type :: "u8 \<Rightarrow> mqtt_data_type option" where
  "property_type i =
     (if i \<in> set (map pid [payload_format_indicator, request_problem_information,
          request_response_information, maximum_qos, retain_available,
          wildcard_subscription_available, subscription_identifier_available,
          shared_subscription_available]) then Some byte
      else if i \<in> set (map pid [server_keep_alive, receive_maximum, topic_alias_maximum,
          topic_alias]) then Some two_byte
      else if i \<in> set (map pid [message_expiry_interval, session_expiry_interval,
          will_delay_interval, maximum_packet_size]) then Some four_byte
      else if i \<in> set (map pid [content_type, response_topic, assigned_client_identifier,
          authentication_method, response_information, server_reference, reason_string])
        then Some mqtt_string
      else if i \<in> set (map pid [correlation_data, authentication_data]) then Some binary_data
      else if i = pid user_property then Some mqtt_string_pair
      else if i = pid subscription_identifier then Some variable_int
      else None)"

text \<open>
  A pointer is null or a position in a block. The result is the property, or a null pointer, with
  the size that was written to the \<open>uint8_t\<close> reference.
\<close>

fun CreateProperty :: "(bytes \<times> nat) option \<Rightarrow> (MqttProperty option \<times> u8) res" where
  "CreateProperty None = Inr (None, 0)"
| "CreateProperty (Some (buf, p)) =
     rbind (rd8 buf p) (\<lambda>i.
     let size = 1 :: u8 in
     case property_type i of
       Some byte \<Rightarrow>
         let size = size + 1 in
         rbind (new_MqttByteEntity buf (p + 1)) (\<lambda>e. Inr (Some (new_MqttProperty i e), size))
     | Some two_byte \<Rightarrow>
         let size = size + 2 in
         rbind (ConvertToHost2Bytes buf (p + 1)) (\<lambda>val.
         rbind (new_MqttTwoByteEntity (mem16 val) 0) (\<lambda>e.
         Inr (Some (new_MqttProperty i e), size)))
     | Some four_byte \<Rightarrow>
         let size = size + 4 in
         rbind (ConvertToHost4Bytes buf (p + 1)) (\<lambda>val.
         rbind (new_MqttFourByteEntity (mem32 val) 0) (\<lambda>e.
         Inr (Some (new_MqttProperty i e), size)))
     | Some mqtt_string \<Rightarrow>
         rbind (ConvertToHost2Bytes buf (p + 1)) (\<lambda>len.
         let size = size + 2; offset = unat size; size = size + ucast len in
         rbind (new_MqttStringEntity len buf (p + offset)) (\<lambda>e.
         Inr (Some (new_MqttProperty i e), size)))
     | Some binary_data \<Rightarrow>
         rbind (ConvertToHost2Bytes buf (p + 1)) (\<lambda>len.
         let size = size + 2; offset = unat size; size = size + ucast len in
         rbind (new_MqttBinaryDataEntity len buf (p + offset)) (\<lambda>e.
         Inr (Some (new_MqttProperty i e), size)))
     | Some mqtt_string_pair \<Rightarrow>
         rbind (ConvertToHost2Bytes buf (p + 1)) (\<lambda>len_1.
         let size = size + 2 in
         rbind (ConvertToHost2Bytes buf (p + (unat size + unat len_1))) (\<lambda>len_2.
         let size = size + ucast len_1; size = size + 2; size = size + ucast len_2 in
         rbind (rd_block buf (p + (1 + 2)) (unat len_1)) (\<lambda>s.
         rbind (rd_block buf (p + (1 + 2 + unat len_1 + 2)) (unat len_2)) (\<lambda>t.
         Inr (Some (new_MqttProperty i (MqttStringPairEntity s t)), size)))))
     | Some variable_int \<Rightarrow>
         rbind (DeCodeVarInt buf (p + 1)) (\<lambda>r.
         case r of
           Inr (val, vint_size) \<Rightarrow>
             let size = size + vint_size in
             rbind (new_MqttVIntEntity (mem32 val) 0) (\<lambda>e.
             Inr (Some (new_MqttProperty i e), size))
         | Inl err \<Rightarrow> Inr (None, 0))
     | _ \<Rightarrow> Inr (None, 0))"

text \<open>The readers of length-prefixed strings and binary data; an empty one is a null pointer.\<close>

fun CreateMqttStringEntity :: "(bytes \<times> nat) option \<Rightarrow> (bytes option \<times> u8) res" where
  "CreateMqttStringEntity None = Inr (None, 0)"
| "CreateMqttStringEntity (Some (buf, p)) =
     rbind (ConvertToHost2Bytes buf p) (\<lambda>len.
     if len = 0 then Inr (None, 0)
     else
       let size = 2 :: u8; size = size + ucast len in
       rbind (rd_block buf (p + 2) (unat len)) (\<lambda>s. Inr (Some s, size)))"

fun CreateMqttBinaryDataEntity :: "(bytes \<times> nat) option \<Rightarrow> (bytes option \<times> u8) res" where
  "CreateMqttBinaryDataEntity None = Inr (None, 0)"
| "CreateMqttBinaryDataEntity (Some (buf, p)) =
     rbind (ConvertToHost2Bytes buf p) (\<lambda>len.
     if len = 0 then Inr (None, 0)
     else
       let size = 2 :: u8; size = size + ucast len in
       rbind (rd_block buf (p + 2) (unat len)) (\<lambda>d. Inr (Some d, size)))"

section \<open>The encoding of a property\<close>

definition prop_enc :: "MqttProperty \<Rightarrow> bytes" where
  "prop_enc q = prop_id q # ent_enc (property q)"

definition prop_ok :: "MqttProperty \<Rightarrow> bool" where
  "prop_ok q \<longleftrightarrow> ent_ok (property q)"

interpretation prp: serializer prop_Serialize prop_enc prop_ok
proof
  fix q dst p off
  assume "prop_ok q"
  then have "prop_Serialize q dst p off =
      rbind (mem_put dst p [prop_id q]) (\<lambda>d. emit (ent_enc (property q)) d (p + 1) (off + 1))"
    by (simp add: prop_Serialize_def ent.ser_emit prop_ok_def)
  also have "\<dots> = rbind (emit [prop_id q] dst p off)
      (\<lambda>(d, o'). emit (ent_enc (property q)) d (p + 1) o')"
    by (simp add: emit_def rbind_assoc)
  also have "\<dots> = emit (prop_enc q) dst p off"
    by (simp add: emit_emit prop_enc_def)
  finally show "prop_Serialize q dst p off = emit (prop_enc q) dst p off" .
qed

lemma length_prop_enc: "prop_ok q \<Longrightarrow> of_nat (length (prop_enc q)) = prop_Size q + 1"
  by (simp add: prop_enc_def prop_Size_def ent.size_of prop_ok_def)

section \<open>Round trip\<close>

text \<open>
  A property is readable when its value has the type its identifier announces, its strings fit a
  16-bit length, its variable integer fits four bytes, and all of it is shorter than the 256 bytes
  the \<open>uint8_t\<close> size can count.
\<close>

fun ent_bounded :: "MqttEntity \<Rightarrow> bool" where
  "ent_bounded (MqttVIntEntity v) \<longleftrightarrow> unat v < 2 ^ 28"
| "ent_bounded e \<longleftrightarrow> True"

definition prop_wf :: "MqttProperty \<Rightarrow> bool" where
  "prop_wf q \<longleftrightarrow> property_type (prop_id q) = Some (ent_GetType (property q)) \<and>
     ent_bounded (property q) \<and> length (prop_enc q) < 256"

lemma prop_wf_ok: "prop_wf q \<Longrightarrow> prop_ok q"
  by (simp add: prop_wf_def prop_ok_def ent_ok_def prop_enc_def)

lemma ConvertToHost_drop:
  "p \<le> length buf \<Longrightarrow> ConvertToHost2Bytes (drop p buf) k = ConvertToHost2Bytes buf (p + k)"
  "p \<le> length buf \<Longrightarrow> ConvertToHost4Bytes (drop p buf) k = ConvertToHost4Bytes buf (p + k)"
  by (simp_all add: ConvertToHost2Bytes_def ConvertToHost4Bytes_def rd_drop)

lemma decode_loop_drop:
  "p \<le> length buf \<Longrightarrow>
    decode_loop n (drop p buf) k v m off = decode_loop n buf (p + k) v m off"
  by (induction n arbitrary: v m off) (simp_all add: decode_loop.simps rd_drop add.assoc Let_def cong: if_cong)

lemma new_entity_drop:
  assumes "p \<le> length buf"
  shows "new_MqttByteEntity (drop p buf) k = new_MqttByteEntity buf (p + k)"
    "new_MqttStringEntity l (drop p buf) k = new_MqttStringEntity l buf (p + k)"
    "new_MqttBinaryDataEntity l (drop p buf) k = new_MqttBinaryDataEntity l buf (p + k)"
  using assms by (simp_all add: new_MqttByteEntity_def new_MqttStringEntity_def
      new_MqttBinaryDataEntity_def rd_drop)

lemma CreateProperty_drop:
  assumes "p \<le> length buf"
  shows "CreateProperty (Some (drop p buf, 0)) = CreateProperty (Some (buf, p))"
  using assms
  by (simp add: rd_drop ConvertToHost_drop new_entity_drop DeCodeVarInt_def decode_loop_drop
      cong: option.case_cong mqtt_data_type.case_cong)


lemma ConvertToHost_Cons [mem_simps]:
  "ConvertToHost2Bytes (a # zs) (Suc k) = ConvertToHost2Bytes zs k"
  "ConvertToHost4Bytes (a # zs) (Suc k) = ConvertToHost4Bytes zs k"
  "ConvertToHost2Bytes (a # zs) (numeral w + k) = ConvertToHost2Bytes zs (pred_numeral w + k)"
  "ConvertToHost2Bytes (be16 v @ zs) 0 = Inr v"
  "ConvertToHost4Bytes (be32 u @ zs) 0 = Inr u"
  "ConvertToHost2Bytes (be16 v @ zs) (Suc (Suc k)) = ConvertToHost2Bytes zs k"
  "ConvertToHost2Bytes (s @ zs) (length s) = ConvertToHost2Bytes zs 0"
  by (simp_all add: ConvertToHost2Bytes_def ConvertToHost4Bytes_def mem_simps)

lemma CreateProperty_prop_enc:
  assumes "prop_wf q"
  shows "CreateProperty (Some (prop_enc q @ ys, 0)) = Inr (Some q, of_nat (length (prop_enc q)))"
proof -
  obtain i e where q: "q = \<lparr>prop_id = i, property = e\<rparr>" by (cases q) auto
  with assms have ty: "property_type i = Some (ent_GetType e)"
    and bound: "ent_bounded e" and len: "length (ent_enc e) < 255"
    by (simp_all add: prop_wf_def prop_enc_def)
  show ?thesis
  proof (cases e)
    case (MqttByteEntity v)
    with ty show ?thesis
      by (simp add: q prop_enc_def mem_simps new_MqttByteEntity_def new_MqttProperty_def)
  next
    case (MqttTwoByteEntity v)
    with ty show ?thesis
      by (simp add: q prop_enc_def mem_simps new_MqttTwoByteEntity_def new_MqttProperty_def)
  next
    case (MqttFourByteEntity v)
    with ty show ?thesis
      by (simp add: q prop_enc_def mem_simps new_MqttFourByteEntity_def new_MqttProperty_def)
  next
    case (MqttStringEntity s)
    with ty len show ?thesis
      by (simp add: q prop_enc_def mem_simps new_MqttStringEntity_def new_MqttProperty_def
          str_enc_def)
  next
    case (MqttBinaryDataEntity d)
    with ty len show ?thesis
      by (simp add: q prop_enc_def mem_simps new_MqttBinaryDataEntity_def new_MqttProperty_def
          str_enc_def)
  next
    case (MqttStringPairEntity s t)
    with ty len show ?thesis
      by (simp add: q prop_enc_def mem_simps new_MqttProperty_def str_enc_def add.assoc)
  next
    case (MqttVIntEntity v)
    with bound have "DeCodeVarInt ([i] @ vint (unat v) @ ys) (length [i]) =
        Inr (Inr (of_nat (unat v), of_nat (length (vint (unat v)))))"
      by (intro DeCodeVarInt_vint) simp
    with ty MqttVIntEntity show ?thesis
      by (simp add: q prop_enc_def mem_simps new_MqttVIntEntity_def new_MqttProperty_def)
  qed
qed


text \<open>At any position of a buffer.\<close>

lemma CreateProperty_at:
  assumes "prop_wf q"
  shows "CreateProperty (Some (xs @ prop_enc q @ ys, length xs)) =
    Inr (Some q, of_nat (length (prop_enc q)))"
  using CreateProperty_drop [of "length xs" "xs @ prop_enc q @ ys"] CreateProperty_prop_enc [OF assms]
  by simp

end
