(* ===== verification/Property_Chain.thy ===== *)
theory Property_Chain
  imports Properties Containers
begin

text \<open>
  The property chain, a \<open>std::map\<close> from identifier to property: insertion, lookup, size,
  serialization, deep copy, and \<open>Create\<close>, the loop that reads a property section from a
  buffer. That loop can run forever, so it is a partial function whose \<open>None\<close> is "does not
  return".
\<close>

declare CreateProperty.simps(2) [simp del]

section \<open>Operations\<close>

type_synonym MqttPropertyChain = "MqttProperty list"

definition AddProperty :: "MqttProperty \<Rightarrow> MqttPropertyChain \<Rightarrow> MqttPropertyChain" where
  "AddProperty q ch = ord_insert prop_id q ch"

definition GetProperty :: "u8 \<Rightarrow> MqttPropertyChain \<Rightarrow> MqttProperty option" where
  "GetProperty i ch = kv_find prop_id i ch"

definition Count :: "MqttPropertyChain \<Rightarrow> u32" where
  "Count ch = of_nat (length ch)"

definition Clear :: "MqttPropertyChain \<Rightarrow> MqttPropertyChain" where
  "Clear ch = []"

text \<open>The sum is kept in a \<open>uint16_t\<close>; one byte more for each identifier.\<close>

fun chain_size_loop :: "MqttPropertyChain \<Rightarrow> u16 \<Rightarrow> u16" where
  "chain_size_loop [] sz = sz"
| "chain_size_loop (q # qs) sz = chain_size_loop qs (sz + ucast (prop_Size q + 1))"

definition chain_GetSize :: "MqttPropertyChain \<Rightarrow> u16" where
  "chain_GetSize ch = chain_size_loop ch 0"

fun ser_props ::
    "MqttPropertyChain \<Rightarrow> bytes \<Rightarrow> nat \<Rightarrow> u32 \<Rightarrow> u32 \<Rightarrow> (bytes \<times> u32) res" where
  "ser_props [] dst p sz offset = Inr (dst, offset)"
| "ser_props (q # qs) dst p sz offset =
     rbind (prop_Serialize q dst (p + unat sz) offset) (\<lambda>(dst, offset).
     ser_props qs dst p (sz + (prop_Size q + 1)) offset)"

definition chain_Serialize :: "MqttPropertyChain \<Rightarrow> bytes \<Rightarrow> nat \<Rightarrow> u32 \<Rightarrow> (bytes \<times> u32) res" where
  "chain_Serialize ch dst p offset =
     (let p_len = ucast (chain_GetSize ch) :: u32
      in rbind (CodeVarInt dst p p_len) (\<lambda>(dst, p_len_size).
           let size = ucast p_len_size in ser_props ch dst p size (offset + size)))"

text \<open>
  The body of the copy constructor and of the copy assignment: a new property for each entry, its
  value rebuilt from what the accessors of the old one return.
\<close>

fun copy_entity :: "MqttEntity \<Rightarrow> MqttEntity res" where
  "copy_entity e =
     (case ent_GetType e of
        byte \<Rightarrow> Inr (MqttByteEntity (ucast (ent_GetUint e)))
      | two_byte \<Rightarrow> Inr (MqttTwoByteEntity (ucast (ent_GetUint e)))
      | four_byte \<Rightarrow> Inr (MqttFourByteEntity (ent_GetUint e))
      | mqtt_string \<Rightarrow> Inr (MqttStringEntity (ent_GetString e))
      | mqtt_string_pair \<Rightarrow>
          rbind (deref (ent_GetPair e)) (\<lambda>(s, t). Inr (MqttStringPairEntity s t))
      | variable_int \<Rightarrow> new_MqttVIntEntity (ent_GetData e) 0
      | binary_data \<Rightarrow> new_MqttBinaryDataEntity (ucast (ent_Size e)) (ent_GetData e) 0
      | undefined_type \<Rightarrow> Inl NullDeref)"

fun copy_loop :: "MqttPropertyChain \<Rightarrow> MqttPropertyChain \<Rightarrow> MqttPropertyChain res" where
  "copy_loop [] acc = Inr acc"
| "copy_loop (q # qs) acc =
     rbind (copy_entity (property q)) (\<lambda>e.
     if prop_id q > 0 then copy_loop qs (AddProperty (new_MqttProperty (prop_id q) e) acc)
     else Inl AssertFail)"

definition chain_copy :: "MqttPropertyChain \<Rightarrow> MqttPropertyChain res" where
  "chain_copy ch = copy_loop ch []"

text \<open>
  \<open>Create\<close> reads the length of the section and then property after property. \<open>p_len\<close>
  is a \<open>uint32_t\<close> from which the reported sizes are subtracted; the result is the error code, the
  number of bytes taken and the chain.
\<close>

partial_function (option) create_loop ::
    "bytes \<Rightarrow> nat \<Rightarrow> u32 \<Rightarrow> u32 \<Rightarrow> MqttPropertyChain \<Rightarrow>
      (mqtt_err \<times> u32 \<times> MqttPropertyChain) res option" where
  "create_loop buf p p_len sz ch =
     (if p_len > 0 then
        (case CreateProperty (Some (buf, p + unat sz)) of
           Inl f \<Rightarrow> Some (Inl f)
         | Inr r \<Rightarrow>
             (case fst r of
                None \<Rightarrow> Some (Inr (mqtt_property_err, sz, ch))
              | Some q \<Rightarrow>
                  create_loop buf p (p_len - ucast (snd r)) (sz + ucast (snd r))
                    (AddProperty q ch)))
      else Some (Inr (mqtt_ok, sz, ch)))"

fun returned :: "'a res option \<Rightarrow> 'a res" where
  "returned None = Inl Diverges"
| "returned (Some r) = r"

definition chain_Create ::
    "MqttPropertyChain \<Rightarrow> bytes \<Rightarrow> nat \<Rightarrow> (mqtt_err \<times> u32 \<times> MqttPropertyChain) res" where
  "chain_Create ch buf p =
     rbind (DeCodeVarInt buf p) (\<lambda>r.
     case r of
       Inl err \<Rightarrow> Inr (var_int_err, 0, ch)
     | Inr (properties_len, properties_len_size) \<Rightarrow>
         if properties_len > 0 then
           returned (create_loop buf p properties_len (ucast properties_len_size) [])
         else Inr (mqtt_ok, ucast properties_len_size, ch))"

text \<open>The builder for the properties of \<open>CONNACK\<close>.\<close>

definition withClientIdentifier :: "bytes \<Rightarrow> MqttPropertyChain \<Rightarrow> MqttPropertyChain" where
  "withClientIdentifier i = AddProperty (new_MqttProperty (pid assigned_client_identifier) (MqttStringEntity i))"

definition withMaxPocketSize :: "u32 \<Rightarrow> MqttPropertyChain \<Rightarrow> MqttPropertyChain" where
  "withMaxPocketSize v = AddProperty (new_MqttProperty (pid maximum_packet_size) (MqttFourByteEntity v))"

definition withRetainAvailable :: "u8 \<Rightarrow> MqttPropertyChain \<Rightarrow> MqttPropertyChain" where
  "withRetainAvailable v = AddProperty (new_MqttProperty (pid retain_available) (MqttByteEntity v))"

definition withWildCard :: "u8 \<Rightarrow> MqttPropertyChain \<Rightarrow> MqttPropertyChain" where
  "withWildCard v =
     AddProperty (new_MqttProperty (pid wildcard_subscription_available) (MqttByteEntity v))"

definition withSharedSubAvailable :: "u8 \<Rightarrow> MqttPropertyChain \<Rightarrow> MqttPropertyChain" where
  "withSharedSubAvailable v =
     AddProperty (new_MqttProperty (pid shared_subscription_available) (MqttByteEntity v))"

section \<open>The chain is a map that keeps the first entry\<close>

definition chain_inv :: "MqttPropertyChain \<Rightarrow> bool" where
  "chain_inv ch \<longleftrightarrow> ord_ok prop_id ch"

lemma chain_inv_Nil [simp]: "chain_inv []"
  by (simp add: chain_inv_def ord_ok_def)

lemma chain_inv_Add [simp]: "chain_inv ch \<Longrightarrow> chain_inv (AddProperty q ch)"
  by (simp add: chain_inv_def AddProperty_def ord.ok_ins)

lemma GetProperty_Add:
  "chain_inv ch \<Longrightarrow> GetProperty i (AddProperty q ch) =
    (if i = prop_id q \<and> GetProperty i ch = None then Some q else GetProperty i ch)"
  unfolding GetProperty_def AddProperty_def chain_inv_def by (rule ord.find_ins)

section \<open>Size and serialization\<close>

definition chain_body :: "MqttPropertyChain \<Rightarrow> bytes" where
  "chain_body ch = concat (map prop_enc ch)"

definition chain_enc :: "MqttPropertyChain \<Rightarrow> bytes" where
  "chain_enc ch = vint (length (chain_body ch)) @ chain_body ch"

definition chain_ok :: "MqttPropertyChain \<Rightarrow> bool" where
  "chain_ok ch \<longleftrightarrow> length (chain_body ch) < 2 ^ 16"

lemma chain_body_simps [simp]:
  "chain_body [] = []" "chain_body (q # qs) = prop_enc q @ chain_body qs"
  by (simp_all add: chain_body_def)

lemma chain_ok_Cons: "chain_ok (q # qs) \<Longrightarrow> prop_ok q \<and> chain_ok qs"
  by (simp add: chain_ok_def prop_ok_def ent_ok_def prop_enc_def)

lemma chain_size_loop_body:
  "chain_ok ch \<Longrightarrow> chain_size_loop ch sz = sz + of_nat (length (chain_body ch))"
proof (induction ch arbitrary: sz)
  case (Cons q qs)
  then have "prop_Size q + 1 = of_nat (length (prop_enc q))"
    using chain_ok_Cons length_prop_enc by metis
  moreover have "(ucast (of_nat n :: u32) :: u16) = of_nat n" for n
    by (simp add: word_unat_eq_iff unsigned_ucast_eq unsigned_of_nat min_def)
  ultimately show ?case
    using Cons chain_ok_Cons [OF Cons.prems] by (simp add: ac_simps)
qed simp

lemma chain_GetSize_body: "chain_ok ch \<Longrightarrow> chain_GetSize ch = of_nat (length (chain_body ch))"
  by (simp add: chain_GetSize_def chain_size_loop_body)

lemma unat_chain_GetSize: "chain_ok ch \<Longrightarrow> unat (chain_GetSize ch) = length (chain_body ch)"
  by (simp add: chain_GetSize_body chain_ok_def)

lemma ser_props_emit:
  assumes "chain_ok ch" and "length as + length (chain_body ch) < 2 ^ 32"
  shows "rbind (emit as dst p off) (\<lambda>(d, o'). ser_props ch d p (of_nat (length as)) o') =
    emit (as @ chain_body ch) dst p off"
  using assms
proof (induction ch arbitrary: as)
  case Nil
  show ?case by (cases "emit as dst p off") auto
next
  case (Cons q qs)
  then have q: "prop_ok q" and qs: "chain_ok qs" using chain_ok_Cons by blast+
  have pos: "unat (of_nat (length as) :: u32) = length as"
    using Cons.prems by (intro unat_of_nat32) simp
  have "rbind (emit as dst p off) (\<lambda>(d, o'). ser_props (q # qs) d p (of_nat (length as)) o') =
      rbind (rbind (emit as dst p off) (\<lambda>(d, o'). prop_Serialize q d (p + length as) o'))
        (\<lambda>(d, o'). ser_props qs d p (of_nat (length (as @ prop_enc q))) o')"
    by (simp add: pos rbind_assoc case_prod_unfold length_prop_enc [OF q] ac_simps)
  also have "\<dots> = rbind (emit (as @ prop_enc q) dst p off)
        (\<lambda>(d, o'). ser_props qs d p (of_nat (length (as @ prop_enc q))) o')"
    by (simp only: prp.ser_after [OF q refl])
  also have "\<dots> = emit (as @ chain_body (q # qs)) dst p off"
    using Cons.IH [OF qs, of "as @ prop_enc q"] Cons.prems by simp
  finally show ?case .
qed

text \<open>The size a chain announces in the variable headers: its body and the integer before it.\<close>

definition chain_Size :: "MqttPropertyChain \<Rightarrow> u32" where
  "chain_Size ch = ucast (chain_GetSize ch) + ucast (GetVarIntSize (ucast (chain_GetSize ch)))"

interpretation chain: sized_serializer chain_Serialize chain_enc chain_ok chain_Size
proof unfold_locales
  fix ch dst p off
  assume ok: "chain_ok ch"
  define n where "n = length (chain_body ch)"
  have n: "n < 2 ^ 16" using ok by (simp add: n_def chain_ok_def)
  have "unat (ucast (chain_GetSize ch) :: u32) = n"
    using unat_chain_GetSize [OF ok] n
    by (simp add: unsigned_ucast_eq n_def take_bit_nat_eq_self)
  moreover have "unat (of_nat n :: u32) = n" using n by (intro unat_of_nat32) simp
  ultimately have size: "(ucast (chain_GetSize ch) :: u32) = of_nat n"
    and vint: "vint (unat (ucast (chain_GetSize ch) :: u32)) = vint n"
    by (simp_all only: word_unat_eq_iff)
  have len: "length (vint n) < 256" using length_vint_u32_small [of "of_nat n"] n by simp
  have "chain_Serialize ch dst p off =
      rbind (emit (vint n) dst p off) (\<lambda>(d, o'). ser_props ch d p (of_nat (length (vint n))) o')"
    by (simp add: chain_Serialize_def Let_def CodeVarInt_vint vint rbind_assoc emit_def
        ucast_of_nat_u8_u32 [OF len])
  also have "\<dots> = emit (vint n @ chain_body ch) dst p off"
    using n len by (intro ser_props_emit ok) (simp add: n_def)
  finally show "chain_Serialize ch dst p off = emit (chain_enc ch) dst p off"
    by (simp add: chain_enc_def n_def)
  show "chain_Size ch = of_nat (length (chain_enc ch))"
    unfolding chain_Size_def GetVarIntSize_vint vint ucast_of_nat_u8_u32 [OF len] unfolding size
    by (simp add: chain_enc_def n_def)
qed

section \<open>Reading what was written\<close>

lemma create_loop_done: "create_loop buf p 0 sz ch = Some (Inr (mqtt_ok, sz, ch))"
  by (simp add: create_loop.simps)

lemma create_loop_step:
  "0 < p_len \<Longrightarrow> CreateProperty (Some (buf, p + unat sz)) = Inr (Some q, n) \<Longrightarrow>
    create_loop buf p p_len sz ch =
      create_loop buf p (p_len - ucast n) (sz + ucast n) (AddProperty q ch)"
  by (subst create_loop.simps) simp

text \<open>
  Well-formed properties in any order, with duplicates: all are read and the chain keeps the first
  of each identifier.
\<close>

lemma create_loop_props:
  assumes "\<forall>q\<in>set qs. prop_wf q" and "k + length (chain_body qs) < 2 ^ 32"
    and "buf = xs @ chain_body qs @ ys" and "length xs = p + k"
  shows "create_loop buf p (of_nat (length (chain_body qs))) (of_nat k) ch =
    Some (Inr (mqtt_ok, of_nat (k + length (chain_body qs)), fold AddProperty qs ch))"
  using assms
proof (induction qs arbitrary: k xs ch)
  case Nil
  then show ?case by (simp add: create_loop_done)
next
  case (Cons q qs)
  define m where "m = length (prop_enc q)"
  have wf: "prop_wf q" and m: "0 < m" "m < 256"
    using Cons.prems by (auto simp: m_def prop_wf_def) (simp add: prop_enc_def)
  have k: "unat (of_nat k :: u32) = k" using Cons.prems by (intro unat_of_nat32) simp
  have read: "CreateProperty (Some (buf, p + unat (of_nat k :: u32))) = Inr (Some q, of_nat m)"
    using CreateProperty_at [OF wf, of xs "chain_body qs @ ys"] Cons.prems(3,4)
    by (simp add: k m_def)
  have "unat (of_nat (m + length (chain_body qs)) :: u32) = m + length (chain_body qs)"
    using Cons.prems by (intro unat_of_nat32) (simp add: m_def)
  then have pos: "0 < (of_nat (length (chain_body (q # qs))) :: u32)"
    using m by (simp add: word_less_nat_alt m_def)
  have "create_loop buf p (of_nat (length (chain_body (q # qs)))) (of_nat k) ch =
      create_loop buf p (of_nat (length (chain_body qs))) (of_nat (k + m)) (AddProperty q ch)"
    using create_loop_step [OF pos read, of ch] m
    by (simp add: ucast_of_nat_u8_u32 m_def [symmetric])
  also have "\<dots> = Some (Inr (mqtt_ok, of_nat (k + m + length (chain_body qs)),
      fold AddProperty qs (AddProperty q ch)))"
    using Cons.prems m_def by (intro Cons.IH [of _ "xs @ prop_enc q"]) auto
  finally show ?case by (simp add: m_def add.assoc)
qed

lemma fold_AddProperty_sorted:
  "chain_inv (ch @ qs) \<Longrightarrow> fold AddProperty qs ch = ch @ qs"
proof (induction qs arbitrary: ch)
  case (Cons q qs)
  have "AddProperty q ch = ch @ [q]"
    using Cons.prems by (auto simp: AddProperty_def chain_inv_def ord_ok_def sorted_wrt_append
        intro: ord_insert_greatest)
  with Cons show ?case by simp
qed simp

lemma chain_Create_props:
  assumes "\<forall>q\<in>set qs. prop_wf q" and "qs \<noteq> []" and "chain_ok qs"
  shows "chain_Create ch (xs @ chain_enc qs @ ys) (length xs) =
    Inr (mqtt_ok, of_nat (length (chain_enc qs)), fold AddProperty qs [])"
proof -
  define n where "n = length (chain_body qs)"
  have n: "0 < n" "n < 2 ^ 16"
    using assms by (cases qs; simp add: n_def chain_ok_def prop_enc_def)+
  then have pos: "0 < (of_nat n :: u32)" by (simp add: word_less_nat_alt)
  have len: "length (vint n) < 256" using length_vint_u32_small [of "of_nat n"] n by simp
  have "DeCodeVarInt (xs @ vint n @ chain_body qs @ ys) (length xs) =
      Inr (Inr (of_nat n, of_nat (length (vint n))))"
    using n by (intro DeCodeVarInt_vint) simp
  moreover have "create_loop (xs @ vint n @ chain_body qs @ ys) (length xs) (of_nat n)
      (of_nat (length (vint n))) [] =
      Some (Inr (mqtt_ok, of_nat (length (vint n) + n), fold AddProperty qs []))"
    unfolding n_def using assms(1) n len
    by (intro create_loop_props [of _ _ _ "xs @ vint (length (chain_body qs))"]) (simp_all add: n_def)
  ultimately show ?thesis
    using pos len by (simp add: chain_Create_def chain_enc_def n_def [symmetric] ucast_of_nat_u8_u32)
qed

lemma chain_Create_empty:
  "chain_Create ch (xs @ chain_enc [] @ ys) (length xs) = Inr (mqtt_ok, 1, ch)"
  using DeCodeVarInt_vint [of 0 xs ys] by (simp add: chain_Create_def chain_enc_def vint_small)

text \<open>A chain comes back as it was; an empty section leaves the chain of the reader alone.\<close>

lemma chain_Create_enc:
  assumes "\<forall>q\<in>set ch. prop_wf q" and "chain_ok ch" and "chain_inv ch"
  shows "chain_Create [] (xs @ chain_enc ch @ ys) (length xs) =
    Inr (mqtt_ok, of_nat (length (chain_enc ch)), ch)"
  using assms chain_Create_props [of ch "[]" xs ys] chain_Create_empty [of "[]" xs ys]
    fold_AddProperty_sorted [of "[]" ch]
  by (cases "ch = []") (simp_all add: chain_enc_def vint_small)

section \<open>Reading in general\<close>

text \<open>Every way the loop can end, with an invariant of its rounds.\<close>

lemma create_loop_outcome:
  assumes ret: "create_loop buf p p_len sz ch = Some y" and init: "I p_len sz ch"
    and step: "\<And>l z c q n. I l z c \<Longrightarrow> 0 < l \<Longrightarrow>
      CreateProperty (Some (buf, p + unat z)) = Inr (Some q, n) \<Longrightarrow>
      I (l - ucast n) (z + ucast n) (AddProperty q c)"
  obtains (ended) z c where "I 0 z c" "y = Inr (mqtt_ok, z, c)"
  | (malformed) l z c n where "I l z c" "0 < l" "y = Inr (mqtt_property_err, z, c)"
      "CreateProperty (Some (buf, p + unat z)) = Inr (None, n)"
  | (fault) l z c f where "I l z c" "0 < l" "y = Inl f"
      "CreateProperty (Some (buf, p + unat z)) = Inl f"
proof -
  define Q where "Q = (\<lambda>y. (\<exists>z c. I 0 z c \<and> y = Inr (mqtt_ok, z, c)) \<or>
    (\<exists>l z c n. I l z c \<and> 0 < l \<and> y = Inr (mqtt_property_err, z, c) \<and>
      CreateProperty (Some (buf, p + unat z)) = Inr (None, n)) \<or>
    (\<exists>l z c f. I l z c \<and> 0 < l \<and> y = Inl f \<and> CreateProperty (Some (buf, p + unat z)) = Inl f))"
  have "buf = buf \<and> p = p \<and> I p_len sz ch \<longrightarrow> Q y"
  proof (rule create_loop.raw_induct
      [where P = "\<lambda>b p' l z c y. b = buf \<and> p' = p \<and> I l z c \<longrightarrow> Q y", OF _ ret])
    fix f b p' l z c y
    assume IH: "\<And>b p' l z c y. f b p' l z c = Some y \<Longrightarrow> b = buf \<and> p' = p \<and> I l z c \<longrightarrow> Q y"
      and body: "(if 0 < l then
          case CreateProperty (Some (b, p' + unat z)) of
            Inl f \<Rightarrow> Some (Inl f)
          | Inr r \<Rightarrow> (case fst r of
                None \<Rightarrow> Some (Inr (mqtt_property_err, z, c))
              | Some q \<Rightarrow> f b p' (l - ucast (snd r)) (z + ucast (snd r)) (AddProperty q c))
        else Some (Inr (mqtt_ok, z, c))) = Some y"
    show "b = buf \<and> p' = p \<and> I l z c \<longrightarrow> Q y"
    proof
      assume here: "b = buf \<and> p' = p \<and> I l z c"
      show "Q y"
      proof (cases "0 < l")
        case False
        then have "l = 0" using word_gt_0 by blast
        with here body show ?thesis by (auto simp: Q_def)
      next
        case pos: True
        show ?thesis
        proof (cases "CreateProperty (Some (buf, p + unat z))")
          case (Inl f)
          with pos here body have "y = Inl f" by simp
          with pos here Inl show ?thesis unfolding Q_def by blast
        next
          case (Inr r)
          show ?thesis
          proof (cases "fst r")
            case None
            with pos Inr here body show ?thesis by (cases r) (auto simp: Q_def)
          next
            case (Some q)
            with Inr here pos body
            have "I (l - ucast (snd r)) (z + ucast (snd r)) (AddProperty q c)"
              and "f b p' (l - ucast (snd r)) (z + ucast (snd r)) (AddProperty q c) = Some y"
              by (auto intro!: step simp: prod_eq_iff)
            with IH here show ?thesis by blast
          qed
        qed
      qed
    qed
  qed
  with init that show thesis unfolding Q_def by blast
qed

text \<open>A property of reported size zero leaves the loop where it was: it never ends.\<close>

lemma create_loop_stuck:
  assumes "0 < p_len" and "CreateProperty (Some (buf, p + unat sz)) = Inr (Some q, 0)"
  shows "create_loop buf p p_len sz ch = None"
proof (cases "create_loop buf p p_len sz ch")
  case (Some y)
  then have False
    by (rule create_loop_outcome [where I = "\<lambda>l z c. l = p_len \<and> z = sz"])
      (use assms in auto)
  then show ?thesis ..
qed

lemma rd8_fail: "length buf \<le> i \<Longrightarrow> rd8 buf i = Inl OobRead"
  by (simp add: rd8_def)

lemma CreateProperty_in_block:
  "CreateProperty (Some (buf, i)) = Inr r \<Longrightarrow> i < length buf"
  by (cases "i < length buf") (simp_all add: rd8_fail CreateProperty.simps)

lemma returned_Inr [simp]: "returned m = Inr y \<longleftrightarrow> m = Some (Inr y)"
  by (cases m) auto

text \<open>What is reported as taken never reaches past the block.\<close>

lemma unat_add_le: "unat (a + b :: 'a::len word) \<le> unat a + unat b"
  by (simp add: unat_word_ariths)

lemma unat_ucast_le: "unat (ucast (w :: u16) :: u8) \<le> unat w"
  by (simp add: unsigned_ucast_eq)

lemma unat_prefix_le: "unat (1 + 2 + ucast (len :: u16) :: u8) \<le> 3 + unat len"
  using unat_add_le [of "1 + 2 :: u8" "ucast len"] unat_ucast_le [of len] by simp

lemma unat_pair_le:
  "unat (1 + 2 + ucast (l1 :: u16) + 2 + ucast (l2 :: u16) :: u8) \<le> 5 + unat l1 + unat l2"
  using unat_add_le [of "1 + 2 + ucast l1 + 2 :: u8" "ucast l2"] unat_add_le [of "1 + 2 + ucast l1 :: u8" 2]
    unat_prefix_le [of l1] unat_ucast_le [of l2] by simp

lemma CreateProperty_sound:
  assumes "CreateProperty (Some (buf, p)) = Inr (Some q, n)"
  shows "p + unat n \<le> length buf"
proof -
  obtain i where i: "rd8 buf p = Inr i" using assms by (auto simp: CreateProperty.simps rbind_eq_Inr)
  obtain ty where ty: "property_type i = Some ty"
    using assms i by (cases "property_type i") (auto simp: CreateProperty.simps)
  note facts = assms i ty
  show ?thesis
  proof (cases ty)
    case byte
    with facts show ?thesis
      by (auto simp: CreateProperty.simps rbind_eq_Inr new_MqttByteEntity_def dest: rd8_InrD)
  next
    case two_byte
    with facts show ?thesis
      by (auto simp: CreateProperty.simps rbind_eq_Inr dest!: ConvertToHost2Bytes_InrD)
  next
    case four_byte
    with facts show ?thesis
      by (auto simp: CreateProperty.simps rbind_eq_Inr dest!: ConvertToHost4Bytes_InrD)
  next
    case mqtt_string
    with facts obtain len where "ConvertToHost2Bytes buf (p + 1) = Inr len"
      "n = 1 + 2 + ucast len" "p + 3 + unat len \<le> length buf"
      by (auto simp: CreateProperty.simps rbind_eq_Inr new_MqttStringEntity_def dest!: rd_block_InrD)
    with unat_prefix_le [of len] show ?thesis by simp
  next
    case binary_data
    with facts obtain len where "ConvertToHost2Bytes buf (p + 1) = Inr len"
      "n = 1 + 2 + ucast len" "p + 3 + unat len \<le> length buf"
      by (auto simp: CreateProperty.simps rbind_eq_Inr new_MqttBinaryDataEntity_def dest!: rd_block_InrD)
    with unat_prefix_le [of len] show ?thesis by simp
  next
    case mqtt_string_pair
    with facts obtain l1 l2 where "ConvertToHost2Bytes buf (p + 1) = Inr l1"
      "ConvertToHost2Bytes buf (p + (3 + unat l1)) = Inr l2" "n = 1 + 2 + ucast l1 + 2 + ucast l2"
      "p + 5 + unat l1 + unat l2 \<le> length buf"
      by (auto simp: CreateProperty.simps rbind_eq_Inr dest!: rd_block_InrD)
    with unat_pair_le [of l1 l2] show ?thesis by simp
  next
    case variable_int
    from facts variable_int obtain r where r: "DeCodeVarInt buf (p + 1) = Inr r"
      by (auto simp: CreateProperty.simps rbind_eq_Inr)
    with facts variable_int obtain v m
      where m: "DeCodeVarInt buf (p + 1) = Inr (Inr (v, m))" "n = 1 + m"
      by (cases r) (auto simp: CreateProperty.simps rbind_eq_Inr)
    with DeCodeVarInt_sound [OF m(1)] unat_add_le [of 1 m] show ?thesis by simp
  qed (use facts in \<open>auto simp: CreateProperty.simps\<close>)
qed

lemma unat_ucast_u8_u32: "unat (ucast (n :: u8) :: u32) = unat n"
  using unsigned_less [of n, where 'a = nat] by (simp add: unsigned_ucast_eq take_bit_nat_eq_self)

lemma create_loop_bound:
  assumes "create_loop buf p p_len sz ch = Some (Inr (e, sz', ch'))"
    and "p + unat sz \<le> length buf"
  shows "p + unat sz' \<le> length buf"
  using assms(1)
proof (rule create_loop_outcome [where I = "\<lambda>l z c. p + unat z \<le> length buf"])
  fix l z :: u32 and c q n
  assume "CreateProperty (Some (buf, p + unat z)) = Inr (Some q, n)"
  from CreateProperty_sound [OF this] show "p + unat (z + ucast n) \<le> length buf"
    using unat_add_le [of z "ucast n"] unat_ucast_u8_u32 [of n] by linarith
qed (use assms(2) in auto)

lemma chain_Create_bound:
  assumes "chain_Create ch buf p = Inr (e, s, ch')" and "p \<le> length buf"
  shows "p + unat s \<le> length buf"
proof (cases "DeCodeVarInt buf p")
  case (Inr r)
  show ?thesis
  proof (cases r)
    case (Inr lr)
    then obtain l m where m: "DeCodeVarInt buf p = Inr (Inr (l, m))" "r = Inr (l, m)"
      using \<open>DeCodeVarInt buf p = Inr r\<close> by (cases lr) auto
    with DeCodeVarInt_sound [OF m(1)] assms create_loop_bound [of buf p l "ucast m" "[]" e s ch']
    show ?thesis by (auto simp: chain_Create_def unat_ucast_u8_u32 split: if_splits)
  qed (use Inr assms in \<open>simp add: chain_Create_def\<close>)
qed (use assms in \<open>simp add: chain_Create_def\<close>)

text \<open>Without one the loop ends: every round moves towards the end of the block.\<close>

lemma create_loop_ends:
  assumes "\<forall>i q. CreateProperty (Some (buf, i)) \<noteq> Inr (Some q, 0)" and "length buf < 2 ^ 31"
  shows "create_loop buf p p_len sz ch \<noteq> None"
proof (induction "length buf - unat sz" arbitrary: p_len sz ch rule: less_induct)
  case less
  show ?case
  proof (cases "CreateProperty (Some (buf, p + unat sz))")
    case (Inr r)
    obtain pq n where r: "r = (pq, n)" by (cases r)
    show ?thesis
    proof (cases "0 < p_len \<and> pq \<noteq> None")
      case True
      then obtain q where q: "pq = Some q" by auto
      have in_block: "unat sz < length buf" using CreateProperty_in_block [OF Inr] by simp
      have n: "0 < unat n" "unat n < 256"
        using assms(1) Inr r q unsigned_less [of n] by (auto simp: unat_gt_0)
      have "unat (ucast n :: u32) = unat n"
        using n by (simp add: unsigned_ucast_eq take_bit_nat_eq_self)
      then have "unat (sz + ucast n) = unat sz + unat n"
        using in_block assms(2) n by (intro unat_add_lem [THEN iffD1, THEN trans]) simp_all
      then have "create_loop buf p (p_len - ucast n) (sz + ucast n) (AddProperty q ch) \<noteq> None"
        using in_block n by (intro less) simp
      with True Inr r q show ?thesis by (simp add: create_loop_step)
    qed (use Inr r in \<open>auto simp: create_loop.simps [of buf p p_len sz ch]\<close>)
  qed (simp add: create_loop.simps [of buf p p_len sz ch])
qed

text \<open>When it returns \<open>ok\<close>, exactly the announced bytes have been counted.\<close>

lemma create_loop_exact:
  assumes "create_loop buf p p_len sz ch = Some (Inr (mqtt_ok, sz', ch'))"
  shows "sz' = sz + p_len"
  using assms
  by (rule create_loop_outcome [where I = "\<lambda>l z c. z + l = sz + p_len"]) auto

lemma create_loop_inv:
  assumes "create_loop buf p p_len sz ch = Some (Inr (e, sz', ch'))" and "chain_inv ch"
  shows "chain_inv ch'"
  using assms(1)
  by (rule create_loop_outcome [where I = "\<lambda>l z c. chain_inv c"]) (use assms(2) in auto)

lemma chain_Create_inv:
  assumes "chain_Create ch buf p = Inr (e, s, ch')" and "chain_inv ch"
  shows "chain_inv ch'"
proof (cases "DeCodeVarInt buf p")
  case (Inr r)
  with assms create_loop_inv [of buf p _ _ "[]" e s ch'] show ?thesis
    by (cases r) (auto simp: chain_Create_def split: if_splits)
qed (use assms in \<open>simp add: chain_Create_def\<close>)

text \<open>The size written to the \<open>uint8_t\<close> is the true one modulo 256.\<close>

text \<open>Whatever the bytes, a property that was read has the data type its identifier announces.\<close>

definition prop_typed :: "MqttProperty \<Rightarrow> bool" where
  "prop_typed q \<longleftrightarrow> property_type (prop_id q) = Some (ent_GetType (property q)) \<and> prop_ok q"

lemma length_str_read: "rd_block buf p (unat (len :: u16)) = Inr d \<Longrightarrow> length d < 2 ^ 16"
  using rd_block_InrD [of buf p "unat len" d] unsigned_less [of len, where 'a = nat] by simp

lemma CreateProperty_typed:
  assumes "CreateProperty (Some (buf, p)) = Inr (Some q, n)"
  shows "prop_typed q"
proof -
  obtain i where i: "rd8 buf p = Inr i" using assms by (auto simp: CreateProperty.simps rbind_eq_Inr)
  have vint: "length (vint (unat v)) < 6" for v :: u32
    using length_vint_u32 [of v] by simp
  show ?thesis
  proof (cases "property_type i")
    case (Some t)
    note read = CreateProperty.simps rbind_eq_Inr new_MqttProperty_def new_MqttByteEntity_def
      new_MqttTwoByteEntity_def new_MqttFourByteEntity_def new_MqttStringEntity_def new_MqttBinaryDataEntity_def
      new_MqttVIntEntity_def prop_typed_def prop_ok_def ent_ok_def
    show ?thesis
    proof (cases "t = variable_int")
      case True
      with assms i Some obtain v k where d: "DeCodeVarInt buf (p + 1) = Inr (Inr (v, k))"
        by (cases "DeCodeVarInt buf (p + 1)") (auto simp: CreateProperty.simps split: sum.split_asm)
      show ?thesis
        using assms i Some True d less_trans [OF vint, of "2 ^ 32"] by (auto simp: read Let_def)
    next
      case False
      then show ?thesis
        using assms i Some by (cases t) (auto simp: read Let_def dest!: length_str_read)
    qed
  qed (use assms i in \<open>simp add: CreateProperty.simps\<close>)
qed

text \<open>So is every property of a chain that was read.\<close>

definition chain_typed :: "MqttPropertyChain \<Rightarrow> bool" where
  "chain_typed ch \<longleftrightarrow> chain_inv ch \<and> (\<forall>q\<in>set ch. prop_typed q)"

lemma chain_typed_Add: "chain_typed ch \<Longrightarrow> prop_typed q \<Longrightarrow> chain_typed (AddProperty q ch)"
  using chain_inv_Add [of ch q]
  by (auto simp: chain_typed_def AddProperty_def chain_inv_def set_ord_insert split: if_splits)

lemma chain_Create_typed:
  assumes "chain_Create ch buf p = Inr (e, s, ch')" and "chain_typed ch"
  shows "chain_typed ch'"
proof (cases "DeCodeVarInt buf p")
  case (Inr r)
  have "chain_typed ch'" if "create_loop buf p l z [] = Some (Inr (e, s, ch'))" for l z
    using that
    by (rule create_loop_outcome [where I = "\<lambda>l z c. chain_typed c"])
      (auto intro: chain_typed_Add CreateProperty_typed, simp add: chain_typed_def)
  with Inr assms show ?thesis by (cases r) (auto simp: chain_Create_def split: if_splits)
qed (use assms in \<open>simp add: chain_Create_def\<close>)

lemma CreateProperty_string:
  assumes "property_type i = Some mqtt_string" and "length s < 2 ^ 16"
  shows "CreateProperty (Some ([i] @ str_enc s @ ys, 0)) =
    Inr (Some (new_MqttProperty i (MqttStringEntity s)), of_nat (3 + length s))"
  using assms by (simp add: CreateProperty.simps mem_simps new_MqttStringEntity_def
      new_MqttProperty_def str_enc_def)

lemma CreateProperty_string_at:
  assumes "property_type i = Some mqtt_string" and "length s < 2 ^ 16"
  shows "CreateProperty (Some (xs @ [i] @ str_enc s @ ys, length xs)) =
    Inr (Some (new_MqttProperty i (MqttStringEntity s)), of_nat (3 + length s))"
  using CreateProperty_drop [of "length xs" "xs @ [i] @ str_enc s @ ys"]
    CreateProperty_string [OF assms, of ys] by simp

lemma chain_Create_hangs:
  assumes "property_type i = Some mqtt_string" and "length s = 253"
    and "0 < n" and "n < 128 ^ 4"
  shows "chain_Create ch (xs @ vint n @ [i] @ str_enc s @ ys) (length xs) = Inl Diverges"
proof -
  define buf where "buf = xs @ vint n @ [i] @ str_enc s @ ys"
  have pos: "0 < (of_nat n :: u32)" using assms by (simp add: word_less_nat_alt)
  have len: "length (vint n) < 256" using length_vint_u32_small [of "of_nat n"] assms by simp
  have k: "unat (of_nat (length (vint n)) :: u32) = length (vint n)"
    using len by (intro unat_of_nat32) simp
  have "(of_nat (3 + length s) :: u8) = 0" using assms by simp
  then have "CreateProperty (Some (buf, length xs + unat (of_nat (length (vint n)) :: u32))) =
      Inr (Some (new_MqttProperty i (MqttStringEntity s)), 0)"
    unfolding k using CreateProperty_string_at [of i s "xs @ vint n" ys] assms by (simp add: buf_def)
  from create_loop_stuck [OF pos this]
  have "create_loop buf (length xs) (of_nat n) (of_nat (length (vint n))) [] = None" .
  moreover have "DeCodeVarInt buf (length xs) = Inr (Inr (of_nat n, of_nat (length (vint n))))"
    unfolding buf_def using assms by (intro DeCodeVarInt_vint)
  ultimately show ?thesis
    unfolding buf_def [symmetric] using pos len by (simp add: chain_Create_def ucast_of_nat_u8_u32)
qed

section \<open>The deep copy\<close>

text \<open>
  The copy is faithful but for binary data, whose new block is filled with two bytes more than
  the old one has: \<open>Size ()\<close> counts the length prefix that \<open>GetData ()\<close> does not hold.
\<close>

definition copyable :: "MqttProperty \<Rightarrow> bool" where
  "copyable q \<longleftrightarrow> prop_id q > 0 \<and> ent_GetType (property q) \<noteq> binary_data"

lemma ucast_down_up:
  "(ucast (ucast (v :: u8) :: u32) :: u8) = v" "(ucast (ucast (w :: u16) :: u32) :: u16) = w"
  by (rule bit_word_eqI; simp add: bit_simps)+

lemma copy_entity_id: "ent_GetType e \<noteq> binary_data \<Longrightarrow> copy_entity e = Inr e"
  by (cases e) (simp_all add: new_MqttVIntEntity_def mem_simps ucast_down_up)

lemma new_MqttProperty_eta: "new_MqttProperty (prop_id q) (property q) = q"
  by (simp add: new_MqttProperty_def)

lemma copy_entity_binary:
  "length d + 2 < 2 ^ 16 \<Longrightarrow> copy_entity (MqttBinaryDataEntity d) = Inl OobRead"
proof -
  assume len: "length d + 2 < 2 ^ 16"
  then have "unat (2 + of_nat (length d) :: u32) = 2 + length d"
    using unat_of_nat32 [of "2 + length d"] by simp
  with len have "unat (ucast (MqttBinaryDataEntity_Size d) :: u16) = 2 + length d"
    by (simp add: MqttBinaryDataEntity_Size_def unsigned_ucast_eq take_bit_nat_eq_self)
  then show ?thesis
    by (simp add: new_MqttBinaryDataEntity_def rd_block_def)
qed

lemma copy_loop_copyable:
  "\<forall>q\<in>set ch. copyable q \<Longrightarrow> copy_loop ch acc = Inr (fold AddProperty ch acc)"
  by (induction ch arbitrary: acc)
    (simp_all del: copy_entity.simps add: copy_entity_id copyable_def new_MqttProperty_eta)

lemma chain_copy_id: "chain_inv ch \<Longrightarrow> \<forall>q\<in>set ch. copyable q \<Longrightarrow> chain_copy ch = Inr ch"
  using fold_AddProperty_sorted [of "[]" ch] by (simp add: chain_copy_def copy_loop_copyable)

lemma chain_copy_binary:
  assumes "\<forall>q\<in>set as. copyable q" and "property q = MqttBinaryDataEntity d"
    and "length d + 2 < 2 ^ 16"
  shows "chain_copy (as @ q # bs) = Inl OobRead"
proof -
  have "copy_loop (as @ q # bs) acc = Inl OobRead" for acc
    using assms by (induction as arbitrary: acc)
      (simp_all del: copy_entity.simps add: copy_entity_binary copy_entity_id copyable_def)
  then show ?thesis by (simp add: chain_copy_def)
qed

end
