(* ===== verification/Clients.thy ===== *)
theory Clients
  imports Topics Property_Chain
begin

text \<open>
  The client object of \<open>src/client.cpp\<close>: the data of its \<open>CONNECT\<close>, its subscriptions and
  the generator of packet identifiers, with the decision whether a topic is one it subscribed to.
\<close>

section \<open>State\<close>

text \<open>
  The members the constructor leaves uninitialized (\<open>mqtt_version\<close>, the default
  \<open>will_topic\<close>) start at zero here; nothing reads them before they are set. Time is what
  \<open>time ()\<close> returned, an argument of the operations that ask for it.
\<close>

record Client =
  conn_properties :: MqttPropertyChain
  will_properties :: MqttPropertyChain
  will_topic :: MqttTopic
  ip :: bytes
  client_id :: bytes
  topics_to_send :: "MqttTopic list"
  subscribed_topics :: "(bytes \<times> u8) list"
  user_name :: "bytes option"
  pwd :: "bytes option"
  flags :: u8
  alive :: u16
  time_last_packet :: int
  packet_id_gen :: u16
  id_was_random_generated :: bool
  mqtt_version :: u8
  Authorized :: bool

definition new_Client :: "bytes \<Rightarrow> int \<Rightarrow> Client" where
  "new_Client i now =
     \<lparr>conn_properties = [], will_properties = [], will_topic = new_MqttTopic 0 0 [] None,
      ip = i, client_id = [], topics_to_send = [], subscribed_topics = [], user_name = None,
      pwd = None, flags = 0, alive = 0, time_last_packet = now, packet_id_gen = 1,
      id_was_random_generated = False, mqtt_version = 0, Authorized = False\<rparr>"

section \<open>Flags and setters\<close>

definition isUserNameFlag :: "Client \<Rightarrow> bool" where
  "isUserNameFlag c \<longleftrightarrow> flags c AND 0x80 \<noteq> 0"

definition isPwdFlag :: "Client \<Rightarrow> bool" where
  "isPwdFlag c \<longleftrightarrow> flags c AND 0x40 \<noteq> 0"

definition isWillRetFlag :: "Client \<Rightarrow> bool" where
  "isWillRetFlag c \<longleftrightarrow> flags c AND 0x20 \<noteq> 0"

definition WillQoSFlag :: "Client \<Rightarrow> u8" where
  "WillQoSFlag c = drop_bit 3 (flags c AND 0x18)"

definition isWillFlag :: "Client \<Rightarrow> bool" where
  "isWillFlag c \<longleftrightarrow> flags c AND 0x4 \<noteq> 0"

definition isCleanFlag :: "Client \<Rightarrow> bool" where
  "isCleanFlag c \<longleftrightarrow> flags c AND 0x2 \<noteq> 0"

definition isRandomID :: "Client \<Rightarrow> bool" where
  "isRandomID c = id_was_random_generated c"

definition GetID :: "Client \<Rightarrow> bytes" where
  "GetID c = MqttStringEntity_GetString (client_id c)"

definition GetIP :: "Client \<Rightarrow> bytes" where
  "GetIP c = ip c"

definition GetPacketLastTime :: "Client \<Rightarrow> int" where
  "GetPacketLastTime c = time_last_packet c"

definition GetAlive :: "Client \<Rightarrow> u16" where
  "GetAlive c = alive c"

definition GetClientMQTTVersion :: "Client \<Rightarrow> u8" where
  "GetClientMQTTVersion c = mqtt_version c"

definition isAuthorized :: "Client \<Rightarrow> bool" where
  "isAuthorized c = Authorized c"

definition SetConnFlags :: "u8 \<Rightarrow> Client \<Rightarrow> Client" where
  "SetConnFlags f c = c\<lparr>flags := f\<rparr>"

definition SetConnAlive :: "u16 \<Rightarrow> Client \<Rightarrow> Client" where
  "SetConnAlive a c = c\<lparr>alive := a\<rparr>"

definition SetID :: "bytes \<Rightarrow> Client \<Rightarrow> Client" where
  "SetID i c = c\<lparr>client_id := i\<rparr>"

definition SetRandomID :: "Client \<Rightarrow> Client" where
  "SetRandomID c = c\<lparr>id_was_random_generated := True\<rparr>"

definition SetPacketLastTime :: "int \<Rightarrow> Client \<Rightarrow> Client" where
  "SetPacketLastTime t c = c\<lparr>time_last_packet := t\<rparr>"

definition SetClientMQTTVersion :: "u8 \<Rightarrow> Client \<Rightarrow> Client" where
  "SetClientMQTTVersion v c = c\<lparr>mqtt_version := v\<rparr>"

definition setLoggedIn :: "Client \<Rightarrow> Client" where
  "setLoggedIn c = c\<lparr>Authorized := True\<rparr>"

definition setUserName :: "bytes \<Rightarrow> Client \<Rightarrow> Client" where
  "setUserName nm c = c\<lparr>user_name := Some nm\<rparr>"

definition setPwd :: "bytes \<Rightarrow> Client \<Rightarrow> Client" where
  "setPwd w c = c\<lparr>pwd := Some w\<rparr>"

definition GenPacketID :: "Client \<Rightarrow> u16 \<times> Client" where
  "GenPacketID c = (packet_id_gen c, c\<lparr>packet_id_gen := packet_id_gen c + 1\<rparr>)"

section \<open>Subscriptions\<close>

text \<open>\<open>insert\<close> keeps the options of a subscription that is already there.\<close>

definition AddSubscription :: "bytes \<Rightarrow> u8 \<Rightarrow> Client \<Rightarrow> Client" where
  "AddSubscription nm opts c = c\<lparr>subscribed_topics := un_insert fst (nm, opts) (subscribed_topics c)\<rparr>"

definition CFind :: "bytes \<Rightarrow> Client \<Rightarrow> (bytes \<times> u8) option" where
  "CFind nm c = kv_find fst nm (subscribed_topics c)"

text \<open>The result of \<open>erase\<close> is the number of entries removed.\<close>

definition DelSubscription :: "bytes \<Rightarrow> Client \<Rightarrow> u8 \<times> Client" where
  "DelSubscription nm c =
     (if kv_find fst nm (subscribed_topics c) = None then 0 else 1,
      c\<lparr>subscribed_topics := kv_erase fst nm (subscribed_topics c)\<rparr>)"

text \<open>
  The inner loop of \<open>checkWildCards\<close>: over the levels of the topic, the last list being what is
  left of them from \<open>i\<close> on. \<open>False\<close> is leaving the loop without a \<open>return\<close>.
\<close>

fun wild_loop :: "bytes list \<Rightarrow> bytes list \<Rightarrow> nat \<Rightarrow> bytes list \<Rightarrow> bool res" where
  "wild_loop name_toks sub_toks i [] = Inr False"
| "wild_loop name_toks sub_toks i (tok # toks) =
     rbind (vec_at sub_toks i) (\<lambda>sub.
     let at_end = (Suc i = length name_toks \<and> Suc i = length sub_toks)
     in if sub = plus_tok then
          (if at_end then Inr True else wild_loop name_toks sub_toks (Suc i) toks)
        else if sub = hash_tok then Inr True
        else if tok \<noteq> sub then Inr False
        else if at_end then Inr True
        else wild_loop name_toks sub_toks (Suc i) toks)"

fun check_subs :: "bytes \<Rightarrow> bytes list \<Rightarrow> (bytes \<times> u8) list \<Rightarrow> (bool \<times> u8) res" where
  "check_subs nm name_toks [] = Inr (False, 0)"
| "check_subs nm name_toks ((flt, opts) # subs) =
     (if flt = hash_tok then Inr (True, opts)
      else if nm = flt then Inr (True, opts)
      else rbind (wild_loop name_toks (tokenize flt is_sep) 0 name_toks) (\<lambda>r.
           if r then Inr (True, opts) else check_subs nm name_toks subs))"

definition checkWildCards :: "bytes \<Rightarrow> Client \<Rightarrow> (bool \<times> u8) res" where
  "checkWildCards nm c = check_subs nm (tokenize nm is_sep) (subscribed_topics c)"

definition MyTopic :: "bytes \<Rightarrow> Client \<Rightarrow> (bool \<times> u8) res" where
  "MyTopic nm c = rbind (checkWildCards nm c) (\<lambda>(result, qos). Inr (result, qos))"

section \<open>Facts\<close>

definition client_inv :: "Client \<Rightarrow> bool" where
  "client_inv c \<longleftrightarrow> un_ok fst (subscribed_topics c) \<and> chain_inv (conn_properties c) \<and>
     chain_inv (will_properties c)"

lemma new_Client_inv: "client_inv (new_Client i now)"
  by (simp add: client_inv_def new_Client_def un_ok_def)

lemma AddSubscription_inv: "client_inv c \<Longrightarrow> client_inv (AddSubscription nm opts c)"
  by (simp add: client_inv_def AddSubscription_def un.ok_ins)

lemma DelSubscription_inv: "client_inv c \<Longrightarrow> client_inv (snd (DelSubscription nm c))"
  by (simp add: client_inv_def DelSubscription_def un.ok_erase)

lemma CFind_AddSubscription:
  "client_inv c \<Longrightarrow> CFind nm (AddSubscription flt opts c) =
    (if nm = flt \<and> CFind nm c = None then Some (flt, opts) else CFind nm c)"
  unfolding client_inv_def CFind_def AddSubscription_def by (simp add: un.find_ins)

lemma CFind_DelSubscription:
  "CFind nm (snd (DelSubscription flt c)) = (if nm = flt then None else CFind nm c)"
  by (simp add: CFind_def DelSubscription_def kv_find_erase)

lemma DelSubscription_count:
  "fst (DelSubscription nm c) = (if CFind nm c = None then 0 else 1)"
  by (simp add: DelSubscription_def CFind_def)

lemma WillQoSFlag_bound: "WillQoSFlag c < 4"
proof -
  have "flags c AND 0x18 \<le> 0x18" by (rule word_and_le1)
  then have "unat (flags c AND 0x18) \<le> 24" by (simp add: word_le_nat_alt)
  then have "unat (flags c AND 0x18) div 2 ^ 3 < 4" by simp
  then have "unat (WillQoSFlag c) < 4" unfolding WillQoSFlag_def unat_drop_bit_u8 .
  then show ?thesis by (simp add: word_less_nat_alt)
qed

text \<open>Identifiers count up from one; the 65536th is zero, which the packets take as \<open>none\<close>.\<close>

lemma GenPacketID_iterate:
  "packet_id_gen c = of_nat n \<Longrightarrow>
    GenPacketID c = (of_nat n, c\<lparr>packet_id_gen := of_nat (Suc n)\<rparr>)"
  by (simp add: GenPacketID_def)

subsection \<open>The matching loop\<close>

text \<open>The topic agrees with all levels of the filter and goes on.\<close>

fun sub_short :: "bytes list \<Rightarrow> bytes list \<Rightarrow> bool" where
  "sub_short [] [] \<longleftrightarrow> False"
| "sub_short [] (t # ts) \<longleftrightarrow> True"
| "sub_short (f # fs) [] \<longleftrightarrow> False"
| "sub_short (f # fs) (t # ts) \<longleftrightarrow> f \<noteq> hash_tok \<and> (f = plus_tok \<or> f = t) \<and> sub_short fs ts"

lemma wild_loop_levels:
  assumes "i \<le> length st" and "i + length ts = length tn" and "ts \<noteq> []"
  shows "wild_loop tn st i ts =
    (if sub_short (drop i st) ts then Inl OobRead else Inr (level_match (drop i st) ts))"
  using assms
proof (induction ts arbitrary: i)
  case (Cons t ts)
  show ?case
  proof (cases "i = length st")
    case True
    then show ?thesis by (simp add: vec_at_def)
  next
    case False
    with Cons.prems have i: "i < length st" by simp
    then have drop: "drop i st = st ! i # drop (Suc i) st" by (simp add: Cons_nth_drop_Suc)
    have last: "drop (Suc i) st = [] \<longleftrightarrow> Suc i = length st" using i by auto
    show ?thesis
    proof (cases "ts = []")
      case True
      then show ?thesis
        using Cons.prems i last unfolding drop
        by (cases "drop (Suc i) st") (auto simp: Let_def vec_at_def)
    next
      case False
      then have "Suc i \<noteq> length tn" using Cons.prems by (cases ts) auto
      with Cons.IH [of "Suc i"] Cons.prems i False show ?thesis
        unfolding drop by (auto simp: Let_def vec_at_def)
    qed
  qed
qed simp

lemma wild_loop_spec:
  "tn \<noteq> [] \<Longrightarrow> wild_loop tn st 0 tn =
    (if sub_short st tn then Inl OobRead else Inr (level_match st tn))"
  using wild_loop_levels [of 0 st tn tn] by simp

text \<open>What a subscription means for a name, as the loop decides it.\<close>

definition sub_matches :: "bytes \<Rightarrow> bytes \<Rightarrow> bool" where
  "sub_matches flt nm \<longleftrightarrow> flt = hash_tok \<or> flt = nm \<or>
     (tokenize nm is_sep \<noteq> [] \<and> level_match (tokenize flt is_sep) (tokenize nm is_sep))"

definition sub_safe :: "bytes \<Rightarrow> bytes \<Rightarrow> bool" where
  "sub_safe flt nm \<longleftrightarrow> flt = hash_tok \<or> flt = nm \<or>
     \<not> sub_short (tokenize flt is_sep) (tokenize nm is_sep)"

text \<open>
  The first filter decides that matches or is read past its levels. A name without
  levels is compared with none.
\<close>

definition reads_past :: "bytes \<Rightarrow> bytes \<Rightarrow> bool" where
  "reads_past flt nm \<longleftrightarrow> tokenize nm is_sep \<noteq> [] \<and> \<not> sub_safe flt nm"

lemma check_subs_decided:
  "check_subs nm (tokenize nm is_sep) subs =
    (case find (\<lambda>e. reads_past (fst e) nm \<or> sub_matches (fst e) nm) subs of
       None \<Rightarrow> Inr (False, 0)
     | Some (flt, opts) \<Rightarrow> if reads_past flt nm then Inl OobRead else Inr (True, opts))"
proof (induction subs)
  case (Cons e subs)
  obtain flt opts where e: "e = (flt, opts)" by (cases e)
  show ?case
  proof (cases "flt = hash_tok \<or> flt = nm")
    case True
    then show ?thesis by (auto simp: e sub_matches_def reads_past_def sub_safe_def)
  next
    case False
    have "wild_loop (tokenize nm is_sep) (tokenize flt is_sep) 0 (tokenize nm is_sep) =
        (if reads_past flt nm then Inl OobRead else Inr (sub_matches flt nm))"
      using False by (cases "tokenize nm is_sep = []")
        (auto simp: wild_loop_spec sub_safe_def sub_matches_def reads_past_def)
    with False Cons show ?thesis by (auto simp: e)
  qed
qed simp

lemma MyTopic_decided:
  "MyTopic nm c =
    (case find (\<lambda>e. reads_past (fst e) nm \<or> sub_matches (fst e) nm) (subscribed_topics c) of
       None \<Rightarrow> Inr (False, 0)
     | Some (flt, opts) \<Rightarrow> if reads_past flt nm then Inl OobRead else Inr (True, opts))"
proof -
  have "MyTopic nm c = check_subs nm (tokenize nm is_sep) (subscribed_topics c)"
    by (cases "check_subs nm (tokenize nm is_sep) (subscribed_topics c)")
      (auto simp: MyTopic_def checkWildCards_def)
  then show ?thesis by (simp only: check_subs_decided)
qed

text \<open>With safe filters the answer is that of the first subscription that matches.\<close>

lemma MyTopic_safe:
  assumes "\<forall>e\<in>set (subscribed_topics c). sub_safe (fst e) nm"
  shows "MyTopic nm c = Inr (case find (\<lambda>e. sub_matches (fst e) nm) (subscribed_topics c) of
    Some (flt, opts) \<Rightarrow> (True, opts) | None \<Rightarrow> (False, 0))"
proof -
  have "find (\<lambda>e. reads_past (fst e) nm \<or> sub_matches (fst e) nm) (subscribed_topics c) =
      find (\<lambda>e. sub_matches (fst e) nm) (subscribed_topics c)"
    using assms by (intro find_cong) (simp_all add: reads_past_def)
  moreover have "\<not> reads_past (fst e) nm" if "find (\<lambda>e. sub_matches (fst e) nm) (subscribed_topics c) = Some e" for e
    using that assms by (auto simp: reads_past_def find_Some_iff)
  ultimately show ?thesis by (auto simp: MyTopic_decided split: option.splits)
qed

end
