(* ===== verification/Variable_Headers.thy ===== *)
theory Variable_Headers
  imports Property_Chain
begin

text \<open>
  The variable headers of \<open>src/mqtt_variable_header.cpp\<close>: a record for each class, its
  announced size, its serialization and its reader, and the class hierarchy under
  \<open>IVariableHeader\<close> as one datatype with the dispatching operations. A field that a class
  shares by name with another carries a prefix.
\<close>

section \<open>CONNECT and CONNACK\<close>

text \<open>\<open>vh_name\<close> is the array of four characters.\<close>

record ConnectVH =
  prot_name_len :: u16
  vh_name :: bytes
  version :: u8
  conn_flags :: u8
  vh_alive :: u16

definition ConnectVH_0 :: ConnectVH where
  "ConnectVH_0 = \<lparr>prot_name_len = 0, vh_name = [0, 0, 0, 0], version = 0, conn_flags = 0, vh_alive = 0\<rparr>"

definition new_ConnectVH :: "u8 \<Rightarrow> u16 \<Rightarrow> ConnectVH" where
  "new_ConnectVH flgs alv =
     \<lparr>prot_name_len = 4, vh_name = [0x4D, 0x51, 0x54, 0x54], version = 5, conn_flags = flgs, vh_alive = alv\<rparr>"

definition ConnectVH_GetSize :: "ConnectVH \<Rightarrow> u32" where
  "ConnectVH_GetSize v = 2 + 1 + 4 + 1 + 2"

definition ConnectVH_Serialize :: "ConnectVH \<Rightarrow> bytes \<Rightarrow> nat \<Rightarrow> u32 \<Rightarrow> (bytes \<times> u32) res" where
  "ConnectVH_Serialize v dst p offset =
     (let tmp = htons (prot_name_len v)
      in rbind (mem_put dst p (mem16 tmp)) (\<lambda>dst.
         rbind (mem_put dst (p + 2) (vh_name v)) (\<lambda>dst.
         rbind (mem_put dst (p + 6) [version v]) (\<lambda>dst.
         rbind (mem_put dst (p + 7) [conn_flags v]) (\<lambda>dst.
         let tmp = htons (vh_alive v)
         in rbind (mem_put dst (p + 8) (mem16 tmp)) (\<lambda>dst. Inr (dst, offset + 10)))))))"

definition ConnectVH_ReadFromBuf :: "bytes \<Rightarrow> nat \<Rightarrow> u32 \<Rightarrow> (ConnectVH \<times> u32) res" where
  "ConnectVH_ReadFromBuf buf p offset =
     rbind (rd_block buf p 2) (\<lambda>len.
     rbind (rd_block buf (p + 2) 4) (\<lambda>nm.
     rbind (rd8 buf (p + 6)) (\<lambda>ver.
     rbind (rd8 buf (p + 7)) (\<lambda>flgs.
     rbind (rd_block buf (p + 8) 2) (\<lambda>alv.
     let v = \<lparr>prot_name_len = ntohs (val16 len), vh_name = nm, version = ver, conn_flags = flgs,
              vh_alive = ntohs (val16 alv)\<rparr>
     in Inr (v, offset + ConnectVH_GetSize v))))))"

record ConnactVH =
  conn_acknowledge_flags :: u8
  ca_reason_code :: u8
  ca_chain :: MqttPropertyChain

definition new_ConnactVH :: "u8 \<Rightarrow> u8 \<Rightarrow> MqttPropertyChain \<Rightarrow> ConnactVH" where
  "new_ConnactVH caf c ch = \<lparr>conn_acknowledge_flags = caf, ca_reason_code = c, ca_chain = ch\<rparr>"

definition ConnactVH_GetSize :: "ConnactVH \<Rightarrow> u32" where
  "ConnactVH_GetSize v = 1 + 1 + chain_Size (ca_chain v)"

definition ConnactVH_Serialize :: "ConnactVH \<Rightarrow> bytes \<Rightarrow> nat \<Rightarrow> u32 \<Rightarrow> (bytes \<times> u32) res" where
  "ConnactVH_Serialize v dst p offset =
     rbind (mem_put dst p [conn_acknowledge_flags v]) (\<lambda>dst.
     rbind (mem_put dst (p + 1) [ca_reason_code v]) (\<lambda>dst.
     chain_Serialize (ca_chain v) dst (p + 2) (offset + 2)))"

definition ConnactVH_ReadFromBuf ::
    "ConnactVH \<Rightarrow> bytes \<Rightarrow> nat \<Rightarrow> u32 \<Rightarrow> (ConnactVH \<times> u32) res" where
  "ConnactVH_ReadFromBuf v buf p offset =
     rbind (rd8 buf p) (\<lambda>caf.
     rbind (rd8 buf (p + 1)) (\<lambda>c.
     rbind (chain_Create (ca_chain v) buf (p + 2)) (\<lambda>(_, sz, ch).
     Inr (\<lparr>conn_acknowledge_flags = caf, ca_reason_code = c, ca_chain = ch\<rparr>, offset + 2 + sz))))"

section \<open>DISCONNECT\<close>

record DisconnectVH =
  di_reason_code :: u8
  di_chain :: MqttPropertyChain

definition new_DisconnectVH :: "u8 \<Rightarrow> MqttPropertyChain \<Rightarrow> DisconnectVH" where
  "new_DisconnectVH c ch = \<lparr>di_reason_code = c, di_chain = ch\<rparr>"

definition DisconnectVH_GetSize :: "DisconnectVH \<Rightarrow> u32" where
  "DisconnectVH_GetSize v = 1 + chain_Size (di_chain v)"

definition DisconnectVH_Serialize :: "DisconnectVH \<Rightarrow> bytes \<Rightarrow> nat \<Rightarrow> u32 \<Rightarrow> (bytes \<times> u32) res" where
  "DisconnectVH_Serialize v dst p offset =
     rbind (mem_put dst p [di_reason_code v]) (\<lambda>dst.
     rbind (chain_Serialize (di_chain v) dst (p + 1) 1) (\<lambda>(dst, local_offset).
     Inr (dst, offset + local_offset)))"

definition DisconnectVH_ReadFromBuf ::
    "DisconnectVH \<Rightarrow> bytes \<Rightarrow> nat \<Rightarrow> u32 \<Rightarrow> (DisconnectVH \<times> u32) res" where
  "DisconnectVH_ReadFromBuf v buf p offset =
     rbind (rd8 buf p) (\<lambda>c.
     rbind (chain_Create (di_chain v) buf (p + 1)) (\<lambda>(_, sz, ch).
     Inr (\<lparr>di_reason_code = c, di_chain = ch\<rparr>, offset + 1 + sz)))"

section \<open>PUBLISH\<close>

record PublishVH =
  topic_name :: bytes
  pu_packet_id :: u16
  pu_chain :: MqttPropertyChain

definition PublishVH_0 :: PublishVH where
  "PublishVH_0 = \<lparr>topic_name = [], pu_packet_id = 0, pu_chain = []\<rparr>"

definition new_PublishVH :: "bytes \<Rightarrow> u16 \<Rightarrow> MqttPropertyChain \<Rightarrow> PublishVH" where
  "new_PublishVH nm i ch = \<lparr>topic_name = nm, pu_packet_id = i, pu_chain = ch\<rparr>"

text \<open>The constructor that parses a buffer; it assigns \<open>offset\<close>.\<close>

definition read_PublishVH :: "bool \<Rightarrow> bytes \<Rightarrow> (PublishVH \<times> u32) res" where
  "read_PublishVH is_packet_id_present buf =
     rbind (ConvertToHost2Bytes buf 0) (\<lambda>len.
     rbind (rd_block buf 2 (unat len)) (\<lambda>nm.
     let offset = MqttStringEntity_Size nm in
     rbind (if is_packet_id_present
            then rbind (ConvertToHost2Bytes buf (unat offset)) (\<lambda>i. Inr (i, offset + 2))
            else Inr (0, offset)) (\<lambda>(i, offset).
     rbind (chain_Create [] buf (unat offset)) (\<lambda>(_, property_size, ch).
     Inr (new_PublishVH nm i ch, offset + property_size)))))"

text \<open>Copy assignment; only the chain is more than a copy of the value.\<close>

definition assign_PublishVH :: "PublishVH \<Rightarrow> PublishVH res" where
  "assign_PublishVH v = rbind (chain_copy (pu_chain v)) (\<lambda>ch. Inr (v\<lparr>pu_chain := ch\<rparr>))"

definition PublishVH_GetSize :: "PublishVH \<Rightarrow> u32" where
  "PublishVH_GetSize v = MqttStringEntity_Size (topic_name v) + 2 + chain_Size (pu_chain v)"

definition PublishVH_Serialize :: "PublishVH \<Rightarrow> bytes \<Rightarrow> nat \<Rightarrow> u32 \<Rightarrow> (bytes \<times> u32) res" where
  "PublishVH_Serialize v dst p offset =
     rbind (MqttStringEntity_Serialize (topic_name v) dst p 0) (\<lambda>(dst, local_offset).
     let offset = offset + local_offset in
     rbind (if pu_packet_id v \<noteq> 0
            then rbind (mem_put dst (p + unat local_offset) (mem16 (ntohs (pu_packet_id v))))
                   (\<lambda>dst. Inr (dst, offset + 2, local_offset + 2))
            else Inr (dst, offset, local_offset)) (\<lambda>(dst, offset, local_offset).
     chain_Serialize (pu_chain v) dst (p + unat local_offset) offset))"

section \<open>SUBSCRIBE and SUBACK\<close>

record SubscribeVH =
  sub_packet_id :: u16
  sub_chain :: MqttPropertyChain

definition read_SubscribeVH :: "bytes \<Rightarrow> (SubscribeVH \<times> u32) res" where
  "read_SubscribeVH buf =
     rbind (ConvertToHost2Bytes buf 0) (\<lambda>i.
     rbind (chain_Create [] buf 2) (\<lambda>(_, property_size, ch).
     Inr (\<lparr>sub_packet_id = i, sub_chain = ch\<rparr>, 2 + property_size)))"

definition SubscribeVH_GetSize :: "SubscribeVH \<Rightarrow> u32" where
  "SubscribeVH_GetSize v = 2 + ucast (chain_GetSize (sub_chain v))"

definition SubscribeVH_Serialize :: "SubscribeVH \<Rightarrow> bytes \<Rightarrow> nat \<Rightarrow> u32 \<Rightarrow> (bytes \<times> u32) res" where
  "SubscribeVH_Serialize v dst p offset =
     rbind (if sub_packet_id v \<noteq> 0
            then rbind (mem_put dst p (mem16 (ntohs (sub_packet_id v))))
                   (\<lambda>dst. Inr (dst, offset + 2, 2))
            else Inr (dst, offset, 0)) (\<lambda>(dst, offset, local_offset).
     chain_Serialize (sub_chain v) dst (p + local_offset) offset)"

definition SubscribeVH_ReadFromBuf :: "bytes \<Rightarrow> nat \<Rightarrow> u32 \<Rightarrow> (SubscribeVH \<times> u32) res" where
  "SubscribeVH_ReadFromBuf buf p offset =
     (let ch0 = Clear []
      in rbind (rd_block buf p 2) (\<lambda>i.
         rbind (chain_Create ch0 buf (p + 2)) (\<lambda>(_, property_len, ch).
         Inr (\<lparr>sub_packet_id = ntohs (val16 i), sub_chain = ch\<rparr>, offset + 2 + property_len))))"

text \<open>The loop that appends the reason codes of a SUBACK or an UNSUBACK.\<close>

fun ser_codes :: "u8 list \<Rightarrow> bytes \<Rightarrow> nat \<Rightarrow> u32 \<Rightarrow> (bytes \<times> u32) res" where
  "ser_codes [] dst p local_offset = Inr (dst, local_offset)"
| "ser_codes (c # cs) dst p local_offset =
     rbind (mem_put dst (p + unat local_offset) [c]) (\<lambda>dst. ser_codes cs dst p (local_offset + 1))"

record SubackVH =
  sa_packet_id :: u16
  sa_chain :: MqttPropertyChain
  sa_reason_codes :: "u8 list"

definition new_SubackVH :: "u16 \<Rightarrow> MqttPropertyChain \<Rightarrow> u8 list \<Rightarrow> SubackVH" where
  "new_SubackVH i ch cs = \<lparr>sa_packet_id = i, sa_chain = ch, sa_reason_codes = cs\<rparr>"

definition SubackVH_GetSize :: "SubackVH \<Rightarrow> u32" where
  "SubackVH_GetSize v = 2 + chain_Size (sa_chain v) + of_nat (length (sa_reason_codes v))"

definition SubackVH_Serialize :: "SubackVH \<Rightarrow> bytes \<Rightarrow> nat \<Rightarrow> u32 \<Rightarrow> (bytes \<times> u32) res" where
  "SubackVH_Serialize v dst p offset =
     rbind (mem_put dst p (mem16 (htons (sa_packet_id v)))) (\<lambda>dst.
     rbind (chain_Serialize (sa_chain v) dst (p + 2) 2) (\<lambda>(dst, local_offset).
     rbind (ser_codes (sa_reason_codes v) dst p local_offset) (\<lambda>(dst, local_offset).
     Inr (dst, offset + local_offset))))"

section \<open>PUBACK, PUBREC, PUBREL and PUBCOMP\<close>

record PubackVH =
  pa_packet_id :: u16
  pa_reason_code :: u8
  pa_chain :: MqttPropertyChain

text \<open>The derived class \<open>TypicalVH\<close> adds nothing.\<close>

type_synonym TypicalVH = PubackVH

definition new_PubackVH :: "u16 \<Rightarrow> u8 \<Rightarrow> MqttPropertyChain \<Rightarrow> PubackVH" where
  "new_PubackVH i c ch = \<lparr>pa_packet_id = i, pa_reason_code = c, pa_chain = ch\<rparr>"

definition new_TypicalVH :: "u16 \<Rightarrow> u8 \<Rightarrow> MqttPropertyChain \<Rightarrow> TypicalVH" where
  "new_TypicalVH i c ch = new_PubackVH i c ch"

definition PubackVH_GetSize :: "PubackVH \<Rightarrow> u32" where
  "PubackVH_GetSize v = 2 + 1 + chain_Size (pa_chain v)"

definition PubackVH_Serialize :: "PubackVH \<Rightarrow> bytes \<Rightarrow> nat \<Rightarrow> u32 \<Rightarrow> (bytes \<times> u32) res" where
  "PubackVH_Serialize v dst p offset =
     rbind (mem_put dst p (mem16 (htons (pa_packet_id v)))) (\<lambda>dst.
     rbind (mem_put dst (p + 2) [pa_reason_code v]) (\<lambda>dst.
     rbind (chain_Serialize (pa_chain v) dst (p + 3) 3) (\<lambda>(dst, local_offset).
     Inr (dst, offset + local_offset))))"

text \<open>The reader takes the identifier only: the reason code stays what it was.\<close>

definition PubackVH_ReadFromBuf :: "PubackVH \<Rightarrow> bytes \<Rightarrow> nat \<Rightarrow> u32 \<Rightarrow> (PubackVH \<times> u32) res" where
  "PubackVH_ReadFromBuf v buf p offset =
     rbind (rd_block buf p 2) (\<lambda>i.
     Inr (v\<lparr>pa_packet_id := ntohs (val16 i), pa_chain := Clear (pa_chain v)\<rparr>, offset + 2))"

section \<open>UNSUBSCRIBE and UNSUBACK\<close>

record UnsubscribeVH =
  us_packet_id :: u16
  us_chain :: MqttPropertyChain

definition new_UnsubscribeVH :: "u16 \<Rightarrow> MqttPropertyChain \<Rightarrow> UnsubscribeVH" where
  "new_UnsubscribeVH i ch = \<lparr>us_packet_id = i, us_chain = ch\<rparr>"

definition UnsubscribeVH_GetSize :: "UnsubscribeVH \<Rightarrow> u32" where
  "UnsubscribeVH_GetSize v = 2 + chain_Size (us_chain v)"

definition UnsubscribeVH_Serialize ::
    "UnsubscribeVH \<Rightarrow> bytes \<Rightarrow> nat \<Rightarrow> u32 \<Rightarrow> (bytes \<times> u32) res" where
  "UnsubscribeVH_Serialize v dst p offset =
     rbind (mem_put dst p (mem16 (htons (us_packet_id v)))) (\<lambda>dst.
     rbind (chain_Serialize (us_chain v) dst (p + 2) 2) (\<lambda>(dst, local_offset).
     Inr (dst, offset + local_offset)))"

definition UnsubscribeVH_ReadFromBuf ::
    "UnsubscribeVH \<Rightarrow> bytes \<Rightarrow> nat \<Rightarrow> u32 \<Rightarrow> (UnsubscribeVH \<times> u32) res" where
  "UnsubscribeVH_ReadFromBuf v buf p offset =
     (let ch0 = Clear (us_chain v)
      in rbind (rd_block buf p 2) (\<lambda>i.
         rbind (chain_Create ch0 buf (p + 2)) (\<lambda>(_, property_len, ch).
         Inr (\<lparr>us_packet_id = ntohs (val16 i), us_chain = ch\<rparr>, offset + 2 + property_len))))"

record UnsubAckVH =
  ua_packet_id :: u16
  ua_chain :: MqttPropertyChain
  ua_reason_codes :: "u8 list"

definition new_UnsubAckVH :: "u16 \<Rightarrow> MqttPropertyChain \<Rightarrow> u8 list \<Rightarrow> UnsubAckVH" where
  "new_UnsubAckVH i ch cs = \<lparr>ua_packet_id = i, ua_chain = ch, ua_reason_codes = cs\<rparr>"

definition UnsubAckVH_GetSize :: "UnsubAckVH \<Rightarrow> u32" where
  "UnsubAckVH_GetSize v = 2 + chain_Size (ua_chain v) + of_nat (length (ua_reason_codes v))"

definition UnsubAckVH_Serialize :: "UnsubAckVH \<Rightarrow> bytes \<Rightarrow> nat \<Rightarrow> u32 \<Rightarrow> (bytes \<times> u32) res" where
  "UnsubAckVH_Serialize v dst p offset =
     rbind (mem_put dst p (mem16 (htons (ua_packet_id v)))) (\<lambda>dst.
     rbind (chain_Serialize (ua_chain v) dst (p + 2) 2) (\<lambda>(dst, local_offset).
     rbind (ser_codes (ua_reason_codes v) dst p local_offset) (\<lambda>(dst, local_offset).
     Inr (dst, offset + local_offset))))"

section \<open>The headers of version 3\<close>

record TypicalV3VH =
  v3_packet_id :: u16

definition TypicalV3VH_GetSize :: "TypicalV3VH \<Rightarrow> u32" where
  "TypicalV3VH_GetSize v = 2"

definition TypicalV3VH_Serialize :: "TypicalV3VH \<Rightarrow> bytes \<Rightarrow> nat \<Rightarrow> u32 \<Rightarrow> (bytes \<times> u32) res" where
  "TypicalV3VH_Serialize v dst p offset =
     rbind (mem_put dst p (mem16 (htons (v3_packet_id v)))) (\<lambda>dst. Inr (dst, offset + 2))"

definition TypicalV3VH_ReadFromBuf :: "bytes \<Rightarrow> nat \<Rightarrow> u32 \<Rightarrow> (TypicalV3VH \<times> u32) res" where
  "TypicalV3VH_ReadFromBuf buf p offset =
     rbind (rd_block buf p 2) (\<lambda>i. Inr (\<lparr>v3_packet_id = ntohs (val16 i)\<rparr>, offset + 2))"

record PublishV3VH =
  p3_topic_name :: bytes
  p3_packet_id :: u16

definition read_PublishV3VH :: "bool \<Rightarrow> bytes \<Rightarrow> (PublishV3VH \<times> u32) res" where
  "read_PublishV3VH is_packet_id_present buf =
     rbind (ConvertToHost2Bytes buf 0) (\<lambda>len.
     rbind (rd_block buf 2 (unat len)) (\<lambda>nm.
     let offset = MqttStringEntity_Size nm in
     if is_packet_id_present
     then rbind (ConvertToHost2Bytes buf (unat offset)) (\<lambda>i.
          Inr (\<lparr>p3_topic_name = nm, p3_packet_id = i\<rparr>, offset + 2))
     else Inr (\<lparr>p3_topic_name = nm, p3_packet_id = 0\<rparr>, offset)))"

definition PublishV3VH_GetSize :: "PublishV3VH \<Rightarrow> u32" where
  "PublishV3VH_GetSize v = MqttStringEntity_Size (p3_topic_name v) + 2"

definition PublishV3VH_Serialize :: "PublishV3VH \<Rightarrow> bytes \<Rightarrow> nat \<Rightarrow> u32 \<Rightarrow> (bytes \<times> u32) res" where
  "PublishV3VH_Serialize v dst p offset =
     rbind (MqttStringEntity_Serialize (p3_topic_name v) dst p 0) (\<lambda>(dst, local_offset).
     let offset = offset + local_offset in
     if p3_packet_id v \<noteq> 0
     then rbind (mem_put dst (p + unat local_offset) (mem16 (ntohs (p3_packet_id v))))
            (\<lambda>dst. Inr (dst, offset + 2))
     else Inr (dst, offset))"

section \<open>The class hierarchy\<close>

datatype IVariableHeader =
    Connect_vh ConnectVH
  | Connact_vh ConnactVH
  | Disconnect_vh DisconnectVH
  | Publish_vh PublishVH
  | Subscribe_vh SubscribeVH
  | Suback_vh SubackVH
  | Puback_vh PubackVH
  | Unsubscribe_vh UnsubscribeVH
  | UnsubAck_vh UnsubAckVH
  | TypicalV3_vh TypicalV3VH
  | PublishV3_vh PublishV3VH

primrec vh_GetSize :: "IVariableHeader \<Rightarrow> u32" where
  "vh_GetSize (Connect_vh v) = ConnectVH_GetSize v"
| "vh_GetSize (Connact_vh v) = ConnactVH_GetSize v"
| "vh_GetSize (Disconnect_vh v) = DisconnectVH_GetSize v"
| "vh_GetSize (Publish_vh v) = PublishVH_GetSize v"
| "vh_GetSize (Subscribe_vh v) = SubscribeVH_GetSize v"
| "vh_GetSize (Suback_vh v) = SubackVH_GetSize v"
| "vh_GetSize (Puback_vh v) = PubackVH_GetSize v"
| "vh_GetSize (Unsubscribe_vh v) = UnsubscribeVH_GetSize v"
| "vh_GetSize (UnsubAck_vh v) = UnsubAckVH_GetSize v"
| "vh_GetSize (TypicalV3_vh v) = TypicalV3VH_GetSize v"
| "vh_GetSize (PublishV3_vh v) = PublishV3VH_GetSize v"

primrec vh_Serialize :: "IVariableHeader \<Rightarrow> bytes \<Rightarrow> nat \<Rightarrow> u32 \<Rightarrow> (bytes \<times> u32) res" where
  "vh_Serialize (Connect_vh v) = ConnectVH_Serialize v"
| "vh_Serialize (Connact_vh v) = ConnactVH_Serialize v"
| "vh_Serialize (Disconnect_vh v) = DisconnectVH_Serialize v"
| "vh_Serialize (Publish_vh v) = PublishVH_Serialize v"
| "vh_Serialize (Subscribe_vh v) = SubscribeVH_Serialize v"
| "vh_Serialize (Suback_vh v) = SubackVH_Serialize v"
| "vh_Serialize (Puback_vh v) = PubackVH_Serialize v"
| "vh_Serialize (Unsubscribe_vh v) = UnsubscribeVH_Serialize v"
| "vh_Serialize (UnsubAck_vh v) = UnsubAckVH_Serialize v"
| "vh_Serialize (TypicalV3_vh v) = TypicalV3VH_Serialize v"
| "vh_Serialize (PublishV3_vh v) = PublishV3VH_Serialize v"

section \<open>Encodings\<close>

definition id_enc :: "u16 \<Rightarrow> bytes" where
  "id_enc i = (if i = 0 then [] else be16 i)"

primrec vh_enc :: "IVariableHeader \<Rightarrow> bytes" where
  "vh_enc (Connect_vh v) =
     be16 (prot_name_len v) @ vh_name v @ [version v, conn_flags v] @ be16 (vh_alive v)"
| "vh_enc (Connact_vh v) = [conn_acknowledge_flags v, ca_reason_code v] @ chain_enc (ca_chain v)"
| "vh_enc (Disconnect_vh v) = di_reason_code v # chain_enc (di_chain v)"
| "vh_enc (Publish_vh v) =
     str_enc (topic_name v) @ id_enc (pu_packet_id v) @ chain_enc (pu_chain v)"
| "vh_enc (Subscribe_vh v) = id_enc (sub_packet_id v) @ chain_enc (sub_chain v)"
| "vh_enc (Suback_vh v) = be16 (sa_packet_id v) @ chain_enc (sa_chain v) @ sa_reason_codes v"
| "vh_enc (Puback_vh v) = be16 (pa_packet_id v) @ pa_reason_code v # chain_enc (pa_chain v)"
| "vh_enc (Unsubscribe_vh v) = be16 (us_packet_id v) @ chain_enc (us_chain v)"
| "vh_enc (UnsubAck_vh v) = be16 (ua_packet_id v) @ chain_enc (ua_chain v) @ ua_reason_codes v"
| "vh_enc (TypicalV3_vh v) = be16 (v3_packet_id v)"
| "vh_enc (PublishV3_vh v) = str_enc (p3_topic_name v) @ id_enc (p3_packet_id v)"

primrec vh_chain :: "IVariableHeader \<Rightarrow> MqttPropertyChain" where
  "vh_chain (Connect_vh v) = []"
| "vh_chain (Connact_vh v) = ca_chain v"
| "vh_chain (Disconnect_vh v) = di_chain v"
| "vh_chain (Publish_vh v) = pu_chain v"
| "vh_chain (Subscribe_vh v) = sub_chain v"
| "vh_chain (Suback_vh v) = sa_chain v"
| "vh_chain (Puback_vh v) = pa_chain v"
| "vh_chain (Unsubscribe_vh v) = us_chain v"
| "vh_chain (UnsubAck_vh v) = ua_chain v"
| "vh_chain (TypicalV3_vh v) = []"
| "vh_chain (PublishV3_vh v) = []"

text \<open>Headers whose array of characters has four and whose parts the counters can hold.\<close>

definition vh_ok :: "IVariableHeader \<Rightarrow> bool" where
  "vh_ok v \<longleftrightarrow> chain_ok (vh_chain v) \<and> length (vh_enc v) < 2 ^ 32 \<and>
     (\<forall>c. v = Connect_vh c \<longrightarrow> length (vh_name c) = 4)"

text \<open>Headers that announce what they write.\<close>

fun vh_exact :: "IVariableHeader \<Rightarrow> bool" where
  "vh_exact (Publish_vh v) \<longleftrightarrow> pu_packet_id v \<noteq> 0"
| "vh_exact (PublishV3_vh v) \<longleftrightarrow> p3_packet_id v \<noteq> 0"
| "vh_exact (Subscribe_vh v) \<longleftrightarrow> False"
| "vh_exact v \<longleftrightarrow> True"

lemma length_id_enc: "length (id_enc i) = (if i = 0 then 0 else 2)"
  by (simp add: id_enc_def)

lemma mem_put_seq:
  "q = p + length as \<Longrightarrow>
    rbind (mem_put dst p as) (\<lambda>d. rbind (mem_put d q bs) f) = rbind (mem_put dst p (as @ bs)) f"
  by (simp add: rbind_assoc [symmetric] mem_put_mem_put)

lemma ser_codes_put:
  assumes "length as + length cs < 2 ^ 32"
  shows "rbind (mem_put dst p as) (\<lambda>d. rbind (ser_codes cs d p (of_nat (length as))) f) =
    rbind (mem_put dst p (as @ cs)) (\<lambda>d. f (d, of_nat (length as + length cs)))"
  using assms
proof (induction cs arbitrary: as)
  case (Cons c cs)
  have pos: "unat (of_nat (length as) :: u32) = length as"
    using Cons.prems by (intro unat_of_nat32) simp
  have "rbind (mem_put dst p as) (\<lambda>d. rbind (ser_codes (c # cs) d p (of_nat (length as))) f) =
      rbind (mem_put dst p (as @ [c]))
        (\<lambda>d. rbind (ser_codes cs d p (of_nat (length (as @ [c])))) f)"
    by (simp add: rbind_assoc pos mem_put_seq ac_simps)
  with Cons.IH [of "as @ [c]"] Cons.prems show ?case by simp
qed simp

lemma ser_codes_after:
  assumes "n = of_nat (length as)" and "length as + length cs < 2 ^ 32"
  shows "rbind (mem_put dst p as) (\<lambda>d. rbind (ser_codes cs d p n) f) =
    rbind (mem_put dst p (as @ cs)) (\<lambda>d. f (d, of_nat (length as + length cs)))"
  using ser_codes_put assms by blast

lemmas vh_Serialize_defs = ConnectVH_Serialize_def ConnactVH_Serialize_def DisconnectVH_Serialize_def
  PublishVH_Serialize_def SubscribeVH_Serialize_def SubackVH_Serialize_def PubackVH_Serialize_def
  UnsubscribeVH_Serialize_def UnsubAckVH_Serialize_def TypicalV3VH_Serialize_def
  PublishV3VH_Serialize_def

lemmas vh_GetSize_defs = ConnectVH_GetSize_def ConnactVH_GetSize_def DisconnectVH_GetSize_def
  PublishVH_GetSize_def SubscribeVH_GetSize_def SubackVH_GetSize_def PubackVH_GetSize_def
  UnsubscribeVH_GetSize_def UnsubAckVH_GetSize_def TypicalV3VH_GetSize_def PublishV3VH_GetSize_def

interpretation vh: serializer vh_Serialize vh_enc vh_ok
proof
  fix v dst p off
  assume ok: "vh_ok v"
  have len: "length (vh_enc v) < 2 ^ 32" using ok by (simp add: vh_ok_def)
  have pos: "unat (2 + of_nat n :: u32) = 2 + n" if "2 + n < 2 ^ 32" for n
    using unat_of_nat32 [OF that] by simp
  have pos4: "unat (4 + of_nat n :: u32) = 4 + n" if "4 + n < 2 ^ 32" for n
    using unat_of_nat32 [OF that] by simp
  show "vh_Serialize v dst p off = emit (vh_enc v) dst p off"
    using ok len
    by (cases v) (auto simp: vh_Serialize_defs Let_def rbind_assoc chain.ser_emit
        string_Serialize_emit emit_def mem_put_seq mem16_htons ser_codes_after vh_ok_def
        id_enc_def pos pos4 add.assoc)
qed

interpretation vhs: sized_serializer vh_Serialize vh_enc "\<lambda>v. vh_ok v \<and> vh_exact v" vh_GetSize
proof unfold_locales
  fix v dst p off
  assume ok: "vh_ok v \<and> vh_exact v"
  then show "vh_Serialize v dst p off = emit (vh_enc v) dst p off" by (simp add: vh.ser_emit)
  show "vh_GetSize v = of_nat (length (vh_enc v))"
    using ok by (cases v) (simp_all add: vh_GetSize_defs vh_ok_def chain.size_of string_Size_enc length_id_enc)
qed

section \<open>The readers\<close>

lemma ConnectVH_ReadFromBuf_enc:
  assumes "length (vh_name v) = 4"
  shows "ConnectVH_ReadFromBuf (xs @ vh_enc (Connect_vh v) @ ys) (length xs) off = Inr (v, off + 10)"
  using assms
  by (simp add: ConnectVH_ReadFromBuf_def ConnectVH_GetSize_def rd_block_def rd8_def nth_append Let_def)

lemma PubackVH_ReadFromBuf_enc:
  "PubackVH_ReadFromBuf w (vh_enc (Puback_vh v) @ ys) 0 off =
    Inr (w\<lparr>pa_packet_id := pa_packet_id v, pa_chain := []\<rparr>, off + 2)"
  by (simp add: PubackVH_ReadFromBuf_def mem_simps Clear_def)

definition chain_readable :: "MqttPropertyChain \<Rightarrow> bool" where
  "chain_readable ch \<longleftrightarrow> chain_ok ch \<and> chain_inv ch \<and> (\<forall>q\<in>set ch. prop_wf q)"

lemma chain_Create_readable:
  assumes "chain_readable ch" and "p = length xs"
  shows "chain_Create [] (xs @ chain_enc ch @ ys) p = Inr (mqtt_ok, of_nat (length (chain_enc ch)), ch)"
  using assms chain_Create_enc by (simp add: chain_readable_def)

lemma read_PublishVH_enc:
  assumes "chain_readable (pu_chain v)" and "length (topic_name v) < 2 ^ 16"
    and "present \<longleftrightarrow> pu_packet_id v \<noteq> 0"
  shows "read_PublishVH present (vh_enc (Publish_vh v) @ ys) =
    Inr (v, of_nat (length (vh_enc (Publish_vh v))))"
proof -
  define s where "s = topic_name v"
  define i where "i = pu_packet_id v"
  define ch where "ch = pu_chain v"
  define buf where "buf = str_enc s @ id_enc i @ chain_enc ch @ ys"
  have len: "length s < 2 ^ 16" "unat (of_nat (length s) :: u16) = length s"
    using assms(2) by (simp_all add: s_def)
  have size: "MqttStringEntity_Size s = of_nat (length (str_enc s))"
    by (rule string_Size_enc)
  have pos: "unat (of_nat (length (str_enc s)) :: u32) = length (str_enc s)"
    "unat (of_nat (length (str_enc s)) + 2 :: u32) = length (str_enc s) + 2"
    using unat_of_nat32 [of "length (str_enc s)"] unat_of_nat32 [of "length (str_enc s) + 2"] len(1)
    by (simp_all add: add.commute)
  have head: "ConvertToHost2Bytes buf 0 = Inr (of_nat (length s))"
    using ConvertToHost2Bytes_be16 [of 0 "[]"] by (simp add: buf_def str_enc_def)
  have name: "rd_block buf 2 (length s) = Inr s"
    by (simp add: buf_def str_enc_def mem_simps)
  have ident: "i \<noteq> 0 \<Longrightarrow> ConvertToHost2Bytes buf (length (str_enc s)) = Inr i"
    using ConvertToHost2Bytes_be16 [of "length (str_enc s)" "str_enc s"] by (simp add: buf_def id_enc_def)
  have chain: "chain_Create [] buf (length (str_enc s @ id_enc i)) =
      Inr (mqtt_ok, of_nat (length (chain_enc ch)), ch)"
    using chain_Create_readable [of ch _ "str_enc s @ id_enc i" ys] assms(1)
    by (simp add: buf_def ch_def)
  have "read_PublishVH present buf = Inr (\<lparr>topic_name = s, pu_packet_id = i, pu_chain = ch\<rparr>,
      of_nat (length (str_enc s @ id_enc i @ chain_enc ch)))"
  proof (cases "i = 0")
    case True
    with assms(3) chain show ?thesis
      by (simp add: read_PublishVH_def head name size pos len i_def [symmetric] id_enc_def
          new_PublishVH_def del: length_str_enc)
  next
    case False
    with assms(3) chain show ?thesis
      by (simp add: read_PublishVH_def head name size pos len ident i_def [symmetric] id_enc_def
          new_PublishVH_def add.assoc del: length_str_enc)
  qed
  then show ?thesis by (simp add: buf_def s_def i_def ch_def)
qed

lemma read_SubscribeVH_enc:
  assumes "chain_readable (sub_chain v)" and "sub_packet_id v \<noteq> 0"
  shows "read_SubscribeVH (vh_enc (Subscribe_vh v) @ ys) =
    Inr (v, of_nat (length (vh_enc (Subscribe_vh v))))"
  using chain_Create_readable [OF assms(1), of 2 "be16 (sub_packet_id v)" ys] assms(2)
  by (simp add: read_SubscribeVH_def id_enc_def mem_simps)

lemma UnsubscribeVH_ReadFromBuf_enc:
  assumes "chain_readable (us_chain v)"
  shows "UnsubscribeVH_ReadFromBuf w (vh_enc (Unsubscribe_vh v) @ ys) 0 0 =
    Inr (v, of_nat (length (vh_enc (Unsubscribe_vh v))))"
  using chain_Create_readable [OF assms(1), of "Suc (Suc 0)" "be16 (us_packet_id v)" ys]
  by (simp add: UnsubscribeVH_ReadFromBuf_def mem_simps Clear_def)

text \<open>A reader never reports an offset past the buffer.\<close>

lemma read_PublishVH_bound:
  assumes "read_PublishVH present buf = Inr (v, offset)" and "length buf < 2 ^ 32"
  shows "unat offset \<le> length buf"
proof -
  obtain len nm i o1 e s ch where
    nm: "rd_block buf 2 (unat (len :: u16)) = Inr nm"
    and o1: "(if present then rbind (ConvertToHost2Bytes buf (unat (MqttStringEntity_Size nm)))
        (\<lambda>i. Inr (i, MqttStringEntity_Size nm + 2)) else Inr (0, MqttStringEntity_Size nm)) = Inr (i, o1)"
    and ch: "chain_Create [] buf (unat o1) = Inr (e, s, ch)" and off: "offset = o1 + s"
    using assms(1) by (auto simp: read_PublishVH_def rbind_eq_Inr Let_def)
  have n: "2 + length nm \<le> length buf" using rd_block_InrD [OF nm] by simp
  then have size: "unat (MqttStringEntity_Size nm) = 2 + length nm"
    using unat_of_nat32 [of "2 + length nm"] assms(2) by (simp add: MqttStringEntity_Size_def)
  have "unat o1 \<le> length buf"
    using o1 n size unat_add_le [of "MqttStringEntity_Size nm" 2]
    by (auto simp: rbind_eq_Inr split: if_splits dest!: ConvertToHost2Bytes_InrD)
  from chain_Create_bound [OF ch this] show ?thesis
    using unat_add_le [of o1 s] off by simp
qed

end
