(* ===== verification/Fixed_Header.thy ===== *)
theory Fixed_Header
  imports Var_Int
begin

text \<open>
  The fixed header of a packet and its builder (\<open>src/mqtt_fixed_header.cpp\<close>): the type and
  flag fields of the first byte, the remaining length, and their serialization.
\<close>

record FixedHeader =
  first :: u8
  remaining_len :: u32

definition new_FixedHeader :: "u8 \<Rightarrow> FixedHeader" where
  "new_FixedHeader f = \<lparr>first = f, remaining_len = 0\<rparr>"

definition isDUP :: "FixedHeader \<Rightarrow> bool" where
  "isDUP h \<longleftrightarrow> first h AND 0x08 \<noteq> 0"

definition QoS :: "FixedHeader \<Rightarrow> u8" where
  "QoS h = drop_bit 1 (first h AND 0x06)"

definition isRETAIN :: "FixedHeader \<Rightarrow> bool" where
  "isRETAIN h \<longleftrightarrow> first h AND 0x01 \<noteq> 0"

definition FixedHeader_Get :: "FixedHeader \<Rightarrow> u8" where
  "FixedHeader_Get h = first h"

definition GetType :: "FixedHeader \<Rightarrow> u8" where
  "GetType h = drop_bit 4 (first h)"

definition GetFlags :: "FixedHeader \<Rightarrow> u8" where
  "GetFlags h = first h AND 0x0F"

definition isIdentifier :: "FixedHeader \<Rightarrow> bool" where
  "isIdentifier h \<longleftrightarrow>
     (let type = GetType h in
      (type \<ge> pack_code PUBACK \<and> type \<le> pack_code UNSUBACK) \<or>
      (type = pack_code PUBLISH \<and> QoS h > 0))"

definition isProperties :: "FixedHeader \<Rightarrow> bool" where
  "isProperties h \<longleftrightarrow>
     (let type = GetType h in
      (type \<ge> pack_code CONNECT \<and> type \<le> pack_code UNSUBACK) \<or>
      type = pack_code DISCONNECT \<or> type = pack_code AUTH)"

definition SetRemainingLen :: "u32 \<Rightarrow> FixedHeader \<Rightarrow> FixedHeader" where
  "SetRemainingLen len h = h\<lparr>remaining_len := len\<rparr>"

definition FixedHeader_Serialize :: "FixedHeader \<Rightarrow> bytes \<Rightarrow> nat \<Rightarrow> u32 \<Rightarrow> (bytes \<times> u32) res" where
  "FixedHeader_Serialize h dst p offset =
     rbind (mem_put dst p [first h]) (\<lambda>dst.
     rbind (CodeVarInt dst (p + 1) (remaining_len h)) (\<lambda>(dst, size).
     Inr (dst, offset + (1 + ucast size))))"

definition FixedHeader_Size :: "FixedHeader \<Rightarrow> u32" where
  "FixedHeader_Size h = ucast (GetVarIntSize (remaining_len h)) + 1"

section \<open>The builder\<close>

definition FHBuilder :: FixedHeader where
  "FHBuilder = new_FixedHeader 0"

definition PacketType :: "u8 \<Rightarrow> FixedHeader \<Rightarrow> FixedHeader" where
  "PacketType type h = h\<lparr>first := first h OR push_bit 4 type\<rparr>"

definition WithDup :: "FixedHeader \<Rightarrow> FixedHeader" where
  "WithDup h = h\<lparr>first := first h OR DUP_FLAG\<rparr>"

definition WithQoS :: "u8 \<Rightarrow> FixedHeader \<Rightarrow> FixedHeader" where
  "WithQoS qos h = h\<lparr>first := first h OR push_bit 1 qos\<rparr>"

definition WithRetain :: "FixedHeader \<Rightarrow> FixedHeader" where
  "WithRetain h = h\<lparr>first := first h OR RETAIN_FLAG\<rparr>"

definition Build :: "FixedHeader \<Rightarrow> u8" where
  "Build h = first h"

section \<open>Serialization\<close>

definition fixed_enc :: "FixedHeader \<Rightarrow> bytes" where
  "fixed_enc h = first h # vint (unat (remaining_len h))"

interpretation fixed: sized_serializer FixedHeader_Serialize fixed_enc "\<lambda>_. True" FixedHeader_Size
proof unfold_locales
  fix h :: FixedHeader and dst p off
  have "FixedHeader_Serialize h dst p off =
      rbind (rbind (mem_put dst p [first h])
          (\<lambda>d. mem_put d (p + 1) (vint (unat (remaining_len h)))))
        (\<lambda>d. Inr (d, off + (1 + of_nat (length (vint (unat (remaining_len h)))))))"
    by (simp add: FixedHeader_Serialize_def CodeVarInt_vint rbind_assoc
        ucast_of_nat_u8_u32 length_vint_u32_small)
  then show "FixedHeader_Serialize h dst p off = emit (fixed_enc h) dst p off"
    by (simp add: mem_put_Cons emit_def fixed_enc_def)
  show "FixedHeader_Size h = of_nat (length (fixed_enc h))"
    by (simp add: FixedHeader_Size_def GetVarIntSize_vint fixed_enc_def
        ucast_of_nat_u8_u32 length_vint_u32_small)
qed

lemma length_fixed_enc: "length (fixed_enc h) \<le> 6"
  using length_vint_u32 [of "remaining_len h"] by (simp add: fixed_enc_def)

section \<open>The fields of the first byte\<close>

lemma u8_less4_cases: "(q :: u8) < 4 \<Longrightarrow> q = 0 \<or> q = 1 \<or> q = 2 \<or> q = 3"
proof -
  assume "q < 4"
  then have "unat q < 4" by (simp add: word_less_nat_alt)
  then have "unat q = 0 \<or> unat q = 1 \<or> unat q = 2 \<or> unat q = 3" by linarith
  then show ?thesis by (auto simp: word_unat_eq_iff)
qed

lemma GetType_bound: "GetType h < 16"
proof -
  have "unat (first h) < 256" using unsigned_less [of "first h", where 'a = nat] by simp
  then have "unat (first h) div 2 ^ 4 < 16" by simp
  then have "unat (GetType h) < 16" unfolding GetType_def unat_drop_bit_u8 .
  then show ?thesis by (simp add: word_less_nat_alt)
qed

lemma QoS_bound: "QoS h < 4"
proof -
  have "first h AND 0x06 \<le> 0x06" by (rule word_and_le1)
  then have "unat (first h AND 0x06) div 2 ^ 1 < 4"
    by (simp add: word_le_nat_alt)
  then have "unat (QoS h) < 4" unfolding QoS_def unat_drop_bit_u8 .
  then show ?thesis by (simp add: word_less_nat_alt)
qed

text \<open>
  The builder puts type, qos and dup where the header's accessors look for them, as long as
  the type has four bits and the qos two.
\<close>

definition built :: "u8 \<Rightarrow> u8 \<Rightarrow> bool \<Rightarrow> FixedHeader" where
  "built t q dup =
     new_FixedHeader (Build ((if dup then WithDup else id) (WithQoS q (PacketType t FHBuilder))))"

lemmas builder_defs = built_def Build_def WithQoS_def WithDup_def WithRetain_def PacketType_def
  FHBuilder_def new_FixedHeader_def DUP_FLAG_def RETAIN_FLAG_def

lemma u8_less16_cases:
  assumes "(t :: u8) < 16"
  shows "t = 0 \<or> t = 1 \<or> t = 2 \<or> t = 3 \<or> t = 4 \<or> t = 5 \<or> t = 6 \<or> t = 7 \<or>
    t = 8 \<or> t = 9 \<or> t = 10 \<or> t = 11 \<or> t = 12 \<or> t = 13 \<or> t = 14 \<or> t = 15"
proof -
  from assms have "unat t < 16" by (simp add: word_less_nat_alt)
  then have "unat t = 0 \<or> unat t = 1 \<or> unat t = 2 \<or> unat t = 3 \<or> unat t = 4 \<or> unat t = 5 \<or>
    unat t = 6 \<or> unat t = 7 \<or> unat t = 8 \<or> unat t = 9 \<or> unat t = 10 \<or> unat t = 11 \<or>
    unat t = 12 \<or> unat t = 13 \<or> unat t = 14 \<or> unat t = 15" by presburger
  then show ?thesis by (simp add: word_unat_eq_iff)
qed

lemma built_fields:
  assumes "t < 16" and "q < 4"
  shows "GetType (built t q dup) = t" "QoS (built t q dup) = q"
    "isDUP (built t q dup) = dup" "\<not> isRETAIN (built t q dup)"
proof -
  have "GetType (built t q dup) = t \<and> QoS (built t q dup) = q \<and>
      isDUP (built t q dup) = dup \<and> \<not> isRETAIN (built t q dup)"
    using u8_less16_cases [OF assms(1)] u8_less4_cases [OF assms(2)]
    by (elim disjE; cases dup)
      (simp_all add: builder_defs GetType_def QoS_def isDUP_def isRETAIN_def)
  then show "GetType (built t q dup) = t" "QoS (built t q dup) = q"
    "isDUP (built t q dup) = dup" "\<not> isRETAIN (built t q dup)" by blast+
qed

end
