(* ===== verification/Packets.thy ===== *)
theory Packets
  imports Variable_Headers Fixed_Header
begin

text \<open>
  The three overloads of \<open>CreateMqttPacket\<close>: the size is computed from what the headers
  announce, a block of that size is allocated, the parts are written one after the other and the
  program asserts that the bytes written are the bytes announced. The contents of the fresh block
  are indeterminate in C++; zeros stand for them, and no result below depends on them.
\<close>

section \<open>The constructors of packets\<close>

definition new_block :: "u32 \<Rightarrow> bytes" where
  "new_block n = replicate (unat n) 0"

definition CreateMqttPacket_vh :: "u8 \<Rightarrow> IVariableHeader \<Rightarrow> (bytes \<times> u32) res" where
  "CreateMqttPacket_vh pack_type vh =
     (let fh = new_FixedHeader pack_type;
          size = vh_GetSize vh;
          fh = fh\<lparr>remaining_len := size\<rparr>;
          size = size + FixedHeader_Size fh;
          ptr = new_block size
      in rbind (FixedHeader_Serialize fh ptr 0 0) (\<lambda>(ptr, offset).
         rbind (vh_Serialize vh ptr (unat offset) offset) (\<lambda>(ptr, offset).
         if size = offset then Inr (ptr, size) else Inl AssertFail)))"

definition CreateMqttPacket :: "u8 \<Rightarrow> (bytes \<times> u32) res" where
  "CreateMqttPacket pack_type =
     (let fh = new_FixedHeader pack_type;
          size = 0;
          fh = fh\<lparr>remaining_len := size\<rparr>;
          size = size + FixedHeader_Size fh;
          ptr = new_block size
      in rbind (FixedHeader_Serialize fh ptr 0 0) (\<lambda>(ptr, offset). Inr (ptr, size)))"

text \<open>The message is behind a pointer that may be null.\<close>

definition CreateMqttPacket_msg ::
    "u8 \<Rightarrow> IVariableHeader \<Rightarrow> bytes option \<Rightarrow> (bytes \<times> u32) res" where
  "CreateMqttPacket_msg pack_type vh message =
     rbind (deref message) (\<lambda>msg.
     let fh = new_FixedHeader pack_type;
         size = vh_GetSize vh + MqttBinaryDataEntity_Size msg - 2;
         size = (if QoS fh = 0 then size - 2 else size);
         fh = fh\<lparr>remaining_len := size\<rparr>;
         size = size + FixedHeader_Size fh;
         ptr = new_block size
     in rbind (FixedHeader_Serialize fh ptr 0 0) (\<lambda>(ptr, offset).
        rbind (vh_Serialize vh ptr (unat offset) offset) (\<lambda>(ptr, offset).
        rbind (SerializeWithoutLen msg ptr (unat offset) offset) (\<lambda>(ptr, offset).
        if size = offset then Inr (ptr, size) else Inl AssertFail))))"

section \<open>What they produce\<close>

definition packet_enc :: "u8 \<Rightarrow> bytes \<Rightarrow> bytes" where
  "packet_enc pack_type body =
     fixed_enc \<lparr>first = pack_type, remaining_len = of_nat (length body)\<rparr> @ body"

lemma length_packet_enc: "length (packet_enc t body) \<le> 6 + length body"
  using length_fixed_enc by (simp add: packet_enc_def)

lemma emit_next:
  assumes "length as < 2 ^ 32"
  shows "rbind (emit as dst 0 0) (\<lambda>(d, o'). emit bs d (unat o') o') = emit (as @ bs) dst 0 0"
proof -
  have "rbind (emit as dst 0 0) (\<lambda>(d, o'). emit bs d (unat o') o') =
      rbind (emit as dst 0 0) (\<lambda>(d, o'). emit bs d (length as) o')"
    using assms by (simp add: emit_def rbind_assoc)
  then show ?thesis by (simp add: emit_emit)
qed

lemma emit_then:
  assumes "length as < 2 ^ 32"
  shows "rbind (emit as dst 0 0) (\<lambda>(d, o'). rbind (emit bs d (unat o') o') f) =
    rbind (emit (as @ bs) dst 0 0) f"
  unfolding emit_next [OF assms, symmetric] by (simp add: rbind_assoc case_prod_unfold)

text \<open>
  Allocate, write and compare: the outcome depends on the announced size alone, which is right,
  too large (the assertion fails) or too small (a write past the block).
\<close>

definition fill :: "bytes \<Rightarrow> u32 \<Rightarrow> (bytes \<times> u32) res" where
  "fill bs n = rbind (emit bs (new_block n) 0 0)
     (\<lambda>(ptr, offset). if n = offset then Inr (ptr, n) else Inl AssertFail)"

lemma fill_exact: "length bs < 2 ^ 32 \<Longrightarrow> n = of_nat (length bs) \<Longrightarrow> fill bs n = Inr (bs, n)"
  by (simp add: fill_def emit_fresh new_block_def)

lemma fill_short: "unat n < length bs \<Longrightarrow> fill bs n = Inl OobWrite"
  by (simp add: fill_def emit_def mem_put_def new_block_def)

lemma fill_long:
  assumes "length bs < unat n"
  shows "fill bs n = Inl AssertFail"
proof -
  have "length bs < 2 ^ 32" using assms unsigned_less [of n, where 'a = nat] by simp
  then have "unat (of_nat (length bs) :: u32) = length bs" by (rule unat_of_nat32)
  then have "n \<noteq> of_nat (length bs)" using assms by auto
  with assms show ?thesis by (simp add: fill_def emit_def mem_put_def new_block_def)
qed

lemma CreateMqttPacket_vh_fill:
  assumes "vh_ok v" and "length (vh_enc v) + 6 < 2 ^ 32" and "h = \<lparr>first = t, remaining_len = vh_GetSize v\<rparr>"
  shows "CreateMqttPacket_vh t v =
    fill (fixed_enc h @ vh_enc v) (vh_GetSize v + FixedHeader_Size h)"
proof -
  have len: "length (fixed_enc h) < 2 ^ 32" using length_fixed_enc [of h] by simp
  have "(new_FixedHeader t)\<lparr>remaining_len := vh_GetSize v\<rparr> = h"
    by (simp add: new_FixedHeader_def assms(3))
  then show ?thesis
    using assms(1) by (simp add: CreateMqttPacket_vh_def Let_def fixed.ser_emit vh.ser_emit fill_def
        emit_then [OF len] cong: if_cong)
qed

lemma CreateMqttPacket_vh_exact:
  assumes "vh_ok v" "vh_exact v" and "length (vh_enc v) + 6 < 2 ^ 32"
  shows "CreateMqttPacket_vh t v = Inr (packet_enc t (vh_enc v), of_nat (length (packet_enc t (vh_enc v))))"
proof -
  define h where "h = \<lparr>first = t, remaining_len = vh_GetSize v\<rparr>"
  have size: "vh_GetSize v = of_nat (length (vh_enc v))" using assms by (simp add: vhs.size_of)
  have enc: "fixed_enc h @ vh_enc v = packet_enc t (vh_enc v)"
    by (simp add: packet_enc_def h_def size)
  have "vh_GetSize v + FixedHeader_Size h = of_nat (length (packet_enc t (vh_enc v)))"
    by (simp add: enc [symmetric] size fixed.size_of)
  then show ?thesis
    using CreateMqttPacket_vh_fill [OF assms(1,3) h_def] length_packet_enc [of t "vh_enc v"] assms(3)
    by (simp add: enc fill_exact)
qed

lemma CreateMqttPacket_empty: "CreateMqttPacket t = Inr (packet_enc t [], 2)"
proof -
  have "FixedHeader_Size \<lparr>first = t, remaining_len = 0\<rparr> = 2"
    by (simp add: fixed.size_of fixed_enc_def vint_small)
  moreover have "fixed_enc \<lparr>first = t, remaining_len = 0\<rparr> = packet_enc t []"
    by (simp add: packet_enc_def)
  moreover have "length (packet_enc t []) = 2" by (simp add: packet_enc_def fixed_enc_def vint_small)
  ultimately show ?thesis
    by (simp add: CreateMqttPacket_def new_FixedHeader_def fixed.ser_emit emit_fresh new_block_def)
qed

section \<open>PUBLISH packets\<close>

definition publish_size :: "u8 \<Rightarrow> PublishVH \<Rightarrow> bytes \<Rightarrow> u32" where
  "publish_size t v m =
     (let size = vh_GetSize (Publish_vh v) + MqttBinaryDataEntity_Size m - 2
      in if QoS (new_FixedHeader t) = 0 then size - 2 else size)"

definition publish_body :: "PublishVH \<Rightarrow> bytes \<Rightarrow> bytes" where
  "publish_body v m = vh_enc (Publish_vh v) @ m"

lemma CreateMqttPacket_msg_fill:
  assumes "vh_ok (Publish_vh v)" and "length (publish_body v m) + 6 < 2 ^ 32"
    and "h = \<lparr>first = t, remaining_len = publish_size t v m\<rparr>"
  shows "CreateMqttPacket_msg t (Publish_vh v) (Some m) =
    fill (fixed_enc h @ publish_body v m) (publish_size t v m + FixedHeader_Size h)"
proof -
  have len: "length (fixed_enc h) < 2 ^ 32" "length (fixed_enc h @ vh_enc (Publish_vh v)) < 2 ^ 32"
    using length_fixed_enc [of h] assms(2) by (simp_all add: publish_body_def)
  have h: "(new_FixedHeader t)\<lparr>remaining_len := publish_size t v m\<rparr> = h"
    by (simp add: new_FixedHeader_def assms(3))
  show ?thesis
  proof (cases "QoS (new_FixedHeader t) = 0")
    case True
    then have "vh_GetSize (Publish_vh v) + MqttBinaryDataEntity_Size m - 2 - 2 = publish_size t v m"
      by (simp add: publish_size_def)
    with assms(1) True h show ?thesis
      unfolding CreateMqttPacket_msg_def fill_def publish_body_def
      by (simp add: Let_def fixed.ser_emit vh.ser_emit SerializeWithoutLen_emit
          emit_then [OF len(1)] emit_then [OF len(2), simplified append_assoc]
          del: vh_enc.simps vh_GetSize.simps vh_Serialize.simps cong: if_cong)
  next
    case False
    then have "vh_GetSize (Publish_vh v) + MqttBinaryDataEntity_Size m - 2 = publish_size t v m"
      by (simp add: publish_size_def)
    with assms(1) False h show ?thesis
      unfolding CreateMqttPacket_msg_def fill_def publish_body_def
      by (simp add: Let_def fixed.ser_emit vh.ser_emit SerializeWithoutLen_emit
          emit_then [OF len(1)] emit_then [OF len(2), simplified append_assoc]
          del: vh_enc.simps vh_GetSize.simps vh_Serialize.simps cong: if_cong)
  qed
qed

text \<open>The announced size is the written one exactly when the identifier is there iff the qos is.\<close>

lemma publish_size_cases:
  assumes "chain_ok (pu_chain v)"
  shows "publish_size t v m = of_nat (length (publish_body v m)) +
    (if pu_packet_id v = 0 then 2 else 0) - (if QoS (new_FixedHeader t) = 0 then 2 else 0)"
  using assms by (simp add: publish_size_def Let_def PublishVH_GetSize_def publish_body_def
      chain.size_of string_Size_enc MqttBinaryDataEntity_Size_def length_id_enc)

lemma CreateMqttPacket_msg_exact:
  assumes "vh_ok (Publish_vh v)" and "length (publish_body v m) + 6 < 2 ^ 32"
    and "pu_packet_id v = 0 \<longleftrightarrow> QoS (new_FixedHeader t) = 0"
  shows "CreateMqttPacket_msg t (Publish_vh v) (Some m) =
    Inr (packet_enc t (publish_body v m), of_nat (length (packet_enc t (publish_body v m))))"
proof -
  define h where "h = \<lparr>first = t, remaining_len = publish_size t v m\<rparr>"
  have size: "publish_size t v m = of_nat (length (publish_body v m))"
    using publish_size_cases [of v t m] assms by (auto simp: vh_ok_def)
  have enc: "fixed_enc h @ publish_body v m = packet_enc t (publish_body v m)"
    by (simp add: packet_enc_def h_def size)
  have "publish_size t v m + FixedHeader_Size h = of_nat (length (packet_enc t (publish_body v m)))"
    by (simp add: enc [symmetric] size fixed.size_of)
  then show ?thesis
    using CreateMqttPacket_msg_fill [OF assms(1,2) h_def] length_packet_enc [of t "publish_body v m"]
      assms(2)
    by (simp add: enc fill_exact)
qed

text \<open>Without an identifier under a qos the program aborts.\<close>

lemma CreateMqttPacket_msg_abort:
  assumes "vh_ok (Publish_vh v)" and "length (publish_body v m) + 8 < 2 ^ 32"
    and "pu_packet_id v = 0" and "QoS (new_FixedHeader t) \<noteq> 0"
  shows "CreateMqttPacket_msg t (Publish_vh v) (Some m) = Inl AssertFail"
proof -
  define h where "h = \<lparr>first = t, remaining_len = publish_size t v m\<rparr>"
  have size: "publish_size t v m = of_nat (length (publish_body v m) + 2)"
    using publish_size_cases [of v t m] assms by (auto simp: vh_ok_def add.commute)
  have len: "length (fixed_enc h) + length (publish_body v m) + 2 < 2 ^ 32"
    using length_fixed_enc [of h] assms(2) by simp
  have "publish_size t v m + FixedHeader_Size h =
      of_nat (length (fixed_enc h) + length (publish_body v m) + 2)"
    by (simp add: size fixed.size_of)
  also have "unat \<dots> = length (fixed_enc h) + length (publish_body v m) + 2"
    using len by (rule unat_of_nat32)
  finally show ?thesis
    using CreateMqttPacket_msg_fill [OF assms(1) _ h_def] assms(2) by (simp add: fill_long)
qed

text \<open>With one where the header says qos 0, it writes past the block.\<close>

lemma CreateMqttPacket_msg_overrun:
  assumes "vh_ok (Publish_vh v)" and "length (publish_body v m) + 6 < 2 ^ 32"
    and "pu_packet_id v \<noteq> 0" and "QoS (new_FixedHeader t) = 0"
  shows "CreateMqttPacket_msg t (Publish_vh v) (Some m) = Inl OobWrite"
proof -
  define h where "h = \<lparr>first = t, remaining_len = publish_size t v m\<rparr>"
  have body: "4 \<le> length (publish_body v m)"
    using assms(3) by (simp add: publish_body_def length_id_enc)
  then have size: "publish_size t v m = of_nat (length (publish_body v m) - 2)"
    using publish_size_cases [of v t m] assms by (auto simp: vh_ok_def of_nat_diff)
  have len: "length (fixed_enc h) + (length (publish_body v m) - 2) < 2 ^ 32"
    using length_fixed_enc [of h] assms(2) by simp
  have "publish_size t v m + FixedHeader_Size h =
      of_nat (length (fixed_enc h) + (length (publish_body v m) - 2))"
    by (simp add: size fixed.size_of)
  also have "unat \<dots> = length (fixed_enc h) + (length (publish_body v m) - 2)"
    using len by (rule unat_of_nat32)
  finally show ?thesis
    using CreateMqttPacket_msg_fill [OF assms(1,2) h_def] body by (simp add: fill_short)
qed

text \<open>
  The first byte of the header and the parts that a reader of the packet gets back: a packet is
  self-delimiting.
\<close>

lemma ReadVariableInt_packet:
  assumes "length body < 2 ^ 28"
  shows "DeCodeVarInt (packet_enc t body) 1 =
    Inr (Inr (of_nat (length body), of_nat (length (vint (length body)))))"
    and "rd8 (packet_enc t body) 0 = Inr t"
    and "drop (1 + length (vint (length body))) (packet_enc t body) = body"
proof -
  have "unat (of_nat (length body) :: u32) = length body" using assms by (intro unat_of_nat32) simp
  then have enc: "packet_enc t body = [t] @ vint (length body) @ body"
    by (simp add: packet_enc_def fixed_enc_def)
  show "DeCodeVarInt (packet_enc t body) 1 =
      Inr (Inr (of_nat (length body), of_nat (length (vint (length body)))))"
    using DeCodeVarInt_vint [of "length body" "[t]" body] assms by (simp add: enc)
  show "rd8 (packet_enc t body) 0 = Inr t" by (simp add: enc rd8_def)
  show "drop (1 + length (vint (length body))) (packet_enc t body) = body" by (simp add: enc)
qed

end
