(* ===== verification/Command_Queue.thy ===== *)
theory Command_Queue
  imports Functions "HOL-Library.Multiset"
begin

text \<open>
  The queue of write commands (\<open>src/command.cpp\<close>) and the threads that serve it. The
  operations on the queue are atomic, being guarded by \<open>com_mutex\<close>; taking a command and
  executing it are two steps, and two sender threads do so independently. The second half gives the
  step relation of the threads and what it preserves.
\<close>

section \<open>The queue\<close>

record FdWriteCommand =
  cmd_len :: u32
  cmd_ptr :: "bytes option"
  cmd_fd :: int

definition new_FdWriteCommand :: "int \<Rightarrow> u32 \<times> bytes option \<Rightarrow> FdWriteCommand" where
  "new_FdWriteCommand fd cmd = \<lparr>cmd_len = fst cmd, cmd_ptr = snd cmd, cmd_fd = fd\<rparr>"

text \<open>
  \<open>Writer::Write\<close> hands over to \<open>WriteData\<close>; a null pointer with a length makes
  \<open>write\<close> fail.
\<close>

definition FdWriteCommand_Execute :: "(nat \<Rightarrow> nat \<Rightarrow> int) \<Rightarrow> FdWriteCommand \<Rightarrow> int \<times> bytes" where
  "FdWriteCommand_Execute w c =
     (case cmd_ptr c of
        Some buf \<Rightarrow> WriteData w buf (unat (cmd_len c))
      | None \<Rightarrow> if cmd_len c = 0 then (0, []) else (-1, []))"

definition AddCommand ::
    "int \<Rightarrow> u32 \<times> bytes option \<Rightarrow> FdWriteCommand list \<Rightarrow> FdWriteCommand list" where
  "AddCommand fd cmd commands = commands @ [new_FdWriteCommand fd cmd]"

text \<open>
  The locked part of \<open>Execute\<close>: \<open>None\<close> when the queue is empty and the thread waits on the
  condition.
\<close>

definition Execute_pop :: "FdWriteCommand list \<Rightarrow> (FdWriteCommand \<times> FdWriteCommand list) option" where
  "Execute_pop commands = (case commands of [] \<Rightarrow> None | c # cs \<Rightarrow> Some (c, cs))"

definition Notify :: "FdWriteCommand list \<Rightarrow> bool" where
  "Notify commands \<longleftrightarrow> commands \<noteq> []"

section \<open>The threads\<close>

datatype sender_state = Running | Waiting | Holding FdWriteCommand

record senders =
  queue :: "FdWriteCommand list"
  threads :: "sender_state list"
  issued :: "FdWriteCommand list"
  taken :: "FdWriteCommand list"
  written :: "FdWriteCommand list"

text \<open>
  \<open>issued\<close>, \<open>taken\<close> and \<open>written\<close> record the commands in the order they were added,
  popped and executed. The steps of the sender threads themselves: one that finds the queue empty
  waits, one that does not takes the first command, and then executes it.
\<close>

inductive work :: "senders \<Rightarrow> senders \<Rightarrow> bool" where
  sleep: "i < length (threads s) \<Longrightarrow> threads s ! i = Running \<Longrightarrow> Execute_pop (queue s) = None \<Longrightarrow>
    work s (s\<lparr>threads := (threads s)[i := Waiting]\<rparr>)"
| take_cmd: "i < length (threads s) \<Longrightarrow> threads s ! i = Running \<Longrightarrow> Execute_pop (queue s) = Some (c, cs) \<Longrightarrow>
    work s (s\<lparr>queue := cs, threads := (threads s)[i := Holding c], taken := taken s @ [c]\<rparr>)"
| run: "i < length (threads s) \<Longrightarrow> threads s ! i = Holding c \<Longrightarrow>
    work s (s\<lparr>threads := (threads s)[i := Running], written := written s @ [c]\<rparr>)"

text \<open>What the call of \<open>Notify\<close> at the end of a pass of the server thread does to them.\<close>

definition notify_senders :: "senders \<Rightarrow> senders" where
  "notify_senders s =
     (if Notify (queue s) then s\<lparr>threads := map (\<lambda>t. if t = Waiting then Running else t) (threads s)\<rparr> else s)"

text \<open>A waiting thread may also wake up without a signal.\<close>

inductive sstep :: "senders \<Rightarrow> senders \<Rightarrow> bool" where
  add: "sstep s (s\<lparr>queue := AddCommand fd cmd (queue s), issued := issued s @ [new_FdWriteCommand fd cmd]\<rparr>)"
| work: "work s s' \<Longrightarrow> sstep s s'"
| notify: "sstep s (notify_senders s)"
| spurious: "i < length (threads s) \<Longrightarrow> threads s ! i = Waiting \<Longrightarrow>
    sstep s (s\<lparr>threads := (threads s)[i := Running]\<rparr>)"

definition senders_start :: "nat \<Rightarrow> senders" where
  "senders_start n = \<lparr>queue = [], threads = replicate n Running, issued = [], taken = [], written = []\<rparr>"

fun held_cmds :: "sender_state list \<Rightarrow> FdWriteCommand list" where
  "held_cmds [] = []"
| "held_cmds (Holding c # ts) = c # held_cmds ts"
| "held_cmds (t # ts) = held_cmds ts"

inductive_cases workE: "work s s'"

section \<open>Nothing is lost, nothing is written twice\<close>

definition senders_inv :: "senders \<Rightarrow> bool" where
  "senders_inv s \<longleftrightarrow> issued s = taken s @ queue s \<and>
     mset (taken s) = mset (written s) + mset (held_cmds (threads s))"

lemma mset_held_update:
  "i < length ts \<Longrightarrow> mset (held_cmds (ts[i := t])) + mset (held_cmds [ts ! i]) =
    mset (held_cmds ts) + mset (held_cmds [t])"
proof (induction ts arbitrary: i)
  case (Cons u ts)
  then show ?case by (cases i; cases u; cases t) auto
qed simp

lemma held_wake: "held_cmds (map (\<lambda>t. if t = Waiting then Running else t) ts) = held_cmds ts"
  by (induction ts rule: held_cmds.induct) auto

lemma senders_inv_start: "senders_inv (senders_start n)"
proof -
  have "held_cmds (replicate n Running) = []" by (induction n) auto
  then show ?thesis by (simp add: senders_inv_def senders_start_def)
qed

lemma senders_inv_work: "work s s' \<Longrightarrow> senders_inv s \<Longrightarrow> senders_inv s'"
proof (induction rule: work.induct)
  case (sleep i s)
  with mset_held_update [of i "threads s" Waiting] show ?case by (auto simp: senders_inv_def)
next
  case (take_cmd i s c cs)
  with mset_held_update [of i "threads s" "Holding c"] show ?case
    by (auto simp: senders_inv_def Execute_pop_def split: list.splits)
next
  case (run i s c)
  with mset_held_update [of i "threads s" Running] show ?case
    by (auto simp: senders_inv_def)
qed

lemma senders_inv_notify: "senders_inv (notify_senders s) \<longleftrightarrow> senders_inv s"
  by (simp add: senders_inv_def notify_senders_def held_wake)

lemma senders_inv_step: "sstep s s' \<Longrightarrow> senders_inv s \<Longrightarrow> senders_inv s'"
proof (induction rule: sstep.induct)
  case (work s s')
  then show ?case by (rule senders_inv_work)
next
  case (spurious i s)
  with mset_held_update [of i "threads s" Running] show ?case by (auto simp: senders_inv_def)
qed (simp_all add: senders_inv_notify, simp add: senders_inv_def AddCommand_def)

lemma senders_inv_reachable: "sstep\<^sup>*\<^sup>* (senders_start n) s \<Longrightarrow> senders_inv s"
  by (induction rule: rtranclp_induct) (auto intro: senders_inv_start senders_inv_step)

text \<open>With a single sender the commands go out in the order they were issued.\<close>

definition single_inv :: "senders \<Rightarrow> bool" where
  "single_inv s \<longleftrightarrow> length (threads s) = 1 \<and> taken s = written s @ held_cmds (threads s) \<and>
     issued s = taken s @ queue s"

lemma single_inv_step: "sstep s s' \<Longrightarrow> single_inv s \<Longrightarrow> single_inv s'"
  by (induction rule: sstep.induct)
    (auto simp: single_inv_def Execute_pop_def AddCommand_def notify_senders_def held_wake length_Suc_conv
      elim!: workE split: list.splits)

lemma single_inv_start: "single_inv (senders_start 1)"
  by (simp add: single_inv_def senders_start_def)

lemma single_inv_reachable: "sstep\<^sup>*\<^sup>* (senders_start 1) s \<Longrightarrow> single_inv s"
  by (induction rule: rtranclp_induct) (blast intro: single_inv_start single_inv_step)+

text \<open>With two of them a later command can overtake an earlier one.\<close>

lemma two_senders_overtake:
  "\<exists>s. sstep\<^sup>*\<^sup>* (senders_start 2) s \<and> issued s = [a, b] \<and> written s = [b, a]"
  if "a = new_FdWriteCommand fd c" "b = new_FdWriteCommand fd d"
proof -
  let ?s0 = "senders_start 2"
  let ?s1 = "?s0\<lparr>queue := [a], issued := [a]\<rparr>"
  let ?s2 = "?s1\<lparr>queue := [a, b], issued := [a, b]\<rparr>"
  let ?s3 = "?s2\<lparr>queue := [b], threads := [Holding a, Running], taken := [a]\<rparr>"
  let ?s4 = "?s3\<lparr>queue := [], threads := [Holding a, Holding b], taken := [a, b]\<rparr>"
  let ?s5 = "?s4\<lparr>threads := [Holding a, Running], written := [b]\<rparr>"
  let ?s6 = "?s5\<lparr>threads := [Running, Running], written := [b, a]\<rparr>"
  have "sstep ?s0 ?s1" using sstep.add [of ?s0 fd c] that by (simp add: senders_start_def AddCommand_def)
  moreover have "sstep ?s1 ?s2"
    using sstep.add [of ?s1 fd d] that by (simp add: senders_start_def AddCommand_def)
  moreover have "sstep ?s2 ?s3"
    using sstep.work [OF work.take_cmd [of 0 ?s2 a "[b]"]] by (simp add: senders_start_def Execute_pop_def numeral_2_eq_2)
  moreover have "sstep ?s3 ?s4"
    using sstep.work [OF work.take_cmd [of 1 ?s3 b "[]"]] by (simp add: senders_start_def Execute_pop_def)
  moreover have "sstep ?s4 ?s5" using sstep.work [OF work.run [of 1 ?s4 b]] by (simp add: senders_start_def)
  moreover have "sstep ?s5 ?s6" using sstep.work [OF work.run [of 0 ?s5 a]] by (simp add: senders_start_def)
  ultimately have "sstep\<^sup>*\<^sup>* ?s0 ?s6" by (meson rtranclp.rtrancl_refl rtranclp.rtrancl_into_rtrancl)
  then show ?thesis by (intro exI [of _ ?s6]) simp
qed

text \<open>
  A waiting thread is only woken by \<open>Notify\<close>: adding a command does not signal, so a state with
  a command queued and all threads asleep is reachable, and progress depends on the next
  notification.
\<close>

lemma queued_while_asleep:
  "\<exists>s. sstep\<^sup>*\<^sup>* (senders_start 1) s \<and> queue s \<noteq> [] \<and> threads s = [Waiting]"
proof -
  let ?s0 = "senders_start 1"
  let ?s1 = "?s0\<lparr>threads := [Waiting]\<rparr>"
  let ?s2 = "?s1\<lparr>queue := AddCommand 0 (0, None) [], issued := [new_FdWriteCommand 0 (0, None)]\<rparr>"
  have "sstep ?s0 ?s1" using sstep.work [OF work.sleep [of 0 ?s0]] by (simp add: senders_start_def Execute_pop_def)
  moreover have "sstep ?s1 ?s2" using sstep.add [of ?s1 0 "(0, None)"]
    by (simp add: senders_start_def)
  ultimately have "sstep\<^sup>*\<^sup>* ?s0 ?s2" by (meson rtranclp.rtrancl_refl rtranclp.rtrancl_into_rtrancl)
  then show ?thesis by (intro exI [of _ ?s2]) (simp add: AddCommand_def)
qed

section \<open>After a notification the queue is drained\<close>

text \<open>What is left to do: three steps for a queued command, two for a thread with a command in its
  hands, one to fall asleep.\<close>

fun effort :: "sender_state \<Rightarrow> nat" where
  "effort Waiting = 0"
| "effort Running = 1"
| "effort (Holding c) = 2"

definition undone :: "senders \<Rightarrow> nat" where
  "undone s = 3 * length (queue s) + sum_list (map effort (threads s))"

lemma effort_update:
  assumes "i < length ts"
  shows "sum_list (map effort (ts[i := t])) + effort (ts ! i) = sum_list (map effort ts) + effort t"
  using assms by (induction ts arbitrary: i) (auto split: nat.split simp: nth_Cons list_update.simps)

lemma work_undone: "work s s' \<Longrightarrow> undone s' < undone s"
proof (induction rule: work.induct)
  case (sleep i s)
  with effort_update [of i "threads s" Waiting] show ?case by (simp add: undone_def)
next
  case (take_cmd i s c cs)
  with effort_update [of i "threads s" "Holding c"] show ?case
    by (auto simp: undone_def Execute_pop_def split: list.splits)
next
  case (run i s c)
  with effort_update [of i "threads s" Running] show ?case by (simp add: undone_def)
qed

lemma works_undone: "(work ^^ k) s s' \<Longrightarrow> undone s' + k \<le> undone s"
  by (induction k arbitrary: s') (fastforce dest: work_undone)+

lemma undone_bound: "undone s \<le> 3 * length (queue s) + 2 * length (threads s)"
proof -
  have "effort t \<le> 2" for t by (cases t) simp_all
  then have "sum_list (map effort ts) \<le> 2 * length ts" for ts
    by (induction ts) (simp_all, metis (no_types) add_le_mono add_2_eq_Suc)
  then show ?thesis by (simp add: undone_def)
qed

text \<open>A thread sleeps only while the queue is empty, if all were awake to begin with.\<close>

definition awake :: "senders \<Rightarrow> bool" where
  "awake s \<longleftrightarrow> queue s = [] \<or> Waiting \<notin> set (threads s)"

lemma awake_notify: "awake (notify_senders s)"
  by (auto simp: awake_def notify_senders_def Notify_def split: if_splits)

lemma work_awake: "work s s' \<Longrightarrow> awake s \<Longrightarrow> awake s'"
  by (induction rule: work.induct)
    (auto simp: awake_def Execute_pop_def split: list.splits dest!: set_update_subset_insert [THEN subsetD])

lemma works_keep:
  assumes "(work ^^ k) s s'" and "awake s" and "senders_inv s"
  shows "awake s' \<and> senders_inv s' \<and> issued s' = issued s \<and> length (threads s') = length (threads s)"
  using assms
proof (induction k arbitrary: s')
  case (Suc k)
  then obtain t where t: "(work ^^ k) s t" "work t s'" by auto
  have "issued s' = issued t" "length (threads s') = length (threads t)"
    using t(2) by (auto elim: workE)
  then show ?case using Suc t work_awake senders_inv_work by metis
qed simp

text \<open>When no sender thread can go on all of them sleep.\<close>

lemma stuck_all_asleep:
  assumes "\<nexists>t. work s t" and "i < length (threads s)"
  shows "threads s ! i = Waiting"
proof (cases "threads s ! i")
  case Running
  then show ?thesis
    using assms(1) work.sleep [OF assms(2) Running] work.take_cmd [OF assms(2) Running]
    by (cases "Execute_pop (queue s)") (blast, metis surj_pair)
next
  case (Holding c)
  then show ?thesis using assms work.run [OF assms(2)] by blast
qed simp

lemma asleep_held: "set ts \<subseteq> {Waiting} \<Longrightarrow> held_cmds ts = []"
  by (induction ts rule: held_cmds.induct) auto

lemma works_drain:
  assumes "(work ^^ k) (notify_senders s) u" and "senders_inv s" and "threads s \<noteq> []" and "\<nexists>v. work u v"
  shows "queue u = []" and "mset (written u) = mset (issued s)"
proof -
  have "issued (notify_senders s) = issued s" "length (threads (notify_senders s)) = length (threads s)"
    by (simp_all add: notify_senders_def)
  then have u: "awake u" "senders_inv u" "issued u = issued s" "length (threads u) = length (threads s)"
    using works_keep [OF assms(1) awake_notify] assms(2) by (simp_all add: senders_inv_notify)
  have "threads u ! 0 = Waiting" using stuck_all_asleep [OF assms(4), of 0] u(4) assms(3) by simp
  then have "Waiting \<in> set (threads u)" using u(4) assms(3) by (metis length_greater_0_conv nth_mem)
  then show q: "queue u = []" using u(1) by (simp add: awake_def)
  have "set (threads u) \<subseteq> {Waiting}" using stuck_all_asleep [OF assms(4)] by (auto simp: in_set_conv_nth)
  then show "mset (written u) = mset (issued s)"
    using u(2,3) q by (simp add: senders_inv_def asleep_held)
qed

lemma sstep_threads: "sstep s s' \<Longrightarrow> length (threads s') = length (threads s)"
  by (induction rule: sstep.induct) (auto simp: notify_senders_def elim!: workE)

lemma ssteps_threads: "sstep\<^sup>*\<^sup>* s s' \<Longrightarrow> length (threads s') = length (threads s)"
  by (induction rule: rtranclp_induct) (auto dest: sstep_threads)

end
