(* ===== verification/Broker_State.thy ===== *)
theory Broker_State
  imports Clients Packets Command_Queue
begin

text \<open>
  The broker object (\<open>src/broker.cpp\<close>, \<open>headers/mqtt_broker.h\<close>): the connected clients, the
  subscribed ones, the postponed messages, and the delivery of a topic to its subscribers.
\<close>

section \<open>State\<close>

datatype broker_err =
    broker_ok | add_error | sock_create_err | sock_bind_err | sock_listen_err | broker_read_err
  | broker_mqtt_err | connect_err | write_err

datatype broker_states = init | started | wait_state

record mqtt_packet =
  data_len :: u32
  pData :: "bytes option"
  mp_packet_id :: u16

text \<open>
  The broker derives from the topic storage, whose record this one extends. Client objects live in
  \<open>objects\<close>; a shared or weak pointer to one is its number, \<open>None\<close> the null pointer. The
  order of the entries of an unordered container stands for its iteration order. The last fields
  record what the program does outside its state: descriptors it closed, data it wrote itself,
  commands sent to the control socket, threads it started.
\<close>

record Broker = CTopicStorage +
  commands :: "FdWriteCommand list"
  current_clients :: u32
  clients :: "(int \<times> nat option) list"
  subscribed_clients :: "(int \<times> nat) list"
  state :: broker_states
  control_sock :: int
  port :: int
  postponed_events :: "(bytes \<times> mqtt_packet list) list"
  qos_thread_started :: bool
  erase_old_values_in_queue :: bool
  objects :: "nat \<Rightarrow> Client"
  next_object :: nat
  closed :: "int list"
  direct :: "(int \<times> bytes) list"
  control_sent :: "bytes list"
  server_threads :: nat
  sender_threads :: nat
  qos_threads :: nat

definition new_Broker :: Broker where
  "new_Broker =
     \<lparr>topics = [], qos_2_topics = [], commands = [], current_clients = 0, clients = [],
      subscribed_clients = [], state = init, control_sock = -1, port = 1883,
      postponed_events = [], qos_thread_started = False, erase_old_values_in_queue = False,
      objects = (\<lambda>_. new_Client [] 0), next_object = 0, closed = [], direct = [], control_sent = [],
      server_threads = 0, sender_threads = 0, qos_threads = 0\<rparr>"

definition upd_obj :: "nat \<Rightarrow> (Client \<Rightarrow> Client) \<Rightarrow> Broker \<Rightarrow> Broker" where
  "upd_obj r f b = b\<lparr>objects := (objects b)(r := f (objects b r))\<rparr>"

text \<open>\<open>clients[fd]\<close> of the unordered map: a null pointer is inserted where there is no entry.\<close>

definition clients_at :: "int \<Rightarrow> Broker \<Rightarrow> nat option \<times> Broker" where
  "clients_at fd b =
     (case kv_find fst fd (clients b) of
        Some e \<Rightarrow> (snd e, b)
      | None \<Rightarrow> (None, b\<lparr>clients := un_insert fst (fd, None) (clients b)\<rparr>))"

definition enqueue :: "int \<Rightarrow> bytes \<times> u32 \<Rightarrow> Broker \<Rightarrow> Broker" where
  "enqueue fd pkt b = b\<lparr>commands := AddCommand fd (snd pkt, Some (fst pkt)) (commands b)\<rparr>"

section \<open>Clients of the broker\<close>

definition control_command :: "bytes \<Rightarrow> Broker \<Rightarrow> Broker" where
  "control_command buf b = b\<lparr>control_sent := control_sent b @ [buf]\<rparr>"

definition ADD :: bytes where "ADD = [0x41, 0x44, 0x44]"

definition AddClient :: "int \<Rightarrow> bytes \<Rightarrow> int \<Rightarrow> Broker \<Rightarrow> broker_err \<times> Broker" where
  "AddClient sock i now b =
     (let b = b\<lparr>current_clients := current_clients b + 1\<rparr>;
          r = next_object b;
          b = b\<lparr>objects := (objects b)(r := new_Client i now), next_object := Suc r\<rparr>
      in if kv_find fst sock (clients b) = None then
           let b = b\<lparr>clients := un_insert fst (sock, Some r) (clients b)\<rparr>;
               b = (if state b = wait_state then control_command ADD b else b)
           in (broker_ok, b)
         else (add_error, b))"

definition AddSubscribedClient :: "int \<Rightarrow> nat \<Rightarrow> Broker \<Rightarrow> Broker" where
  "AddSubscribedClient sock r b =
     b\<lparr>subscribed_clients := un_insert fst (sock, r) (subscribed_clients b)\<rparr>"

definition DelSubscribedClient :: "int \<Rightarrow> Broker \<Rightarrow> Broker" where
  "DelSubscribedClient sock b =
     b\<lparr>subscribed_clients := kv_erase fst sock (subscribed_clients b)\<rparr>"

definition DelClient :: "int \<Rightarrow> Broker \<Rightarrow> Broker" where
  "DelClient sock b =
     (let b = b\<lparr>current_clients := current_clients b - 1\<rparr>;
          b = b\<lparr>clients := kv_erase fst sock (clients b)\<rparr>
      in DelSubscribedClient sock b)"

definition CloseConnection :: "int \<Rightarrow> Broker \<Rightarrow> Broker" where
  "CloseConnection fd b = DelClient fd (b\<lparr>closed := closed b @ [fd]\<rparr>)"

definition GetClientCount :: "Broker \<Rightarrow> u32" where
  "GetClientCount b = of_nat (length (clients b))"

definition GetState :: "Broker \<Rightarrow> broker_states" where
  "GetState b = state b"

definition SetState :: "broker_states \<Rightarrow> Broker \<Rightarrow> Broker" where
  "SetState s b = b\<lparr>state := s\<rparr>"

definition SetPort :: "int \<Rightarrow> Broker \<Rightarrow> Broker" where
  "SetPort p b = b\<lparr>port := p\<rparr>"

definition SetEraseOldValues :: "bool \<Rightarrow> Broker \<Rightarrow> Broker" where
  "SetEraseOldValues val b = b\<lparr>erase_old_values_in_queue := val\<rparr>"

definition Start :: "Broker \<Rightarrow> Broker" where
  "Start b =
     (if state b = init then
        let b = b\<lparr>state := started, server_threads := server_threads b + 1\<rparr>
        in if \<not> qos_thread_started b then
             b\<lparr>qos_threads := qos_threads b + 1, sender_threads := sender_threads b + 2,
               qos_thread_started := True\<rparr>
           else b
      else b)"

text \<open>The search by identifier calls a member of each object it passes.\<close>

fun find_id_loop :: "(nat \<Rightarrow> Client) \<Rightarrow> bytes \<Rightarrow> (int \<times> nat option) list \<Rightarrow> int option res" where
  "find_id_loop objs i [] = Inr None"
| "find_id_loop objs i ((fd, p) # es) =
     rbind (deref p) (\<lambda>r.
     if client_id (objs r) = i then Inr (Some fd) else find_id_loop objs i es)"

definition CheckClientID :: "bytes \<Rightarrow> Broker \<Rightarrow> bool res" where
  "CheckClientID i b =
     rbind (find_id_loop (objects b) i (clients b)) (\<lambda>r. Inr (r \<noteq> None))"

definition GetClientFd :: "bytes \<Rightarrow> Broker \<Rightarrow> int res" where
  "GetClientFd i b =
     rbind (find_id_loop (objects b) i (clients b)) (\<lambda>r.
     Inr (case r of Some fd \<Rightarrow> fd | None \<Rightarrow> -1))"

section \<open>Reading a fixed header\<close>

text \<open>
  From the bytes that will still arrive on the descriptor. The header is an argument: its members
  keep their values where the function returns early.
\<close>

text \<open>When the length cannot be read the header keeps the old one. The source has written the bytes read so
  far into it by then; no caller looks at the header after an error.\<close>

definition ReadFixedHeader :: "bytes \<Rightarrow> FixedHeader \<Rightarrow> broker_err \<times> FixedHeader \<times> bytes" where
  "ReadFixedHeader inp h =
     (case inp of
        [] \<Rightarrow> (broker_read_err, h, [])
      | f # rest \<Rightarrow>
          let h = h\<lparr>first := f\<rparr> in
          case ReadVariableInt rest of
            (Inl e, rest') \<Rightarrow> (if e = read_err then broker_read_err else broker_mqtt_err, h, rest')
          | (Inr len, rest') \<Rightarrow> (broker_ok, h\<lparr>remaining_len := len\<rparr>, rest'))"

section \<open>Postponed messages\<close>

definition AddQosEvent :: "bytes \<Rightarrow> mqtt_packet \<Rightarrow> Broker \<Rightarrow> Broker" where
  "AddQosEvent i m b =
     (let evs = (if kv_find fst i (postponed_events b) = None
                 then un_insert fst (i, []) (postponed_events b) else postponed_events b)
      in b\<lparr>postponed_events := map (\<lambda>e. if fst e = i then (i, snd e @ [m]) else e) evs\<rparr>)"

definition DelQosEvent :: "bytes \<Rightarrow> u16 \<Rightarrow> Broker \<Rightarrow> Broker" where
  "DelQosEvent i n b =
     b\<lparr>postponed_events := map (\<lambda>e. if fst e = i then (i, filter (\<lambda>m. mp_packet_id m \<noteq> n) (snd e)) else e)
        (postponed_events b)\<rparr>"

definition CheckIfMoreMessages :: "bytes \<Rightarrow> Broker \<Rightarrow> bool" where
  "CheckIfMoreMessages i b =
     (case kv_find fst i (postponed_events b) of Some e \<Rightarrow> snd e \<noteq> [] | None \<Rightarrow> False)"

text \<open>\<open>front ()\<close> of an empty list is undefined.\<close>

definition GetPacket :: "bytes \<Rightarrow> Broker \<Rightarrow> ((u32 \<times> bytes option) \<times> bool) res" where
  "GetPacket i b =
     (case kv_find fst i (postponed_events b) of
        Some e \<Rightarrow> (case snd e of
            [] \<Rightarrow> Inl OobRead
          | m # _ \<Rightarrow> Inr ((data_len m, pData m), True))
      | None \<Rightarrow> Inr ((0, None), False))"

section \<open>Delivery\<close>

text \<open>The part of \<open>NotifyClients\<close> and \<open>NotifyClient\<close> that builds the packet and queues it.\<close>

definition send_topic :: "int \<Rightarrow> bytes \<Rightarrow> MqttTopic \<Rightarrow> Broker \<Rightarrow> Broker res" where
  "send_topic fd i topic b =
     (let answer_vh = Publish_vh (new_PublishVH (t_name topic) (t_id topic) []);
          hdr = WithQoS (t_qos topic) (PacketType (pack_code PUBLISH) FHBuilder)
      in if t_qos topic > qos_code QoS_0 then
           if \<not> CheckIfMoreMessages i b then
             rbind (CreateMqttPacket_msg (Build hdr) answer_vh (t_data topic)) (\<lambda>pkt.
             Inr (enqueue fd pkt b))
           else
             rbind (CreateMqttPacket_msg (Build (WithDup hdr)) answer_vh (t_data topic)) (\<lambda>pkt.
             Inr (AddQosEvent i \<lparr>data_len = snd pkt, pData = Some (fst pkt),
                    mp_packet_id = t_id topic\<rparr> b))
         else
           rbind (CreateMqttPacket_msg (Build hdr) answer_vh (t_data topic)) (\<lambda>pkt.
           Inr (enqueue fd pkt b)))"

text \<open>The identifier of a topic that goes to the client object \<open>r\<close>.\<close>

definition give_id :: "nat \<Rightarrow> MqttTopic \<Rightarrow> Broker \<Rightarrow> MqttTopic \<times> Broker" where
  "give_id r topic b =
     (if t_qos topic = qos_code QoS_0 then (SetPacketID 0 topic, b)
      else (SetPacketID (fst (GenPacketID (objects b r))) topic,
            upd_obj r (\<lambda>c. snd (GenPacketID c)) b))"

text \<open>\<open>lock ()\<close> of a weak pointer: null when no shared pointer holds the object any more.\<close>

definition lock :: "nat \<Rightarrow> Broker \<Rightarrow> bool" where
  "lock r b \<longleftrightarrow> Some r \<in> snd ` set (clients b)"

fun notify_loop :: "(int \<times> nat) list \<Rightarrow> MqttTopic \<Rightarrow> Broker \<Rightarrow> (MqttTopic \<times> Broker) res" where
  "notify_loop [] topic b = Inr (topic, b)"
| "notify_loop ((fd, r) # es) topic b =
     (if \<not> lock r b then notify_loop es topic b
      else
        rbind (MyTopic (t_name topic) (objects b r)) (\<lambda>(mine, options).
        if mine then
          let topic = SetQos (options AND 0x03) topic;
              (topic, b) = give_id r topic b
          in rbind (send_topic fd (client_id (objects b r)) topic b) (\<lambda>b.
             notify_loop es topic b)
        else notify_loop es topic b))"

definition NotifyClients :: "MqttTopic \<Rightarrow> Broker \<Rightarrow> (MqttTopic \<times> Broker) res" where
  "NotifyClients topic b = notify_loop (subscribed_clients b) topic b"

text \<open>A null pointer is dereferenced on every path, by the log message at the latest.\<close>

definition NotifyClient :: "int \<Rightarrow> MqttTopic \<Rightarrow> Broker \<Rightarrow> (MqttTopic \<times> Broker) res" where
  "NotifyClient fd topic b =
     (let (p, b) = clients_at fd b
      in rbind (deref p) (\<lambda>r.
         let (topic, b) = give_id r topic b
         in rbind (send_topic fd (client_id (objects b r)) topic b) (\<lambda>b. Inr (topic, b))))"

section \<open>The packet a subscriber gets\<close>

definition publish_first :: "u8 \<Rightarrow> u8" where
  "publish_first q = Build (WithQoS q (PacketType (pack_code PUBLISH) FHBuilder))"

definition publish_packet :: "u8 \<Rightarrow> u16 \<Rightarrow> bytes \<Rightarrow> bytes \<Rightarrow> bytes" where
  "publish_packet q i nm m = packet_enc (publish_first q) (publish_body (new_PublishVH nm i []) m)"

definition publish_cmd :: "int \<Rightarrow> u8 \<Rightarrow> u16 \<Rightarrow> bytes \<Rightarrow> bytes \<Rightarrow> FdWriteCommand" where
  "publish_cmd fd q i nm m =
     new_FdWriteCommand fd (of_nat (length (publish_packet q i nm m)), Some (publish_packet q i nm m))"

lemma QoS_publish_first: "q < 4 \<Longrightarrow> QoS (new_FixedHeader (publish_first q)) = q"
  using built_fields(2) [of 3 q False] by (simp add: publish_first_def built_def)

lemma and3_less4: "(w :: u8) AND 3 < 4"
proof -
  have "w AND 3 \<le> 3" by (rule word_and_le1)
  then have "unat (w AND 3) \<le> 3" by (simp add: word_le_nat_alt)
  then show ?thesis by (simp add: word_less_nat_alt)
qed

lemma chain_ok_Nil [simp]: "chain_ok []"
  by (simp add: chain_ok_def)

lemma publish_body_small:
  assumes "length nm < 2 ^ 16" and "length m < 2 ^ 16"
  shows "vh_ok (Publish_vh (new_PublishVH nm i []))"
    and "length (publish_body (new_PublishVH nm i []) m) + 8 < 2 ^ 32"
  using assms by (simp_all add: vh_ok_def new_PublishVH_def publish_body_def length_id_enc chain_enc_def
      vint_small)

lemma CreateMqttPacket_publish:
  assumes "length nm < 2 ^ 16" and "length m < 2 ^ 16" and "q < 4"
  shows "CreateMqttPacket_msg (publish_first q) (Publish_vh (new_PublishVH nm i [])) (Some m) =
    (if i = 0 \<longleftrightarrow> q = 0 then Inr (publish_packet q i nm m, of_nat (length (publish_packet q i nm m)))
     else if i = 0 then Inl AssertFail else Inl OobWrite)"
proof -
  note ok = publish_body_small [OF assms(1,2), of i]
  have len: "length (publish_body (new_PublishVH nm i []) m) + 6 < 2 ^ 32" using ok(2) by simp
  have id: "pu_packet_id (new_PublishVH nm i []) = i" by (simp add: new_PublishVH_def)
  show ?thesis
    using CreateMqttPacket_msg_exact [OF ok(1) len, of "publish_first q"]
      CreateMqttPacket_msg_abort [OF ok, of "publish_first q"]
      CreateMqttPacket_msg_overrun [OF ok(1) len, of "publish_first q"]
      QoS_publish_first [OF assms(3)]
    by (auto simp: id publish_packet_def)
qed

text \<open>With no message postponed, sending is building the packet and queueing it.\<close>

lemma send_topic_direct:
  assumes "postponed_events b = []"
  shows "send_topic fd i topic b =
    rbind (CreateMqttPacket_msg (publish_first (t_qos topic))
        (Publish_vh (new_PublishVH (t_name topic) (t_id topic) [])) (t_data topic))
      (\<lambda>pkt. Inr (enqueue fd pkt b))"
  using assms by (simp add: send_topic_def Let_def CheckIfMoreMessages_def publish_first_def)

lemma send_topic_ok:
  assumes "postponed_events b = []" and "t_data topic = Some m" and "t_qos topic < 4"
    and "length (t_name topic) < 2 ^ 16" and "length m < 2 ^ 16"
    and "t_id topic = 0 \<longleftrightarrow> t_qos topic = 0"
  shows "send_topic fd i topic b = Inr (b\<lparr>commands := commands b @
    [publish_cmd fd (t_qos topic) (t_id topic) (t_name topic) m]\<rparr>)"
  using assms by (simp add: send_topic_direct CreateMqttPacket_publish enqueue_def publish_cmd_def
      AddCommand_def)

section \<open>Who gets a topic\<close>

text \<open>The options of the subscription that decides, if one matches.\<close>

definition sub_opts :: "Client \<Rightarrow> bytes \<Rightarrow> u8 option" where
  "sub_opts c nm = map_option snd (find (\<lambda>e. sub_matches (fst e) nm) (subscribed_topics c))"

lemma MyTopic_opts:
  assumes "\<forall>e\<in>set (subscribed_topics c). sub_safe (fst e) nm"
  shows "MyTopic nm c = Inr (case sub_opts c nm of Some opts \<Rightarrow> (True, opts) | None \<Rightarrow> (False, 0))"
  by (simp add: MyTopic_safe [OF assms] sub_opts_def case_prod_unfold split: option.splits)

definition delivery :: "(nat \<Rightarrow> Client) \<Rightarrow> bytes \<Rightarrow> bytes \<Rightarrow> int \<times> nat \<Rightarrow> FdWriteCommand option" where
  "delivery objs nm m e =
     (case sub_opts (objs (snd e)) nm of
        None \<Rightarrow> None
      | Some opts \<Rightarrow>
          let q = opts AND 3
          in Some (publish_cmd (fst e) q (if q = 0 then 0 else packet_id_gen (objs (snd e))) nm m))"

text \<open>The objects afterwards: the generator of each client that got a message above QoS 0 moves on.\<close>

definition takes_id :: "Client \<Rightarrow> bytes \<Rightarrow> bool" where
  "takes_id c nm \<longleftrightarrow> (case sub_opts c nm of None \<Rightarrow> False | Some opts \<Rightarrow> opts AND 3 \<noteq> 0)"

definition bump :: "bytes \<Rightarrow> (int \<times> nat) list \<Rightarrow> (nat \<Rightarrow> Client) \<Rightarrow> nat \<Rightarrow> Client" where
  "bump nm es objs = (\<lambda>r. if r \<in> snd ` set es \<and> takes_id (objs r) nm
     then snd (GenPacketID (objs r)) else objs r)"

definition ready :: "bytes \<Rightarrow> Client \<Rightarrow> bool" where
  "ready nm c \<longleftrightarrow> (\<forall>e\<in>set (subscribed_topics c). sub_safe (fst e) nm) \<and> packet_id_gen c \<noteq> 0"

lemma map_filter_cong:
  "(\<And>x. x \<in> set xs \<Longrightarrow> f x = g x) \<Longrightarrow> List.map_filter f xs = List.map_filter g xs"
  by (induction xs) (auto simp: map_filter_simps split: option.splits)

lemma notify_loop_deliver:
  assumes "distinct (map snd es)" and "\<forall>e\<in>set es. lock (snd e) b \<and> ready (t_name topic) (objects b (snd e))"
    and "postponed_events b = []" and "t_data topic = Some m"
    and "length (t_name topic) < 2 ^ 16" and "length m < 2 ^ 16"
  shows "\<exists>topic'. t_name topic' = t_name topic \<and> t_data topic' = t_data topic \<and>
    notify_loop es topic b = Inr (topic', b\<lparr>commands := commands b @
      List.map_filter (delivery (objects b) (t_name topic) m) es,
      objects := bump (t_name topic) es (objects b)\<rparr>)"
  using assms
proof (induction es arbitrary: topic b)
  case Nil
  then show ?case by (simp add: bump_def map_filter_simps)
next
  case (Cons e es)
  obtain fd r where e: "e = (fd, r)" by (cases e)
  define nm where "nm = t_name topic"
  define c where "c = objects b r"
  have alive: "lock r b" and safe: "\<forall>e\<in>set (subscribed_topics c). sub_safe (fst e) nm"
    and gen: "packet_id_gen c \<noteq> 0" and fresh: "r \<notin> snd ` set es" and dist: "distinct (map snd es)"
    using Cons.prems(1,2) by (auto simp: e nm_def c_def ready_def)
  have rest: "\<forall>e\<in>set es. lock (snd e) b \<and> ready nm (objects b (snd e))"
    using Cons.prems(2) by (simp add: nm_def)
  note mine = MyTopic_opts [OF safe]
  show ?case
  proof (cases "sub_opts c nm")
    case None
    have "bump nm (e # es) (objects b) = bump nm es (objects b)"
      using None by (auto simp: fun_eq_iff bump_def e takes_id_def c_def)
    moreover have "List.map_filter (delivery (objects b) nm m) (e # es) =
        List.map_filter (delivery (objects b) nm m) es"
      using None by (simp add: map_filter_simps delivery_def e c_def)
    ultimately show ?thesis
      using Cons.IH [OF dist, of b topic] rest Cons.prems(3-) alive mine None
      by (simp add: e nm_def c_def)
  next
    case (Some opts)
    define q where "q = opts AND 3"
    define i where "i = (if q = 0 then 0 else packet_id_gen c)"
    define objs where "objs = (if q = 0 then objects b else (objects b)(r := snd (GenPacketID c)))"
    define b1 where "b1 = b\<lparr>objects := objs\<rparr>"
    define b2 where "b2 = b1\<lparr>commands := commands b @ [publish_cmd fd q i nm m]\<rparr>"
    define topic1 where "topic1 = topic\<lparr>t_qos := q, t_id := i\<rparr>"
    have give: "give_id r (SetQos q topic) b = (topic1, b1)"
      by (simp add: give_id_def SetQos_def SetPacketID_def topic1_def i_def b1_def objs_def
          upd_obj_def c_def GenPacketID_def)
    have "send_topic fd (client_id (objects b1 r)) topic1 b1 = Inr b2"
      using send_topic_ok [of b1 topic1 m fd] Cons.prems gen and3_less4 [of opts]
      by (simp add: topic1_def b1_def b2_def i_def q_def nm_def)
    with give alive mine Some have step: "notify_loop (e # es) topic b = notify_loop es topic1 b2"
      by (simp add: e nm_def c_def q_def)
    have same: "objects b2 (snd e') = objects b (snd e')" if "e' \<in> set es" for e'
      using that fresh by (auto simp: b2_def b1_def objs_def)
    have "\<forall>e\<in>set es. lock (snd e) b2 \<and> ready (t_name topic1) (objects b2 (snd e))"
      using rest same by (auto simp: lock_def b2_def b1_def topic1_def nm_def)
    from Cons.IH [OF dist this] Cons.prems(3-)
    obtain topic' where IH: "t_name topic' = nm" "t_data topic' = Some m"
      "notify_loop es topic1 b2 = Inr (topic', b2\<lparr>commands := commands b2 @
        List.map_filter (delivery (objects b2) nm m) es, objects := bump nm es (objects b2)\<rparr>)"
      by (auto simp: b2_def b1_def topic1_def nm_def)
    have "List.map_filter (delivery (objects b2) nm m) es = List.map_filter (delivery (objects b) nm m) es"
      by (intro map_filter_cong) (simp only: delivery_def same)
    moreover have "bump nm es (objects b2) = bump nm (e # es) (objects b)"
      using fresh Some by (auto simp: fun_eq_iff bump_def e takes_id_def c_def b2_def b1_def objs_def q_def)
    moreover have "delivery (objects b) nm m e = Some (publish_cmd fd q i nm m)"
      using Some by (simp add: delivery_def e c_def i_def q_def)
    ultimately show ?thesis
      using IH Cons.prems(4) step
      by (intro exI [of _ topic'])
        (simp add: nm_def [symmetric] b2_def b1_def map_filter_simps)
  qed
qed

section \<open>The invariant of the broker\<close>

text \<open>
  No null pointer among the clients, no object twice, every subscribed entry is a live client under
  the same descriptor, the containers are in order, and no message is postponed.
\<close>

definition clients_inv :: "Broker \<Rightarrow> bool" where
  "clients_inv b \<longleftrightarrow> un_ok fst (clients b) \<and> un_ok fst (subscribed_clients b) \<and>
     (\<forall>e\<in>set (clients b). \<exists>r<next_object b. snd e = Some r) \<and> distinct (map snd (clients b)) \<and>
     (\<forall>e\<in>set (subscribed_clients b). (fst e, Some (snd e)) \<in> set (clients b))"

definition broker_inv :: "Broker \<Rightarrow> bool" where
  "broker_inv b \<longleftrightarrow> clients_inv b \<and> storage_inv b \<and> (\<forall>r. client_inv (objects b r)) \<and>
     postponed_events b = []"

lemma broker_invD:
  assumes "broker_inv b"
  shows "clients_inv b" "storage_inv b" "client_inv (objects b r)" "postponed_events b = []"
  using assms by (simp_all add: broker_inv_def)

lemma new_Broker_inv: "broker_inv new_Broker"
  by (simp add: broker_inv_def clients_inv_def storage_inv_def new_Broker_def un_ok_def ord_ok_def
      new_Client_inv)

text \<open>Subscribed objects are alive and different from each other.\<close>

lemma subscribed_lock: "clients_inv b \<Longrightarrow> e \<in> set (subscribed_clients b) \<Longrightarrow> lock (snd e) b"
  by (force simp: clients_inv_def lock_def)

lemma distinct_subscribed: "clients_inv b \<Longrightarrow> distinct (map snd (subscribed_clients b))"
proof -
  assume inv: "clients_inv b"
  have "fst e = fst e'" if "e \<in> set (subscribed_clients b)" "e' \<in> set (subscribed_clients b)"
    "snd e = snd e'" for e e'
  proof -
    have "(fst e, Some (snd e)) \<in> set (clients b)" "(fst e', Some (snd e')) \<in> set (clients b)"
      using inv that by (auto simp: clients_inv_def)
    moreover have "inj_on snd (set (clients b))" using inv by (simp add: clients_inv_def distinct_map)
    ultimately have "(fst e, Some (snd e)) = (fst e', Some (snd e'))"
      using that(3) by (intro inj_onD [of snd "set (clients b)"]) simp_all
    then show ?thesis by simp
  qed
  then have "inj_on snd (set (subscribed_clients b))" by (auto intro!: inj_onI prod_eqI)
  moreover have "distinct (subscribed_clients b)"
    using inv by (simp add: clients_inv_def un_ok_def distinct_map)
  ultimately show ?thesis by (simp add: distinct_map)
qed

lemma clients_at_present:
  assumes "clients_inv b" and "(fd, p) \<in> set (clients b)"
  shows "clients_at fd b = (p, b)"
proof -
  have "kv_find fst fd (clients b) = Some (fd, p)"
    using assms by (subst un.find_iff) (auto simp: clients_inv_def)
  then show ?thesis by (simp add: clients_at_def)
qed

lemma clients_at_absent:
  assumes "fd \<notin> fst ` set (clients b)"
  shows "clients_at fd b = (None, b\<lparr>clients := (fd, None) # clients b\<rparr>)"
proof -
  have "kv_find fst fd (clients b) = None" using assms by (simp add: kv_find_None_iff)
  then show ?thesis by (simp add: clients_at_def un_insert_def)
qed

lemma AddClient_inv:
  assumes "broker_inv b"
  shows "broker_inv (snd (AddClient sock i now b))"
proof -
  have old: "\<And>e. e \<in> set (clients b) \<Longrightarrow> \<exists>r<next_object b. snd e = Some r"
    using assms by (auto simp: broker_inv_def clients_inv_def)
  then have new: "Some (next_object b) \<notin> snd ` set (clients b)" by force
  have step: "\<And>e. e \<in> set (clients b) \<Longrightarrow> \<exists>r<Suc (next_object b). snd e = Some r"
    using old less_SucI by blast
  have st: "storage_inv c" if "topics c = topics b" "qos_2_topics c = qos_2_topics b" for c :: Broker
    using assms that by (simp add: broker_inv_def storage_inv_def)
  show ?thesis
  proof (cases "kv_find fst sock (clients b) = None")
    case True
    then have "un_insert fst (sock, Some (next_object b)) (clients b) =
        (sock, Some (next_object b)) # clients b"
      by (simp add: un_insert_def)
    with assms True new step show ?thesis
      by (auto simp: AddClient_def Let_def broker_inv_def clients_inv_def control_command_def
          new_Client_inv un_ok_def kv_find_None_iff image_iff intro!: st)
  next
    case False
    with assms step show ?thesis
      by (auto simp: AddClient_def Let_def broker_inv_def clients_inv_def new_Client_inv intro!: st)
  qed
qed

lemma DelClient_clients:
  "clients (DelClient fd b) = kv_erase fst fd (clients b)"
  "subscribed_clients (DelClient fd b) = kv_erase fst fd (subscribed_clients b)"
  "clients (CloseConnection fd b) = kv_erase fst fd (clients b)"
  "subscribed_clients (CloseConnection fd b) = kv_erase fst fd (subscribed_clients b)"
  by (simp_all add: DelClient_def DelSubscribedClient_def CloseConnection_def Let_def)

lemma distinct_snd_kv_erase: "distinct (map snd es) \<Longrightarrow> distinct (map snd (kv_erase fst k es))"
  by (induction es) auto

lemma DelClient_inv: "broker_inv b \<Longrightarrow> broker_inv (DelClient fd b)"
proof -
  assume inv: "broker_inv b"
  have nx: "next_object (DelClient fd b) = next_object b"
    by (simp add: DelClient_def DelSubscribedClient_def Let_def)
  have "clients_inv (DelClient fd b)"
    using inv by (auto simp: broker_inv_def clients_inv_def DelClient_clients un.ok_erase
        distinct_snd_kv_erase nx)
  with inv show ?thesis
    by (simp add: broker_inv_def storage_inv_def DelClient_def DelSubscribedClient_def Let_def)
qed

lemma CloseConnection_inv: "broker_inv b \<Longrightarrow> broker_inv (CloseConnection fd b)"
proof -
  assume "broker_inv b"
  then have "broker_inv (b\<lparr>closed := closed b @ [fd]\<rparr>)"
    by (simp add: broker_inv_def clients_inv_def storage_inv_def)
  then show ?thesis by (simp add: CloseConnection_def DelClient_inv)
qed

lemma AddSubscribedClient_inv:
  assumes "broker_inv b" and "(fd, Some r) \<in> set (clients b)"
  shows "broker_inv (AddSubscribedClient fd r b)"
proof -
  have ok: "un_ok fst (subscribed_clients b)" using assms by (simp add: broker_inv_def clients_inv_def)
  have "clients_inv (AddSubscribedClient fd r b)"
    using assms un.ok_ins [OF ok, of "(fd, r)"] un.set_ins [OF ok, of "(fd, r)"]
    by (auto simp: broker_inv_def clients_inv_def AddSubscribedClient_def split: if_splits)
  with assms show ?thesis
    by (simp add: broker_inv_def storage_inv_def AddSubscribedClient_def)
qed

lemma upd_obj_inv:
  assumes "broker_inv b" and "client_inv (objects b r) \<Longrightarrow> client_inv (f (objects b r))"
  shows "broker_inv (upd_obj r f b)"
  using assms by (simp add: broker_inv_def clients_inv_def storage_inv_def upd_obj_def)

lemma enqueue_inv: "broker_inv b \<Longrightarrow> broker_inv (enqueue fd pkt b)"
  by (simp add: broker_inv_def clients_inv_def storage_inv_def enqueue_def)

lemma DelQosEvent_inv: "broker_inv b \<Longrightarrow> broker_inv (DelQosEvent i n b)"
  by (simp add: broker_inv_def clients_inv_def storage_inv_def DelQosEvent_def)

lemma SetState_inv: "broker_inv b \<Longrightarrow> broker_inv (SetState s b)"
  by (simp add: broker_inv_def clients_inv_def storage_inv_def SetState_def)

text \<open>Changes to the storage the broker inherits.\<close>

lemma topic_storage_inv:
  "broker_inv b \<Longrightarrow> storage_inv c \<Longrightarrow>
    broker_inv (b\<lparr>topics := topics c, qos_2_topics := qos_2_topics c\<rparr>)"
  by (simp add: broker_inv_def clients_inv_def storage_inv_def)

lemma StoreTopicValue_broker_inv:
  "broker_inv b \<Longrightarrow> broker_inv (StoreTopicValue q i nm d b)"
  using StoreTopic_inv [of b "new_MqttTopic q i nm d"]
  by (simp add: broker_inv_def clients_inv_def storage_inv_def StoreTopicValue_def StoreTopic_def Let_def)

lemma AddQoSTopic_broker_inv: "broker_inv b \<Longrightarrow> broker_inv (AddQoSTopic i t b)"
  using AddQoSTopic_inv [of b i t]
  by (simp add: broker_inv_def clients_inv_def storage_inv_def AddQoSTopic_def)

lemma DelQoSTopic_broker_inv: "broker_inv b \<Longrightarrow> broker_inv (DelQoSTopic i n b)"
  using DelQoSTopic_inv [of b i n]
  by (simp add: broker_inv_def clients_inv_def storage_inv_def DelQoSTopic_def)

subsection \<open>What a delivery changes\<close>

text \<open>Commands are appended and generators of identifiers move; all else stays.\<close>

definition delivers :: "Broker \<Rightarrow> Broker \<Rightarrow> bool" where
  "delivers b b' \<longleftrightarrow> (\<exists>cs objs. b' = b\<lparr>commands := commands b @ cs, objects := objs\<rparr> \<and>
     (\<forall>r. \<exists>i. objs r = (objects b r)\<lparr>packet_id_gen := i\<rparr>))"

lemma eta_gen: "\<forall>r. \<exists>i. (objs r :: Client) = (objs r)\<lparr>packet_id_gen := i\<rparr>"
proof
  fix r
  have "objs r = (objs r)\<lparr>packet_id_gen := packet_id_gen (objs r)\<rparr>" by simp
  then show "\<exists>i. objs r = (objs r)\<lparr>packet_id_gen := i\<rparr>" ..
qed

lemma delivers_refl: "delivers b b"
proof -
  have "b = b\<lparr>commands := commands b @ [], objects := objects b\<rparr>" by simp
  moreover have "\<forall>r. \<exists>i. objects b r = (objects b r)\<lparr>packet_id_gen := i\<rparr>"
    by (rule eta_gen)
  ultimately show ?thesis unfolding delivers_def by blast
qed

lemma delivers_trans: "delivers b b' \<Longrightarrow> delivers b' b'' \<Longrightarrow> delivers b b''"
proof -
  assume "delivers b b'" and "delivers b' b''"
  then obtain cs objs cs' objs' where
    1: "b' = b\<lparr>commands := commands b @ cs, objects := objs\<rparr>"
      "\<forall>r. \<exists>i. objs r = (objects b r)\<lparr>packet_id_gen := i\<rparr>" and
    2: "b'' = b'\<lparr>commands := commands b' @ cs', objects := objs'\<rparr>"
      "\<forall>r. \<exists>i. objs' r = (objects b' r)\<lparr>packet_id_gen := i\<rparr>"
    unfolding delivers_def by blast
  have "\<exists>i. objs' r = (objects b r)\<lparr>packet_id_gen := i\<rparr>" for r
  proof -
    obtain i j where "objs' r = (objects b' r)\<lparr>packet_id_gen := i\<rparr>"
      "objs r = (objects b r)\<lparr>packet_id_gen := j\<rparr>"
      using 1(2) 2(2) by blast
    with 1(1) have "objs' r = (objects b r)\<lparr>packet_id_gen := i\<rparr>" by simp
    then show ?thesis ..
  qed
  moreover have "b'' = b\<lparr>commands := commands b @ (cs @ cs'), objects := objs'\<rparr>"
    using 1(1) 2(1) by simp
  ultimately show ?thesis unfolding delivers_def by blast
qed

lemma delivers_enqueue: "delivers b (enqueue fd pkt b)"
proof -
  have "enqueue fd pkt b = b\<lparr>commands := commands b @ [new_FdWriteCommand fd (snd pkt, Some (fst pkt))],
      objects := objects b\<rparr>"
    by (simp add: enqueue_def AddCommand_def)
  moreover have "\<forall>r. \<exists>i. objects b r = (objects b r)\<lparr>packet_id_gen := i\<rparr>"
    by (rule eta_gen)
  ultimately show ?thesis unfolding delivers_def by blast
qed

lemma delivers_give_id:
  assumes "give_id r topic b = (topic', b')"
  shows "delivers b b'"
proof (cases "t_qos topic = 0")
  case True
  with assms show ?thesis by (auto simp: give_id_def delivers_refl)
next
  case False
  then have b': "b' = b\<lparr>commands := commands b @ [],
      objects := (objects b)(r := snd (GenPacketID (objects b r)))\<rparr>"
    using assms by (auto simp: give_id_def upd_obj_def)
  have "\<exists>i. ((objects b)(r := snd (GenPacketID (objects b r)))) s = (objects b s)\<lparr>packet_id_gen := i\<rparr>" for s
    using eta_gen [of "objects b"] by (cases "s = r") (auto simp: GenPacketID_def)
  with b' show ?thesis unfolding delivers_def by blast
qed

lemma delivers_postponed: "delivers b b' \<Longrightarrow> postponed_events b' = postponed_events b"
  by (auto simp: delivers_def)

lemma delivers_clients:
  "delivers b b' \<Longrightarrow> clients b' = clients b \<and> subscribed_clients b' = subscribed_clients b"
  by (auto simp: delivers_def)

lemma delivers_inv: "delivers b b' \<Longrightarrow> broker_inv b \<Longrightarrow> broker_inv b'"
proof -
  assume "delivers b b'" and inv: "broker_inv b"
  then obtain cs objs where b': "b' = b\<lparr>commands := commands b @ cs, objects := objs\<rparr>"
    and objs: "\<forall>r. \<exists>i. objs r = (objects b r)\<lparr>packet_id_gen := i\<rparr>"
    unfolding delivers_def by blast
  have "client_inv (objs r)" for r
    using objs [rule_format, of r] inv by (auto simp: broker_inv_def client_inv_def)
  with inv show ?thesis by (simp add: b' broker_inv_def clients_inv_def storage_inv_def)
qed

lemma send_topic_delivers:
  "postponed_events b = [] \<Longrightarrow> send_topic fd i topic b = Inr b' \<Longrightarrow> delivers b b'"
  by (auto simp: send_topic_direct rbind_eq_Inr delivers_enqueue)

lemma notify_loop_delivers:
  "notify_loop es topic b = Inr (topic', b') \<Longrightarrow> postponed_events b = [] \<Longrightarrow> delivers b b'"
proof (induction es topic b rule: notify_loop.induct)
  case (1 topic b)
  then show ?case by (simp add: delivers_refl)
next
  case (2 fd r es topic b)
  show ?case
  proof (cases "lock r b")
    case True
    with 2 obtain mine options where my: "MyTopic (t_name topic) (objects b r) = Inr (mine, options)"
      by (auto simp: rbind_eq_Inr)
    show ?thesis
    proof (cases mine)
      case True
      obtain topic1 b1 where give: "give_id r (SetQos (options AND 3) topic) b = (topic1, b1)"
        by (cases "give_id r (SetQos (options AND 3) topic) b")
      from 2(4) \<open>lock r b\<close> my True give obtain b2
        where send: "send_topic fd (client_id (objects b1 r)) topic1 b1 = Inr b2"
          and rest: "notify_loop es topic1 b2 = Inr (topic', b')"
        by (auto simp: rbind_eq_Inr)
      have d1: "delivers b b1" using give by (rule delivers_give_id)
      then have d2: "delivers b1 b2"
        using send_topic_delivers [OF _ send] 2(5) by (simp add: delivers_postponed)
      have "delivers b2 b'"
        using 2(2) [OF _ my refl _ refl give [symmetric] refl send rest] \<open>lock r b\<close> True 2(5) d1 d2
        by (simp add: delivers_postponed)
      with d1 d2 show ?thesis by (blast intro: delivers_trans)
    next
      case False
      with 2 \<open>lock r b\<close> my show ?thesis by auto
    qed
  next
    case False
    with 2 show ?thesis by auto
  qed
qed

lemma NotifyClients_delivers:
  "NotifyClients topic b = Inr (topic', b') \<Longrightarrow> postponed_events b = [] \<Longrightarrow> delivers b b'"
  unfolding NotifyClients_def by (rule notify_loop_delivers)

lemma NotifyClient_delivers:
  assumes "NotifyClient fd topic b = Inr (topic', b')" and "postponed_events b = []"
    and "clients_inv b"
  shows "delivers b b'"
proof -
  obtain p b0 where at: "clients_at fd b = (p, b0)" by (cases "clients_at fd b")
  with assms(1) obtain r where p: "p = Some r" by (auto simp: NotifyClient_def rbind_eq_Inr)
  with at have b0: "b0 = b" by (auto simp: clients_at_def split: option.splits)
  obtain topic1 b1 where give: "give_id r topic b = (topic1, b1)" by (cases "give_id r topic b")
  with assms(1) at p b0 have send: "send_topic fd (client_id (objects b1 r)) topic1 b1 = Inr b'"
    by (auto simp: NotifyClient_def rbind_eq_Inr)
  have d1: "delivers b b1" using give by (rule delivers_give_id)
  then show ?thesis
    using send_topic_delivers [OF _ send] assms(2) by (metis delivers_postponed delivers_trans)
qed

text \<open>Delivery changes the quality of service and the identifier of the topic it is given, nothing else.\<close>

lemma notify_loop_topic:
  "notify_loop es topic b = Inr (topic', b') \<Longrightarrow> t_name topic' = t_name topic \<and> t_data topic' = t_data topic"
proof (induction es topic b rule: notify_loop.induct)
  case (2 fd r es topic b)
  show ?case
  proof (cases "lock r b")
    case True
    then obtain mine options where my: "MyTopic (t_name topic) (objects b r) = Inr (mine, options)"
      using 2(4) by (auto simp: rbind_eq_Inr)
    obtain topic1 b1 where give: "give_id r (SetQos (options AND 3) topic) b = (topic1, b1)"
      by (cases "give_id r (SetQos (options AND 3) topic) b")
    then have same: "t_name topic1 = t_name topic" "t_data topic1 = t_data topic"
      by (auto simp: give_id_def SetQos_def SetPacketID_def split: if_splits)
    show ?thesis
    proof (cases mine)
      case True
      then obtain b2 where send: "send_topic fd (client_id (objects b1 r)) topic1 b1 = Inr b2"
        and rest: "notify_loop es topic1 b2 = Inr (topic', b')"
        using 2(4) \<open>lock r b\<close> my give by (auto simp: rbind_eq_Inr)
      show ?thesis
        using 2(2) [OF _ my refl _ refl give [symmetric] refl send rest] \<open>lock r b\<close> True same by simp
    qed (use 2 \<open>lock r b\<close> my in auto)
  qed (use 2 in auto)
qed simp

lemma NotifyClients_topic:
  "NotifyClients topic b = Inr (topic', b') \<Longrightarrow> t_name topic' = t_name topic \<and> t_data topic' = t_data topic"
  unfolding NotifyClients_def by (rule notify_loop_topic)

text \<open>In a good state a topic goes to exactly the subscribers whose filters match.\<close>

lemma NotifyClients_exact:
  assumes "broker_inv b" and "\<forall>e\<in>set (subscribed_clients b). ready (t_name topic) (objects b (snd e))"
    and "t_data topic = Some m" and "length (t_name topic) < 2 ^ 16" and "length m < 2 ^ 16"
  shows "\<exists>topic'. NotifyClients topic b = Inr (topic', b\<lparr>commands := commands b @
      List.map_filter (delivery (objects b) (t_name topic) m) (subscribed_clients b),
      objects := bump (t_name topic) (subscribed_clients b) (objects b)\<rparr>)"
  using notify_loop_deliver [of "subscribed_clients b" b topic m] assms
    distinct_subscribed [of b] subscribed_lock [of b]
  by (auto simp: NotifyClients_def broker_inv_def)

end
