(* ===== verification/Handlers.thy ===== *)
theory Handlers
  imports Broker_State
begin

text \<open>
  The parsers of \<open>src/handlers.cpp\<close>: each reads the body of one kind of packet into its variable
  header and what follows it, and changes the client object where the code does. A buffer is the
  block of \<open>remaining_len\<close> bytes the server allocated; offsets into it are \<open>uint32_t\<close>.
\<close>

section \<open>CONNECT\<close>

text \<open>
  The client identifier: one in use is taken over by closing the other connection when a clean
  start is asked for, and refused otherwise; an empty one is replaced by a random one.
\<close>

definition connect_id :: "(nat \<Rightarrow> nat) \<Rightarrow> nat \<Rightarrow> bytes option \<Rightarrow> Broker \<Rightarrow> (mqtt_err \<times> Broker) res" where
  "connect_id rnd r i b =
     (case i of
        Some nm \<Rightarrow>
          rbind (GetClientFd nm b) (\<lambda>check_fd.
          if check_fd \<noteq> -1 then
            if isCleanFlag (objects b r) then
              Inr (mqtt_ok, upd_obj r (SetID nm) (CloseConnection check_fd b))
            else Inr (duplicate_client_id, b)
          else Inr (mqtt_ok, upd_obj r (SetID nm) b))
      | None \<Rightarrow>
          Inr (mqtt_ok, upd_obj r SetRandomID (upd_obj r (SetID (GenRandom rnd 23)) b)))"

definition connect_will :: "nat \<Rightarrow> bytes \<Rightarrow> u32 \<Rightarrow> Broker \<Rightarrow> (mqtt_err \<times> u32 \<times> Broker) res" where
  "connect_will r buf offset b =
     (if \<not> isWillFlag (objects b r) then Inr (mqtt_ok, offset, b)
      else
        rbind (chain_Create (will_properties (objects b r)) buf (unat offset))
          (\<lambda>(status, will_property_size, ch).
        let b = upd_obj r (\<lambda>c. c\<lparr>will_properties := ch\<rparr>) b in
        if status \<noteq> mqtt_ok then Inr (status, offset, b)
        else
          let offset = offset + will_property_size in
          rbind (ConvertToHost2Bytes buf (unat offset)) (\<lambda>str_len.
          let offset = offset + 2 in
          rbind (rd_block buf (unat offset) (unat str_len)) (\<lambda>will_topic_name.
          let offset = offset + ucast str_len in
          rbind (ConvertToHost2Bytes buf (unat offset)) (\<lambda>dlen.
          let offset = offset + 2 in
          rbind (rd_block buf (unat offset) (unat dlen)) (\<lambda>msg.
          let b = upd_obj r (\<lambda>c. c\<lparr>will_topic :=
                    new_MqttTopic (WillQoSFlag c) 1 will_topic_name (Some msg)\<rparr>) b
          in Inr (mqtt_ok, offset + ucast dlen, b)))))))"

definition connect_auth :: "nat \<Rightarrow> bytes \<Rightarrow> u32 \<Rightarrow> Broker \<Rightarrow> (mqtt_err \<times> Broker) res" where
  "connect_auth r buf offset b =
     (if \<not> isUserNameFlag (objects b r) then Inr (mqtt_ok, b)
      else
        rbind (CreateMqttStringEntity (Some (buf, unat offset))) (\<lambda>(nm, user_name_len).
        case nm of
          None \<Rightarrow> Inr (user_name_err, b)
        | Some nm \<Rightarrow>
            let b = upd_obj r (setUserName nm) b;
                offset = offset + ucast user_name_len
            in if \<not> isPwdFlag (objects b r) then Inr (mqtt_ok, b)
               else
                 rbind (CreateMqttBinaryDataEntity (Some (buf, unat offset))) (\<lambda>(w, passwd_len).
                 case w of
                   None \<Rightarrow> Inr (auth_fail, b)
                 | Some w \<Rightarrow> Inr (mqtt_ok, upd_obj r (setPwd w) b))))"

definition HandleMqttConnect ::
    "(nat \<Rightarrow> nat) \<Rightarrow> nat \<Rightarrow> bytes \<Rightarrow> Broker \<Rightarrow> (mqtt_err \<times> Broker) res" where
  "HandleMqttConnect rnd r buf b =
     rbind (ConnectVH_ReadFromBuf buf 0 0) (\<lambda>(con_vh, offset).
     if version con_vh \<noteq> MQTT_VERSION_5 then Inr (protocol_version_err, b)
     else
       let b = upd_obj r (SetClientMQTTVersion (version con_vh)) b;
           b = upd_obj r (SetConnAlive (vh_alive con_vh)) b;
           b = upd_obj r (SetConnFlags (conn_flags con_vh)) b
       in rbind (chain_Create (conn_properties (objects b r)) buf (unat offset))
            (\<lambda>(create_status, property_size, ch).
          let b = upd_obj r (\<lambda>c. c\<lparr>conn_properties := ch\<rparr>) b in
          if create_status \<noteq> mqtt_ok then Inr (create_status, b)
          else
            let offset = offset + property_size in
            rbind (CreateMqttStringEntity (Some (buf, unat offset))) (\<lambda>(i, id_len).
            rbind (connect_id rnd r i b) (\<lambda>(err, b).
            if err \<noteq> mqtt_ok then Inr (err, b)
            else
              let offset = (if id_len \<noteq> 0 then offset + ucast id_len else offset + 2) in
              rbind (connect_will r buf offset b) (\<lambda>(err, offset, b).
              if err \<noteq> mqtt_ok then Inr (err, b)
              else connect_auth r buf offset b)))))"

section \<open>PUBLISH\<close>

text \<open>
  The header is copied and then moved to the caller. The payload is read for the log at its full
  length, and for the message at the length the \<open>uint16_t\<close> parameter keeps of it.
\<close>

definition HandleMqttPublish :: "FixedHeader \<Rightarrow> bytes \<Rightarrow> (PublishVH \<times> bytes) res" where
  "HandleMqttPublish fh buf =
     rbind (read_PublishVH (QoS fh \<noteq> 0) buf) (\<lambda>(tmp_vh, offset).
     rbind (assign_PublishVH tmp_vh) (\<lambda>p_vh.
     let n = remaining_len fh - offset in
     rbind (rd_block buf (unat offset) (unat n)) (\<lambda>_.
     rbind (rd_block buf (unat offset) (unat (ucast n :: u16))) (\<lambda>message.
     Inr (p_vh, message)))))"

section \<open>SUBSCRIBE and UNSUBSCRIBE\<close>

text \<open>The loops over the topic filters; \<open>None\<close> is a loop that does not end.\<close>

partial_function (option) subscribe_loop ::
    "bytes \<Rightarrow> u32 \<Rightarrow> u32 \<Rightarrow> nat \<Rightarrow> (bytes \<times> u8) list \<Rightarrow> Broker \<Rightarrow>
      ((bytes \<times> u8) list \<times> Broker) res option" where
  "subscribe_loop buf remaining offset r acc b =
     (if offset < remaining then
        (case ConvertToHost2Bytes buf (unat offset) of
           Inl f \<Rightarrow> Some (Inl f)
         | Inr name_len \<Rightarrow>
        (case rd_block buf (unat (offset + 2)) (unat name_len) of
           Inl f \<Rightarrow> Some (Inl f)
         | Inr nm \<Rightarrow>
        (case rd8 buf (unat (offset + 2 + ucast name_len)) of
           Inl f \<Rightarrow> Some (Inl f)
         | Inr options \<Rightarrow>
             subscribe_loop buf remaining (offset + 2 + ucast name_len + 1) r (acc @ [(nm, options)])
               (upd_obj r (AddSubscription nm options) b))))
      else Some (Inr (acc, b)))"

definition HandleMqttSubscribe ::
    "nat \<Rightarrow> FixedHeader \<Rightarrow> bytes \<Rightarrow> Broker \<Rightarrow>
      (SubscribeVH \<times> u8 list \<times> (bytes \<times> u8) list \<times> Broker) res" where
  "HandleMqttSubscribe r fh buf b =
     rbind (read_SubscribeVH buf) (\<lambda>(vh, offset).
     rbind (returned (subscribe_loop buf (remaining_len fh) offset r [] b)) (\<lambda>(subscribe_topics, b).
     Inr (vh, map (\<lambda>_. qos_code QoS_2) subscribe_topics, subscribe_topics, b)))"

partial_function (option) unsubscribe_loop ::
    "bytes \<Rightarrow> u32 \<Rightarrow> u32 \<Rightarrow> bytes list \<Rightarrow> bytes list res option" where
  "unsubscribe_loop buf remaining offset acc =
     (if offset < remaining then
        (case ConvertToHost2Bytes buf (unat offset) of
           Inl f \<Rightarrow> Some (Inl f)
         | Inr name_len \<Rightarrow>
        (case rd_block buf (unat (offset + 2)) (unat name_len) of
           Inl f \<Rightarrow> Some (Inl f)
         | Inr nm \<Rightarrow>
             unsubscribe_loop buf remaining (offset + 2 + ucast name_len) (acc @ [nm])))
      else Some (Inr acc))"

definition HandleMqttUnsubscribe :: "FixedHeader \<Rightarrow> bytes \<Rightarrow> (UnsubscribeVH \<times> bytes list) res" where
  "HandleMqttUnsubscribe fh buf =
     rbind (UnsubscribeVH_ReadFromBuf (new_UnsubscribeVH 0 []) buf 0 0) (\<lambda>(p_vh, offset).
     rbind (returned (unsubscribe_loop buf (remaining_len fh) offset [])) (\<lambda>topics_to_unsubscribe.
     Inr (p_vh, topics_to_unsubscribe)))"

section \<open>The acknowledgements\<close>

definition HandleMqttPuback :: "bytes \<Rightarrow> PubackVH \<Rightarrow> PubackVH res" where
  "HandleMqttPuback buf p_vh = rbind (PubackVH_ReadFromBuf p_vh buf 0 0) (\<lambda>(p_vh, _). Inr p_vh)"

definition HandleMqttPubrel :: "bytes \<Rightarrow> TypicalVH \<Rightarrow> TypicalVH res" where
  "HandleMqttPubrel buf t_vh = rbind (PubackVH_ReadFromBuf t_vh buf 0 0) (\<lambda>(t_vh, _). Inr t_vh)"

section \<open>The loops end\<close>

lemma unat_add_u32: "unat a + n < 2 ^ 32 \<Longrightarrow> unat (a + of_nat n :: u32) = unat a + n"
  by (simp add: unat_word_ariths unsigned_of_nat take_bit_nat_eq_self)

lemma ucast_u16_u32: "(ucast (w :: u16) :: u32) = of_nat (unat w)"
proof -
  have "unat w < 2 ^ 16" using unsigned_less [of w, where 'a = nat] by simp
  then show ?thesis
    by (simp add: word_unat_eq_iff unsigned_ucast_eq unsigned_of_nat take_bit_nat_eq_self)
qed

lemma subscribe_loop_ends:
  assumes "length buf < 2 ^ 31"
  shows "subscribe_loop buf remaining offset r acc b \<noteq> None"
proof (induction "length buf - unat offset" arbitrary: offset acc b rule: less_induct)
  case less
  note unfold = subscribe_loop.simps [of buf remaining offset r acc b]
  show ?case
  proof (cases "offset < remaining")
    case True
    show ?thesis
    proof (cases "ConvertToHost2Bytes buf (unat offset)")
      case (Inr len)
      then have in1: "unat offset + 2 \<le> length buf" by (rule ConvertToHost2Bytes_InrD)
      show ?thesis
      proof (cases "rd_block buf (unat (offset + 2)) (unat len)")
        case nm: (Inr nm)
        have o2: "unat (offset + 2) = unat offset + 2"
          using unat_add_u32 [of offset 2] in1 assms by simp
        with nm have in2: "unat offset + 2 + unat len \<le> length buf"
          using rd_block_InrD by force
        have e1: "unat (offset + of_nat (3 + unat len)) = unat offset + (3 + unat len)"
          using in2 assms by (intro unat_add_u32) simp
        have e2: "offset + of_nat (3 + unat len) = offset + 2 + ucast len + 1"
          by (simp only: ucast_u16_u32 of_nat_add) (simp add: algebra_simps)
        have "length buf - unat (offset + 2 + ucast len + 1) < length buf - unat offset"
          using in1 unfolding e2 [symmetric] e1 by linarith
        from less [OF this] show ?thesis
          using True Inr nm unfold by (cases "rd8 buf (unat (offset + 2 + ucast len))") simp_all
      qed (use True Inr unfold in simp)
    qed (use True unfold in simp)
  qed (use unfold in simp)
qed

lemma unsubscribe_loop_ends:
  assumes "length buf < 2 ^ 31"
  shows "unsubscribe_loop buf remaining offset acc \<noteq> None"
proof (induction "length buf - unat offset" arbitrary: offset acc rule: less_induct)
  case less
  note unfold = unsubscribe_loop.simps [of buf remaining offset acc]
  show ?case
  proof (cases "offset < remaining")
    case True
    show ?thesis
    proof (cases "ConvertToHost2Bytes buf (unat offset)")
      case (Inr len)
      then have in1: "unat offset + 2 \<le> length buf" by (rule ConvertToHost2Bytes_InrD)
      show ?thesis
      proof (cases "rd_block buf (unat (offset + 2)) (unat len)")
        case nm: (Inr nm)
        have "unat (offset + 2) = unat offset + 2"
          using unat_add_u32 [of offset 2] in1 assms by simp
        with nm have in2: "unat offset + 2 + unat len \<le> length buf"
          using rd_block_InrD by force
        have e1: "unat (offset + of_nat (2 + unat len)) = unat offset + (2 + unat len)"
          using in2 assms by (intro unat_add_u32) simp
        have e2: "offset + of_nat (2 + unat len) = offset + 2 + ucast len"
          by (simp only: ucast_u16_u32 of_nat_add) (simp add: algebra_simps)
        have "length buf - unat (offset + 2 + ucast len) < length buf - unat offset"
          using in1 unfolding e2 [symmetric] e1 by linarith
        from less [OF this] show ?thesis using True Inr nm unfold by simp
      qed (use True Inr unfold in simp)
    qed (use True unfold in simp)
  qed (use unfold in simp)
qed

section \<open>The loops read what a client encodes\<close>

definition subs_enc :: "(bytes \<times> u8) list \<Rightarrow> bytes" where
  "subs_enc ts = concat (map (\<lambda>(nm, opts). str_enc nm @ [opts]) ts)"

lemma subs_enc_simps [simp]:
  "subs_enc [] = []" "subs_enc ((nm, opts) # ts) = str_enc nm @ opts # subs_enc ts"
  by (simp_all add: subs_enc_def)

definition subscribe_all :: "nat \<Rightarrow> (bytes \<times> u8) list \<Rightarrow> Broker \<Rightarrow> Broker" where
  "subscribe_all r ts b = fold (\<lambda>(nm, opts). upd_obj r (AddSubscription nm opts)) ts b"

lemma subscribe_loop_enc:
  assumes "\<forall>t\<in>set ts. length (fst t) < 2 ^ 16" and "length (xs @ subs_enc ts) < 2 ^ 32"
  shows "subscribe_loop (xs @ subs_enc ts) (of_nat (length (xs @ subs_enc ts))) (of_nat (length xs)) r acc b =
    Some (Inr (acc @ ts, subscribe_all r ts b))"
  using assms
proof (induction ts arbitrary: xs acc b)
  case Nil
  then show ?case by (simp add: subscribe_loop.simps subscribe_all_def)
next
  case (Cons t ts)
  obtain nm opts where t: "t = (nm, opts)" by (cases t)
  define buf where "buf = xs @ subs_enc (t # ts)"
  have buf: "buf = xs @ str_enc nm @ [opts] @ subs_enc ts"
    "buf = (xs @ str_enc nm @ [opts]) @ subs_enc ts"
    by (simp_all add: buf_def t)
  have nm: "length nm < 2 ^ 16" "unat (of_nat (length nm) :: u16) = length nm"
    using Cons.prems(1) by (simp_all add: t)
  have len: "length xs + 3 + length nm \<le> length buf" "length buf < 2 ^ 32"
    using Cons.prems(2) by (simp_all add: buf_def t)
  have pos: "unat (of_nat (length xs) :: u32) = length xs"
    "unat (of_nat (length xs) + 2 :: u32) = length xs + 2"
    "unat (of_nat (length xs) + 2 + ucast (of_nat (length nm) :: u16) :: u32) = length xs + 2 + length nm"
    using unat_of_nat32 [of "length xs"] unat_of_nat32 [of "length xs + 2"]
      unat_of_nat32 [of "length xs + 2 + length nm"] len nm
    by (simp_all add: ucast_u16_u32 algebra_simps)
  have more: "(of_nat (length xs) :: u32) < of_nat (length buf)"
    using len by (simp add: word_less_nat_alt pos)
  have r1: "ConvertToHost2Bytes buf (length xs) = Inr (of_nat (length nm))"
    by (simp add: buf str_enc_def mem_simps)
  have r2: "rd_block buf (length xs + 2) (length nm) = Inr nm"
    by (simp add: buf str_enc_def rd_block_def)
  have r3: "rd8 buf (length xs + 2 + length nm) = Inr opts"
    using rd8_append [of "xs @ str_enc nm" opts "subs_enc ts"] by (simp add: buf add.assoc)
  have next_pos: "of_nat (length xs) + 2 + ucast (of_nat (length nm) :: u16) + 1 =
      (of_nat (length (xs @ str_enc nm @ [opts])) :: u32)"
    using nm by (simp add: ucast_u16_u32 algebra_simps)
  have "subscribe_loop buf (of_nat (length buf)) (of_nat (length xs)) r acc b =
      subscribe_loop buf (of_nat (length buf)) (of_nat (length (xs @ str_enc nm @ [opts]))) r
        (acc @ [(nm, opts)]) (upd_obj r (AddSubscription nm opts) b)"
    by (subst subscribe_loop.simps) (simp only: more if_True pos r1 r2 r3 nm sum.case next_pos)
  also have "\<dots> = Some (Inr ((acc @ [(nm, opts)]) @ ts,
      subscribe_all r ts (upd_obj r (AddSubscription nm opts) b)))"
    unfolding buf(2) by (rule Cons.IH) (use Cons.prems in \<open>auto simp: t\<close>)
  finally show ?case by (simp add: buf_def t subscribe_all_def)
qed

lemma HandleMqttSubscribe_enc:
  assumes "chain_readable (sub_chain v)" and "sub_packet_id v \<noteq> 0"
    and "\<forall>t\<in>set ts. length (fst t) < 2 ^ 16"
    and "buf = vh_enc (Subscribe_vh v) @ subs_enc ts" and "length buf < 2 ^ 28"
    and "remaining_len fh = of_nat (length buf)"
  shows "HandleMqttSubscribe r fh buf b =
    Inr (v, map (\<lambda>_. qos_code QoS_2) ts, ts, subscribe_all r ts b)"
proof -
  have "subscribe_loop buf (of_nat (length buf)) (of_nat (length (vh_enc (Subscribe_vh v)))) r [] b =
      Some (Inr ([] @ ts, subscribe_all r ts b))"
    unfolding assms(4) by (rule subscribe_loop_enc) (use assms in simp_all)
  moreover have "read_SubscribeVH buf = Inr (v, of_nat (length (vh_enc (Subscribe_vh v))))"
    unfolding assms(4) by (rule read_SubscribeVH_enc) (use assms in simp_all)
  ultimately show ?thesis by (simp add: HandleMqttSubscribe_def assms(6) del: vh_enc.simps)
qed

lemma unsubscribe_loop_enc:
  assumes "\<forall>t\<in>set ts. length t < 2 ^ 16" and "length (xs @ concat (map str_enc ts)) < 2 ^ 32"
  shows "unsubscribe_loop (xs @ concat (map str_enc ts))
      (of_nat (length (xs @ concat (map str_enc ts)))) (of_nat (length xs)) acc =
    Some (Inr (acc @ ts))"
  using assms
proof (induction ts arbitrary: xs acc)
  case Nil
  then show ?case by (simp add: unsubscribe_loop.simps)
next
  case (Cons nm ts)
  define buf where "buf = xs @ concat (map str_enc (nm # ts))"
  have buf: "buf = xs @ str_enc nm @ concat (map str_enc ts)"
    "buf = (xs @ str_enc nm) @ concat (map str_enc ts)"
    by (simp_all add: buf_def)
  have nm: "length nm < 2 ^ 16" "unat (of_nat (length nm) :: u16) = length nm"
    using Cons.prems(1) by simp_all
  have len: "length xs + 2 + length nm \<le> length buf" "length buf < 2 ^ 32"
    using Cons.prems(2) by (simp_all add: buf_def)
  have pos: "unat (of_nat (length xs) :: u32) = length xs"
    "unat (of_nat (length xs) + 2 :: u32) = length xs + 2"
    using unat_of_nat32 [of "length xs"] unat_of_nat32 [of "length xs + 2"] len
    by (simp_all add: algebra_simps)
  have more: "(of_nat (length xs) :: u32) < of_nat (length buf)"
    using len by (simp add: word_less_nat_alt pos)
  have r1: "ConvertToHost2Bytes buf (length xs) = Inr (of_nat (length nm))"
    by (simp add: buf str_enc_def mem_simps)
  have r2: "rd_block buf (length xs + 2) (length nm) = Inr nm"
    by (simp add: buf str_enc_def rd_block_def)
  have next_pos: "of_nat (length xs) + 2 + ucast (of_nat (length nm) :: u16) =
      (of_nat (length (xs @ str_enc nm)) :: u32)"
    using nm by (simp add: ucast_u16_u32 algebra_simps)
  have "unsubscribe_loop buf (of_nat (length buf)) (of_nat (length xs)) acc =
      unsubscribe_loop buf (of_nat (length buf)) (of_nat (length (xs @ str_enc nm))) (acc @ [nm])"
    by (subst unsubscribe_loop.simps) (simp only: more if_True pos r1 r2 nm sum.case next_pos)
  also have "\<dots> = Some (Inr ((acc @ [nm]) @ ts))"
    unfolding buf(2) by (rule Cons.IH) (use Cons.prems in auto)
  finally show ?case by (simp add: buf_def)
qed

lemma HandleMqttUnsubscribe_enc:
  assumes "chain_readable (us_chain v)" and "\<forall>t\<in>set ts. length t < 2 ^ 16"
    and "buf = vh_enc (Unsubscribe_vh v) @ concat (map str_enc ts)" and "length buf < 2 ^ 28"
    and "remaining_len fh = of_nat (length buf)"
  shows "HandleMqttUnsubscribe fh buf = Inr (v, ts)"
proof -
  have "unsubscribe_loop buf (of_nat (length buf)) (of_nat (length (vh_enc (Unsubscribe_vh v)))) [] =
      Some (Inr ([] @ ts))"
    unfolding assms(3) by (rule unsubscribe_loop_enc) (use assms in simp_all)
  moreover have "UnsubscribeVH_ReadFromBuf (new_UnsubscribeVH 0 []) buf 0 0 =
      Inr (v, of_nat (length (vh_enc (Unsubscribe_vh v))))"
    unfolding assms(3) by (rule UnsubscribeVH_ReadFromBuf_enc) (use assms in simp_all)
  ultimately show ?thesis by (simp add: HandleMqttUnsubscribe_def assms(5) del: vh_enc.simps)
qed

section \<open>What becomes of a published message\<close>

lemma assign_PublishVH_id:
  assumes "chain_inv (pu_chain v)" and "\<forall>q\<in>set (pu_chain v). copyable q"
  shows "assign_PublishVH v = Inr v"
  using assms by (simp add: assign_PublishVH_def chain_copy_id)

lemma HandleMqttPublish_enc:
  assumes "chain_readable (pu_chain v)" and "\<forall>q\<in>set (pu_chain v). copyable q"
    and "length (topic_name v) < 2 ^ 16" and "QoS fh = 0 \<longleftrightarrow> pu_packet_id v = 0"
    and "buf = publish_body v m" and "length buf < 2 ^ 28" and "remaining_len fh = of_nat (length buf)"
  shows "HandleMqttPublish fh buf = Inr (v, take (length m mod 2 ^ 16) m)"
proof -
  define k where "k = length (vh_enc (Publish_vh v))"
  have buf: "buf = vh_enc (Publish_vh v) @ m" using assms(5) by (simp add: publish_body_def)
  have read: "read_PublishVH (QoS fh \<noteq> 0) buf = Inr (v, of_nat k)"
    unfolding buf k_def by (rule read_PublishVH_enc) (use assms in auto)
  have copy: "assign_PublishVH v = Inr v"
    using assms(1,2) by (intro assign_PublishVH_id) (simp_all add: chain_readable_def)
  have len: "length buf = k + length m" by (simp add: buf k_def del: vh_enc.simps)
  have n: "(of_nat (length buf) - of_nat k :: u32) = of_nat (length m)" by (simp add: len)
  have k: "unat (of_nat k :: u32) = k" "unat (of_nat (length m) :: u32) = length m"
    using len assms(6) by (auto intro!: unat_of_nat32)
  have t: "unat (ucast (of_nat (length m) :: u32) :: u16) = length m mod 2 ^ 16"
    using k(2) by (simp add: unsigned_ucast_eq take_bit_eq_mod)
  have "rd_block buf k (length m) = Inr m"
    by (simp add: rd_block_def len) (simp add: buf k_def del: vh_enc.simps)
  moreover have "rd_block buf k (length m mod 2 ^ 16) = Inr (take (length m mod 2 ^ 16) m)"
    by (simp add: rd_block_def len) (simp add: buf k_def del: vh_enc.simps)
  ultimately show ?thesis
    using read copy k t n by (simp add: HandleMqttPublish_def assms(7))
qed

text \<open>A property with binary data, which the copy mishandles, stops the broker.\<close>

lemma HandleMqttPublish_binary:
  assumes "chain_readable (pu_chain v)" and "length (topic_name v) < 2 ^ 16"
    and "QoS fh = 0 \<longleftrightarrow> pu_packet_id v = 0"
    and "pu_chain v = as @ q # bs" and "\<forall>q\<in>set as. copyable q"
    and "property q = MqttBinaryDataEntity d"
  shows "HandleMqttPublish fh (vh_enc (Publish_vh v) @ m) = Inl OobRead"
proof -
  have "prop_wf q" using assms(1,4) by (simp add: chain_readable_def)
  then have "length d + 2 < 2 ^ 16" using assms(6) by (simp add: prop_wf_def prop_enc_def)
  then have "chain_copy (pu_chain v) = Inl OobRead"
    unfolding assms(4) by (rule chain_copy_binary [OF assms(5,6)])
  moreover have "read_PublishVH (QoS fh \<noteq> 0) (vh_enc (Publish_vh v) @ m) =
      Inr (v, of_nat (length (vh_enc (Publish_vh v))))"
    by (rule read_PublishVH_enc) (use assms in auto)
  ultimately show ?thesis
    by (simp add: HandleMqttPublish_def assign_PublishVH_def del: vh_enc.simps)
qed

text \<open>Whatever the bytes, the payload read stays inside the block.\<close>

lemma HandleMqttPublish_payload:
  assumes "read_PublishVH (QoS fh \<noteq> 0) buf = Inr (v, offset)" and "assign_PublishVH v = Inr p_vh"
    and "length buf < 2 ^ 28" and "remaining_len fh = of_nat (length buf)"
  shows "\<exists>message. HandleMqttPublish fh buf = Inr (p_vh, message)"
proof -
  have off: "unat offset \<le> length buf" using read_PublishVH_bound [OF assms(1)] assms(3) by simp
  define k where "k = unat offset"
  have "offset = of_nat k" by (simp add: k_def)
  then have "(of_nat (length buf) - offset :: u32) = of_nat (length buf - k)"
    using off by (simp add: k_def of_nat_diff)
  then have n: "unat (of_nat (length buf) - offset :: u32) = length buf - k"
    using assms(3) unat_of_nat32 [of "length buf - k"] by simp
  have "unat (ucast (of_nat (length buf) - offset :: u32) :: u16) \<le> length buf - k"
    using n by (simp add: unsigned_ucast_eq)
  then have "rd_block buf k (length buf - k) \<noteq> Inl e"
    "rd_block buf k (unat (ucast (of_nat (length buf) - offset :: u32) :: u16)) \<noteq> Inl e" for e
    using off by (auto simp: rd_block_def k_def)
  then obtain x y where "rd_block buf k (length buf - k) = Inr x"
    "rd_block buf k (unat (ucast (of_nat (length buf) - offset :: u32) :: u16)) = Inr y"
    by (metis sum.exhaust)
  then show ?thesis
    using assms n by (simp add: HandleMqttPublish_def k_def [symmetric])
qed

end
