(* ===== verification/Packet_Handlers.thy ===== *)
theory Packet_Handlers
  imports Handlers
begin

text \<open>
  The handlers of \<open>src/mqtt_packet_handler.cpp\<close>, one for each packet a client may send, and
  the dispatch over the list of registered handlers; and the error handlers of
  \<open>src/mqtt_error_handler.cpp\<close>. A handler takes the fixed header, the body and the
  descriptor, and returns the error code with the broker afterwards. A null client pointer is
  dereferenced at its first use.
\<close>

section \<open>Pieces the handlers share\<close>

text \<open>\<open>AddCommand (fd, tuple {answer_size, CreateMqttPacket (..., answer_vh, answer_size)})\<close>.\<close>

definition reply :: "int \<Rightarrow> u8 \<Rightarrow> IVariableHeader \<Rightarrow> Broker \<Rightarrow> Broker res" where
  "reply fd t answer_vh b = rbind (CreateMqttPacket_vh t answer_vh) (\<lambda>pkt. Inr (enqueue fd pkt b))"

definition packet_type_byte :: "mqtt_pack_type \<Rightarrow> u8" where
  "packet_type_byte t = Build (PacketType (pack_code t) FHBuilder)"

definition send_postponed :: "int \<Rightarrow> bytes \<Rightarrow> Broker \<Rightarrow> Broker res" where
  "send_postponed fd i b =
     (if CheckIfMoreMessages i b then
        rbind (GetPacket i b) (\<lambda>(data_mes, found).
        Inr (if found then b\<lparr>commands := AddCommand fd data_mes (commands b)\<rparr> else b))
      else Inr b)"

section \<open>The handlers\<close>

definition connack_chain :: "Client \<Rightarrow> MqttPropertyChain" where
  "connack_chain c =
     (let ch = (if isRandomID c then withClientIdentifier (client_id c) [] else [])
      in withSharedSubAvailable 0 (withWildCard 1 (withMaxPocketSize 65535 (withRetainAvailable 1 ch))))"

definition MqttConnectPacketHandler ::
    "(nat \<Rightarrow> nat) \<Rightarrow> FixedHeader \<Rightarrow> bytes \<Rightarrow> int \<Rightarrow> Broker \<Rightarrow> (mqtt_err \<times> Broker) res" where
  "MqttConnectPacketHandler rnd f_header dat fd b =
     (let (p, b) = clients_at fd b
      in case p of
           None \<Rightarrow> Inr (handle_error, b)
         | Some r \<Rightarrow>
             rbind (HandleMqttConnect rnd r dat b) (\<lambda>(handle_stat, b).
             if handle_stat \<noteq> mqtt_ok then Inr (handle_stat, b)
             else
               let c = objects b r;
                   answer_vh = Connact_vh (new_ConnactVH (if isCleanFlag c then 0 else 1) (rc success)
                                 (connack_chain c))
               in rbind (reply fd (packet_type_byte CONNACK) answer_vh b) (\<lambda>b. Inr (mqtt_ok, b))))"

definition MqttPublishPacketHandler ::
    "FixedHeader \<Rightarrow> bytes \<Rightarrow> int \<Rightarrow> Broker \<Rightarrow> (mqtt_err \<times> Broker) res" where
  "MqttPublishPacketHandler f_header dat fd b =
     (let (p, b) = clients_at fd b
      in rbind (HandleMqttPublish f_header dat) (\<lambda>(vh, pMessage).
         rbind (deref p) (\<lambda>r.
         let i = client_id (objects b r);
             b = (if isRETAIN f_header
                  then StoreTopicValue (QoS f_header) (pu_packet_id vh) (topic_name vh) (Some pMessage) b
                  else b)
         in rbind
              (if QoS f_header = qos_code QoS_1 then
                 reply fd (packet_type_byte PUBACK)
                   (Puback_vh (new_PubackVH (pu_packet_id vh) (rc success) [])) b
               else if QoS f_header = qos_code QoS_2 then
                 let answer_vh = Puback_vh (new_TypicalVH (pu_packet_id vh) (rc success) [])
                 in if \<not> CheckIfMoreMessages i b then
                      reply fd (packet_type_byte PUBREC) answer_vh b
                    else
                      rbind (CreateMqttPacket_vh
                              (Build (WithDup (PacketType (pack_code PUBREC) FHBuilder))) answer_vh)
                        (\<lambda>pkt. Inr (AddQosEvent i \<lparr>data_len = snd pkt, pData = Some (fst pkt),
                                  mp_packet_id = pu_packet_id vh\<rparr> b))
               else Inr b) (\<lambda>b.
            let topic = new_MqttTopic (QoS f_header) (pu_packet_id vh) (topic_name vh) (Some pMessage)
            in if QoS f_header \<noteq> qos_code QoS_2 then
                 rbind (NotifyClients topic b) (\<lambda>(_, b). Inr (mqtt_ok, b))
               else Inr (mqtt_ok, AddQoSTopic i topic b)))))"

text \<open>The retained topics for one filter are sent with the options of the subscription as qos.\<close>

fun send_retained :: "int \<Rightarrow> u8 \<Rightarrow> MqttTopic list \<Rightarrow> Broker \<Rightarrow> Broker res" where
  "send_retained fd options [] b = Inr b"
| "send_retained fd options (t # ts) b =
     rbind (NotifyClient fd (SetQos options t) b) (\<lambda>(_, b). send_retained fd options ts b)"

fun retained_loop :: "int \<Rightarrow> (bytes \<times> u8) list \<Rightarrow> Broker \<Rightarrow> Broker res" where
  "retained_loop fd [] b = Inr b"
| "retained_loop fd ((nm, options) # tpcs) b =
     rbind (GetMatchedTopics nm b) (\<lambda>retain_topics.
     rbind (send_retained fd options retain_topics b) (\<lambda>b. retained_loop fd tpcs b))"

definition MqttSubscribePacketHandler ::
    "FixedHeader \<Rightarrow> bytes \<Rightarrow> int \<Rightarrow> Broker \<Rightarrow> (mqtt_err \<times> Broker) res" where
  "MqttSubscribePacketHandler f_header dat fd b =
     (let (p, b) = clients_at fd b
      in rbind (deref p) (\<lambda>r.
         rbind (HandleMqttSubscribe r f_header dat b) (\<lambda>(vh, reason_codes, tpcs, b).
         rbind (reply fd (packet_type_byte SUBACK)
                 (Suback_vh (new_SubackVH (sub_packet_id vh) [] reason_codes)) b) (\<lambda>b.
         rbind (retained_loop fd tpcs b) (\<lambda>b.
         Inr (mqtt_ok, AddSubscribedClient fd r b))))))"

definition MqttPubAckPacketHandler ::
    "FixedHeader \<Rightarrow> bytes \<Rightarrow> int \<Rightarrow> Broker \<Rightarrow> (mqtt_err \<times> Broker) res" where
  "MqttPubAckPacketHandler f_header dat fd b =
     (let (p, b) = clients_at fd b
      in rbind (HandleMqttPuback dat (new_PubackVH 0 0 [])) (\<lambda>p_vh.
         rbind (deref p) (\<lambda>r.
         let i = client_id (objects b r);
             b = DelQosEvent i (pa_packet_id p_vh) b
         in rbind (send_postponed fd i b) (\<lambda>b. Inr (mqtt_ok, b)))))"

definition MqttDisconnectPacketHandler ::
    "FixedHeader \<Rightarrow> bytes \<Rightarrow> int \<Rightarrow> Broker \<Rightarrow> (mqtt_err \<times> Broker) res" where
  "MqttDisconnectPacketHandler f_header dat fd b =
     (let (p, b) = clients_at fd b
      in rbind (deref p) (\<lambda>r.
         if remaining_len f_header > 0 then rbind (rd8 dat 0) (\<lambda>_. Inr (disconnect, b))
         else Inr (disconnect, b)))"

definition MqttPingPacketHandler ::
    "FixedHeader \<Rightarrow> bytes \<Rightarrow> int \<Rightarrow> Broker \<Rightarrow> (mqtt_err \<times> Broker) res" where
  "MqttPingPacketHandler f_header dat fd b =
     (let (p, b) = clients_at fd b
      in rbind (deref p) (\<lambda>r.
         rbind (CreateMqttPacket (packet_type_byte PINGRESP)) (\<lambda>pkt.
         Inr (mqtt_ok, enqueue fd pkt b))))"

fun unsubscribe_all :: "nat \<Rightarrow> bytes list \<Rightarrow> u8 list \<Rightarrow> Broker \<Rightarrow> u8 list \<times> Broker" where
  "unsubscribe_all r [] codes b = (codes, b)"
| "unsubscribe_all r (nm # nms) codes b =
     (let (n, c) = DelSubscription nm (objects b r);
          code = (if n \<noteq> 0 then rc success else rc no_subscription_existed)
      in unsubscribe_all r nms (codes @ [code]) (upd_obj r (\<lambda>_. c) b))"

definition MqttUnsubscribePacketHandler ::
    "FixedHeader \<Rightarrow> bytes \<Rightarrow> int \<Rightarrow> Broker \<Rightarrow> (mqtt_err \<times> Broker) res" where
  "MqttUnsubscribePacketHandler f_header dat fd b =
     (let (p, b) = clients_at fd b
      in rbind (deref p) (\<lambda>r.
         rbind (HandleMqttUnsubscribe f_header dat) (\<lambda>(u_vh, topics_to_unsubscribe).
         let (reason_codes, b) = unsubscribe_all r topics_to_unsubscribe [] b
         in rbind (reply fd (packet_type_byte UNSUBACK)
                    (UnsubAck_vh (new_UnsubAckVH (us_packet_id u_vh) [] reason_codes)) b) (\<lambda>b.
            Inr (mqtt_ok, b)))))"

definition MqttPubRelPacketHandler ::
    "FixedHeader \<Rightarrow> bytes \<Rightarrow> int \<Rightarrow> Broker \<Rightarrow> (mqtt_err \<times> Broker) res" where
  "MqttPubRelPacketHandler f_header dat fd b =
     (let (p, b) = clients_at fd b
      in rbind (HandleMqttPubrel dat (new_TypicalVH 0 0 [])) (\<lambda>t_vh.
         rbind (deref p) (\<lambda>r.
         rbind (reply fd (packet_type_byte PUBCOMP)
                 (Puback_vh (new_TypicalVH (pa_packet_id t_vh) (rc success) [])) b) (\<lambda>b.
         let i = client_id (objects b r);
             b = DelQosEvent i (pa_packet_id t_vh) b
         in rbind (send_postponed fd i b) (\<lambda>b.
            let (topic, found) = GetQoSTopic i (pa_packet_id t_vh) b
            in if found then
                 rbind (NotifyClients topic b) (\<lambda>(_, b).
                 Inr (mqtt_ok, DelQoSTopic i (pa_packet_id t_vh) b))
               else Inr (mqtt_ok, b))))))"

definition MqttPubRecPacketHandler ::
    "FixedHeader \<Rightarrow> bytes \<Rightarrow> int \<Rightarrow> Broker \<Rightarrow> (mqtt_err \<times> Broker) res" where
  "MqttPubRecPacketHandler f_header dat fd b =
     rbind (HandleMqttPuback dat (new_TypicalVH 0 0 [])) (\<lambda>t_vh.
     let (p, b) = clients_at fd b
     in rbind (deref p) (\<lambda>r.
        let b = DelQosEvent (client_id (objects b r)) (pa_packet_id t_vh) b
        in rbind (reply fd (packet_type_byte PUBREL OR push_bit 1 1)
                   (Puback_vh (new_TypicalVH (pa_packet_id t_vh) (rc success) [])) b) (\<lambda>b.
           Inr (mqtt_ok, b))))"

definition MqttPubCompPacketHandler ::
    "FixedHeader \<Rightarrow> bytes \<Rightarrow> int \<Rightarrow> Broker \<Rightarrow> (mqtt_err \<times> Broker) res" where
  "MqttPubCompPacketHandler f_header dat fd b =
     rbind (HandleMqttPuback dat (new_TypicalVH 0 0 [])) (\<lambda>t_vh.
     let (p, b) = clients_at fd b
     in rbind (deref p) (\<lambda>r.
        rbind (send_postponed fd (client_id (objects b r)) b) (\<lambda>b. Inr (mqtt_ok, b))))"

section \<open>Dispatch\<close>

datatype packet_handler =
    Publish_Handler | PubAck_Handler | PubRel_Handler | PubRec_Handler | PubComp_Handler
  | Ping_Handler | Subscribe_Handler | Disconnect_Handler | Unsubscribe_Handler | Connect_Handler

primrec handler_type :: "packet_handler \<Rightarrow> mqtt_pack_type" where
  "handler_type Publish_Handler = PUBLISH"
| "handler_type PubAck_Handler = PUBACK"
| "handler_type PubRel_Handler = PUBREL"
| "handler_type PubRec_Handler = PUBREC"
| "handler_type PubComp_Handler = PUBCOMP"
| "handler_type Ping_Handler = PINGREQ"
| "handler_type Subscribe_Handler = SUBSCRIBE"
| "handler_type Disconnect_Handler = DISCONNECT"
| "handler_type Unsubscribe_Handler = UNSUBSCRIBE"
| "handler_type Connect_Handler = CONNECT"

primrec run_handler ::
    "packet_handler \<Rightarrow> (nat \<Rightarrow> nat) \<Rightarrow> FixedHeader \<Rightarrow> bytes \<Rightarrow> int \<Rightarrow> Broker \<Rightarrow> (mqtt_err \<times> Broker) res" where
  "run_handler Publish_Handler rnd = MqttPublishPacketHandler"
| "run_handler PubAck_Handler rnd = MqttPubAckPacketHandler"
| "run_handler PubRel_Handler rnd = MqttPubRelPacketHandler"
| "run_handler PubRec_Handler rnd = MqttPubRecPacketHandler"
| "run_handler PubComp_Handler rnd = MqttPubCompPacketHandler"
| "run_handler Ping_Handler rnd = MqttPingPacketHandler"
| "run_handler Subscribe_Handler rnd = MqttSubscribePacketHandler"
| "run_handler Disconnect_Handler rnd = MqttDisconnectPacketHandler"
| "run_handler Unsubscribe_Handler rnd = MqttUnsubscribePacketHandler"
| "run_handler Connect_Handler rnd = MqttConnectPacketHandler rnd"

text \<open>In the order in which the constructor of the broker adds them.\<close>

definition packet_handlers :: "packet_handler list" where
  "packet_handlers = [Publish_Handler, PubAck_Handler, PubRel_Handler, PubRec_Handler,
     PubComp_Handler, Ping_Handler, Subscribe_Handler, Disconnect_Handler, Unsubscribe_Handler,
     Connect_Handler]"

fun dispatch ::
    "packet_handler list \<Rightarrow> (nat \<Rightarrow> nat) \<Rightarrow> FixedHeader \<Rightarrow> bytes \<Rightarrow> int \<Rightarrow> Broker \<Rightarrow> (mqtt_err \<times> Broker) res" where
  "dispatch [] rnd f_header dat fd b = Inr (handle_error, b)"
| "dispatch (h # hs) rnd f_header dat fd b =
     (if GetType f_header = pack_code (handler_type h) then run_handler h rnd f_header dat fd b
      else dispatch hs rnd f_header dat fd b)"

definition HandlePacket ::
    "(nat \<Rightarrow> nat) \<Rightarrow> FixedHeader \<Rightarrow> bytes \<Rightarrow> int \<Rightarrow> Broker \<Rightarrow> (mqtt_err \<times> Broker) res" where
  "HandlePacket rnd f_header dat fd b = dispatch packet_handlers rnd f_header dat fd b"

section \<open>Errors\<close>

datatype error_handler = Disconnect_Err | ProtocolVersion_Err | Handle_Err | DuplicateID_Err

primrec err_GetErr :: "error_handler \<Rightarrow> mqtt_err" where
  "err_GetErr Disconnect_Err = disconnect"
| "err_GetErr ProtocolVersion_Err = protocol_version_err"
| "err_GetErr Handle_Err = handle_error"
| "err_GetErr DuplicateID_Err = duplicate_client_id"

text \<open>A refusal is handed to \<open>WriteData\<close> at once, past the queue. The handlers drop what it returns, so
  that \<open>direct\<close> records the bytes handed over, all of them; how many the kernel takes is in \<open>WriteData\<close>.\<close>

definition refuse :: "mqtt_reason_code \<Rightarrow> int \<Rightarrow> Broker \<Rightarrow> Broker res" where
  "refuse c fd b =
     rbind (CreateMqttPacket_vh (packet_type_byte CONNACK) (Connact_vh (new_ConnactVH 0 (rc c) [])))
       (\<lambda>(dat, answer_size). Inr (b\<lparr>direct := direct b @ [(fd, take (unat answer_size) dat)]\<rparr>))"

primrec run_error_handler :: "error_handler \<Rightarrow> int \<Rightarrow> Broker \<Rightarrow> Broker res" where
  "run_error_handler Disconnect_Err fd b = Inr b"
| "run_error_handler ProtocolVersion_Err fd b = refuse unsupported_protocol_version fd b"
| "run_error_handler Handle_Err fd b = Inr b"
| "run_error_handler DuplicateID_Err fd b = refuse client_identifier_not_valid fd b"

definition error_handlers :: "error_handler list" where
  "error_handlers = [Disconnect_Err, ProtocolVersion_Err, Handle_Err, DuplicateID_Err]"

fun error_dispatch :: "error_handler list \<Rightarrow> mqtt_err \<Rightarrow> int \<Rightarrow> Broker \<Rightarrow> Broker res" where
  "error_dispatch [] e fd b = Inr b"
| "error_dispatch (h # hs) e fd b =
     (if err_GetErr h = e then run_error_handler h fd b else error_dispatch hs e fd b)"

definition HandleError :: "mqtt_err \<Rightarrow> int \<Rightarrow> Broker \<Rightarrow> Broker res" where
  "HandleError e fd b = error_dispatch error_handlers e fd b"

end
