(* ===== verification/Server.thy ===== *)
theory Server
  imports Packet_Handlers
begin

text \<open>
  The threads of \<open>src/broker.cpp\<close> and the loop of \<open>main.cpp\<close>: one pass of the server
  thread over its poll set, the thread that would repeat postponed messages, the acceptance of a
  connection, and the step relation of the whole program. What the kernel answers (which
  descriptors are ready, the bytes that arrive, the time) is the environment of a pass.
\<close>

section \<open>Names of packet types\<close>

text \<open>
  They are looked up for log messages only, with an unchecked index. It is the type of a header or
  a constant, and both are in range, so that the lookups are left out below.
\<close>

definition pack_type_names :: "string list" where
  "pack_type_names =
     [''RESERVED'', ''CONNECT'', ''CONNACK'', ''PUBLISH'', ''PUBACK'', ''PUBREC'', ''PUBREL'', ''PUBCOMP'', ''SUBSCRIBE'',
      ''SUBACK'', ''UNSUBSCRIBE'', ''UNSUBACK'', ''PINGREQ'', ''PINGRESP'', ''DISCONNECT'', ''AUTH'']"

definition GetControlPacketTypeName :: "u8 \<Rightarrow> string res" where
  "GetControlPacketTypeName p = vec_at pack_type_names (unat p)"

lemma pack_type_name_in_range:
  assumes "p < 16"
  shows "GetControlPacketTypeName p = Inr (pack_type_names ! unat p)"
proof -
  have "unat p < unat (16 :: u8)" using assms by (simp only: word_less_nat_alt)
  then show ?thesis by (simp add: GetControlPacketTypeName_def vec_at_def pack_type_names_def)
qed

lemmas pack_type_name_found =
  pack_type_name_in_range [OF GetType_bound] pack_type_name_in_range [OF pack_code_bound]

section \<open>The environment\<close>

datatype revents = NoEvents | Pollin | OtherEvents

text \<open>
  \<open>polled\<close> is what \<open>poll\<close> reports of a descriptor, \<open>ctl_in\<close> what the control socket gives: \<open>None\<close> when \<open>accept\<close> fails, else the bytes read
  from the connection; \<open>hdr_in\<close> are the bytes a descriptor still delivers from a fixed header on and
  \<open>body_in\<close> the rounds of \<open>ReadData\<close> on it.
\<close>

record env =
  poll_failed :: bool
  polled :: "int \<Rightarrow> revents"
  cur_time :: int
  ctl_in :: "bytes option"
  hdr_in :: "int \<Rightarrow> bytes"
  body_in :: "int \<Rightarrow> nat \<Rightarrow> nat \<Rightarrow> rd_event"
  rand_vals :: "nat \<Rightarrow> nat"

type_synonym pollfd = "int \<times> revents"

section \<open>One pass of the server thread\<close>

text \<open>The will of a client; the topic is changed in place by the delivery.\<close>

definition notify_will :: "nat \<Rightarrow> Broker \<Rightarrow> Broker res" where
  "notify_will r b =
     (if isWillFlag (objects b r) then
        rbind (NotifyClients (will_topic (objects b r)) b) (\<lambda>(t, b).
        Inr (upd_obj r (\<lambda>c. c\<lparr>will_topic := t\<rparr>) b))
      else Inr b)"

text \<open>A client descriptor is ready. The flag of the result says whether it goes to the list of
  descriptors to delete.\<close>

definition serve_data :: "env \<Rightarrow> int \<Rightarrow> Broker \<Rightarrow> (bool \<times> Broker) res" where
  "serve_data e fd b =
     (let (p, b) = clients_at fd b
      in rbind (deref p) (\<lambda>r.
         let b = upd_obj r (SetPacketLastTime (cur_time e)) b;
             (ret, f_head, _) = ReadFixedHeader (hdr_in e fd) (new_FixedHeader 0)
         in if ret = broker_ok then
              let (read_status, buf) = ReadData (body_in e fd) fd (int (unat (remaining_len f_head)))
              in if read_status \<noteq> int (unat (remaining_len f_head)) then Inr (True, b)
                 else
                   rbind (HandlePacket (rand_vals e) f_head buf fd b) (\<lambda>(handle_stat, b).
                   if handle_stat \<noteq> mqtt_ok then
                     rbind (HandleError handle_stat fd b) (\<lambda>b. Inr (True, b))
                   else Inr (False, b))
            else rbind (notify_will r b) (\<lambda>b. Inr (True, b))))"

definition serve_closed :: "int \<Rightarrow> Broker \<Rightarrow> (bool \<times> Broker) res" where
  "serve_closed fd b =
     (let (p, b) = clients_at fd b
      in rbind (deref p) (\<lambda>r. rbind (notify_will r b) (\<lambda>b. Inr (True, b))))"

definition timed_out :: "int \<Rightarrow> Client \<Rightarrow> bool" where
  "timed_out t c \<longleftrightarrow> t - time_last_packet c \<ge> int (unat (alive c)) + 5"

definition serve_quiet :: "env \<Rightarrow> int \<Rightarrow> Broker \<Rightarrow> (bool \<times> Broker) res" where
  "serve_quiet e fd b =
     (let (p, b) = clients_at fd b
      in rbind (deref p) (\<lambda>r.
         if timed_out (cur_time e) (objects b r) then
           rbind (reply fd (packet_type_byte DISCONNECT)
                   (Disconnect_vh (new_DisconnectVH (rc keep_alive_timeout) [])) b) (\<lambda>b.
           rbind (notify_will r b) (\<lambda>b. Inr (True, b)))
         else Inr (False, b)))"

text \<open>The comparison of the 16 bytes of \<open>c_buf\<close>, which starts as zeros, with \<open>ADD\<close>.\<close>

definition is_add :: "bytes option \<Rightarrow> bool" where
  "is_add c \<longleftrightarrow> (case c of None \<Rightarrow> False
     | Some bs \<Rightarrow> bs \<noteq> [] \<and> takeWhile (\<lambda>x. x \<noteq> 0) (take 16 bs) = ADD)"

text \<open>
  The loop over the polled entries, which an \<open>ADD\<close> command leaves. The result is the rest of
  the poll set with the handled events cleared, the descriptors to delete and the broker.
\<close>

fun wait_loop :: "env \<Rightarrow> pollfd list \<Rightarrow> int list \<Rightarrow> Broker \<Rightarrow> (pollfd list \<times> int list \<times> Broker) res" where
  "wait_loop e [] dels b = Inr ([], dels, b)"
| "wait_loop e ((fd, ev) # vs) dels b =
     (if ev = Pollin \<and> fd = control_sock b then
        if is_add (ctl_in e) then Inr ((fd, NoEvents) # vs, dels, SetState started b)
        else rbind (wait_loop e vs dels b) (\<lambda>(vs, dels, b). Inr ((fd, NoEvents) # vs, dels, b))
      else if ev = NoEvents \<and> fd = control_sock b then
        rbind (wait_loop e vs dels b) (\<lambda>(vs, dels, b). Inr ((fd, ev) # vs, dels, b))
      else
        rbind (case ev of
            Pollin \<Rightarrow> serve_data e fd b
          | OtherEvents \<Rightarrow> serve_closed fd b
          | NoEvents \<Rightarrow> serve_quiet e fd b) (\<lambda>(del, b).
        rbind (wait_loop e vs (if del then dels @ [fd] else dels) b) (\<lambda>(vs, dels, b).
        Inr ((fd, if ev = Pollin then NoEvents else ev) # vs, dels, b))))"

fun close_loop :: "int list \<Rightarrow> Broker \<Rightarrow> Broker res" where
  "close_loop [] b = Inr b"
| "close_loop (fd # fds) b =
     (let (p, b) = clients_at fd b
      in rbind (deref p) (\<lambda>_. close_loop fds (CloseConnection fd b)))"

text \<open>
  The number of entries polled is the number of clients and one; a poll set with fewer entries is
  overrun.
\<close>

definition wait_step :: "env \<Rightarrow> pollfd list \<Rightarrow> Broker \<Rightarrow> (pollfd list \<times> Broker) res" where
  "wait_step e vec_fds b =
     (let client_num = unat (GetClientCount b + 1)
      in if length vec_fds < client_num then Inl OobRead
         else
           let pfds = take client_num vec_fds;
               b = (if poll_failed e then SetState started b else b);
               pfds = (if poll_failed e then pfds else map (\<lambda>(fd, _). (fd, polled e fd)) pfds)
           in rbind (wait_loop e pfds [] b) (\<lambda>(vs, fd_to_delete, b).
              rbind (if fd_to_delete \<noteq> [] then close_loop fd_to_delete (SetState started b) else Inr b)
                (\<lambda>b. Inr (vs @ drop client_num vec_fds, b))))"

text \<open>
  The state \<open>started\<close>: the poll set is built, or, when no client is left, the thread executes
  one command and returns; the flag says whether it goes on.
\<close>

definition started_step :: "Broker \<Rightarrow> pollfd list \<times> Broker \<times> bool" where
  "started_step b =
     (if GetClientCount b = 0 then
        let b = SetState init b
        in case Execute_pop (commands b) of
             None \<Rightarrow> ([], b, False)
           | Some (c, cs) \<Rightarrow>
               ([], b\<lparr>commands := cs,
                  direct := direct b @ (case cmd_ptr c of Some p \<Rightarrow> [(cmd_fd c, p)] | None \<Rightarrow> [])\<rparr>, False)
      else (map (\<lambda>c. (fst c, NoEvents)) (clients b) @ [(control_sock b, NoEvents)],
            SetState wait_state b, True))"

definition server_step :: "env \<Rightarrow> pollfd list \<Rightarrow> Broker \<Rightarrow> (pollfd list \<times> Broker \<times> bool) res" where
  "server_step e vec_fds b =
     (case state b of
        started \<Rightarrow> Inr (started_step b)
      | wait_state \<Rightarrow> rbind (wait_step e vec_fds b) (\<lambda>(vec_fds, b). Inr (vec_fds, b, True))
      | init \<Rightarrow> Inr (vec_fds, b, True))"

section \<open>The thread of the postponed messages\<close>

fun client_ids :: "(nat \<Rightarrow> Client) \<Rightarrow> (int \<times> nat option) list \<Rightarrow> (int \<times> bytes) list \<Rightarrow> (int \<times> bytes) list res" where
  "client_ids objs [] acc = Inr acc"
| "client_ids objs ((fd, p) # es) acc =
     rbind (deref p) (\<lambda>r. client_ids objs es (ord_insert fst (fd, client_id (objs r)) acc))"

fun repeat_events :: "(int \<times> bytes) list \<Rightarrow> Broker \<Rightarrow> Broker" where
  "repeat_events [] b = b"
| "repeat_events ((fd, i) # es) b =
     (case kv_find fst i (postponed_events b) of
        Some (_, m # _) \<Rightarrow>
          repeat_events es (b\<lparr>commands := AddCommand fd (data_len m, pData m) (commands b)\<rparr>)
      | _ \<Rightarrow> repeat_events es b)"

definition qos_step :: "Broker \<Rightarrow> Broker res" where
  "qos_step b =
     (if postponed_events b \<noteq> [] then
        rbind (client_ids (objects b) (clients b) []) (\<lambda>ids. Inr (repeat_events ids b))
      else Inr b)"

section \<open>Accepting a connection\<close>

text \<open>The body of the loop of \<open>main\<close> for a new descriptor.\<close>

definition main_step :: "int \<Rightarrow> bytes \<Rightarrow> int \<Rightarrow> Broker \<Rightarrow> Broker" where
  "main_step newsock_fd i t b =
     (if newsock_fd > 0 then
        let (status, b) = AddClient newsock_fd i t b
        in if status \<noteq> broker_ok then b\<lparr>closed := closed b @ [newsock_fd]\<rparr>
           else if GetState b = init then Start b
           else b
      else b)"

section \<open>The program\<close>

record program =
  broker :: Broker
  vec_fds :: "pollfd list"
  serving :: bool
  crashed :: bool

text \<open>
  The threads take turns at these steps. Starting the broker starts a server thread with an empty
  poll set; a step that faults ends the program.
\<close>

inductive pstep :: "program \<Rightarrow> program \<Rightarrow> bool" where
  main: "\<not> crashed s \<Longrightarrow> b' = main_step fd i t (broker s) \<Longrightarrow>
    pstep s (s\<lparr>broker := b', serving := serving s \<or> server_threads b' \<noteq> server_threads (broker s),
      vec_fds := (if server_threads b' \<noteq> server_threads (broker s) then [] else vec_fds s)\<rparr>)"
| serve: "\<not> crashed s \<Longrightarrow> serving s \<Longrightarrow> server_step e (vec_fds s) (broker s) = Inr (v, b', go) \<Longrightarrow>
    pstep s (s\<lparr>broker := b', vec_fds := v, serving := go\<rparr>)"
| serve_fault: "\<not> crashed s \<Longrightarrow> serving s \<Longrightarrow> server_step e (vec_fds s) (broker s) = Inl f \<Longrightarrow>
    pstep s (s\<lparr>crashed := True\<rparr>)"
| qos: "\<not> crashed s \<Longrightarrow> qos_step (broker s) = Inr b' \<Longrightarrow> pstep s (s\<lparr>broker := b'\<rparr>)"
| qos_fault: "\<not> crashed s \<Longrightarrow> qos_step (broker s) = Inl f \<Longrightarrow> pstep s (s\<lparr>crashed := True\<rparr>)"
| sender: "\<not> crashed s \<Longrightarrow> Execute_pop (commands (broker s)) = Some (c, cs) \<Longrightarrow>
    pstep s (s\<lparr>broker := (broker s)\<lparr>commands := cs\<rparr>\<rparr>)"

text \<open>\<open>main\<close> enters its loop with a broker that has no clients.\<close>

definition start_program :: "Broker \<Rightarrow> program" where
  "start_program b = \<lparr>broker = b, vec_fds = [], serving = False, crashed = False\<rparr>"

end
