(* ===== verification/Invariance.thy ===== *)
theory Invariance
  imports Server "HOL-Library.Sublist"
begin

text \<open>
  Every handler, every pass of the server thread and every step of the program keeps the invariant
  of the broker. What the server thread does adds no client, leaves the control socket and the
  number of its threads alone, takes no command out of the queue and gives up no descriptor that was
  closed, and makes no other state than the one in which the poll set is built.
\<close>

section \<open>What a handler may do to the broker\<close>

definition evolves :: "Broker \<Rightarrow> Broker \<Rightarrow> bool" where
  "evolves b b' \<longleftrightarrow> broker_inv b' \<and> set (clients b') \<subseteq> set (clients b) \<and>
     control_sock b' = control_sock b \<and> server_threads b' = server_threads b \<and>
     (state b' = state b \<or> state b' = started) \<and>
     prefix (commands b) (commands b') \<and> prefix (closed b) (closed b')"

named_theorems evo \<open>operations of the broker that evolve it\<close>

lemma evolves_refl [evo]: "broker_inv b \<Longrightarrow> evolves b b"
  by (simp add: evolves_def)

lemma evolves_trans: "evolves b b' \<Longrightarrow> evolves b' b'' \<Longrightarrow> evolves b b''"
  by (auto simp: evolves_def intro: prefix_order.trans)

lemma evolves_inv: "evolves b b' \<Longrightarrow> broker_inv b'"
  by (simp add: evolves_def)

lemma evolves_upd_obj [evo]:
  "broker_inv b \<Longrightarrow> (client_inv (objects b r) \<Longrightarrow> client_inv (f (objects b r))) \<Longrightarrow>
    evolves b (upd_obj r f b)"
  by (simp add: evolves_def upd_obj_inv) (simp add: upd_obj_def)

lemma evolves_enqueue [evo]: "broker_inv b \<Longrightarrow> evolves b (enqueue fd pkt b)"
  by (simp add: evolves_def enqueue_inv) (simp add: enqueue_def AddCommand_def)

lemma evolves_CloseConnection [evo]: "broker_inv b \<Longrightarrow> evolves b (CloseConnection fd b)"
  by (auto simp: evolves_def CloseConnection_inv DelClient_clients)
    (simp_all add: CloseConnection_def DelClient_def DelSubscribedClient_def Let_def)

lemma evolves_DelQosEvent [evo]: "broker_inv b \<Longrightarrow> evolves b (DelQosEvent i n b)"
  by (simp add: evolves_def DelQosEvent_inv) (simp add: DelQosEvent_def)

lemma evolves_StoreTopicValue [evo]: "broker_inv b \<Longrightarrow> evolves b (StoreTopicValue q i nm d b)"
  by (simp add: evolves_def StoreTopicValue_broker_inv) (simp add: StoreTopicValue_def Let_def)

lemma evolves_AddQoSTopic [evo]: "broker_inv b \<Longrightarrow> evolves b (AddQoSTopic i t b)"
  by (simp add: evolves_def AddQoSTopic_broker_inv) (simp add: AddQoSTopic_def)

lemma evolves_DelQoSTopic [evo]: "broker_inv b \<Longrightarrow> evolves b (DelQoSTopic i n b)"
  by (simp add: evolves_def DelQoSTopic_broker_inv) (simp add: DelQoSTopic_def)

lemma evolves_SetState [evo]: "broker_inv b \<Longrightarrow> evolves b (SetState started b)"
  by (simp add: evolves_def SetState_inv) (simp add: SetState_def)

lemma evolves_direct [evo]: "broker_inv b \<Longrightarrow> evolves b (b\<lparr>direct := d\<rparr>)"
  by (simp add: evolves_def broker_inv_def clients_inv_def storage_inv_def)

lemma delivers_evolves: "delivers b b' \<Longrightarrow> broker_inv b \<Longrightarrow> evolves b b'"
proof -
  assume d: "delivers b b'" and "broker_inv b"
  then have "broker_inv b'" by (rule delivers_inv)
  moreover have "control_sock b' = control_sock b" "server_threads b' = server_threads b" "state b' = state b"
      "closed b' = closed b" "prefix (commands b) (commands b')"
    using d by (auto simp: delivers_def)
  ultimately show ?thesis using delivers_clients [OF d] by (simp add: evolves_def)
qed

lemma reply_delivers: "reply fd t v b = Inr b' \<Longrightarrow> delivers b b'"
  by (auto simp: reply_def rbind_eq_Inr delivers_enqueue)

lemma NotifyClients_evolves:
  "NotifyClients topic b = Inr (t, b') \<Longrightarrow> broker_inv b \<Longrightarrow> evolves b b'"
  using NotifyClients_delivers delivers_evolves by (simp add: broker_inv_def)

lemma send_postponed_none: "broker_inv b \<Longrightarrow> send_postponed fd i b = Inr b"
  by (simp add: send_postponed_def CheckIfMoreMessages_def broker_inv_def)

section \<open>The handlers\<close>

lemma connect_id_evolves:
  assumes "connect_id rnd r i b = Inr (e, b')" and "broker_inv b"
  shows "evolves b b'"
proof (cases i)
  case None
  then have b': "b' = upd_obj r SetRandomID (upd_obj r (SetID (GenRandom rnd 23)) b)"
    using assms(1) by (simp add: connect_id_def)
  have "evolves b (upd_obj r (SetID (GenRandom rnd 23)) b)"
    using assms(2) by (intro evo) (simp_all add: client_inv_def SetID_def)
  then show ?thesis
    unfolding b' by (rule evolves_trans)
      (intro evo evolves_inv [OF \<open>evolves b (upd_obj r (SetID (GenRandom rnd 23)) b)\<close>],
       simp_all add: client_inv_def SetRandomID_def)
next
  case (Some nm)
  have set_id: "evolves c (upd_obj r (SetID nm) c)" if "broker_inv c" for c
    using that by (intro evo) (simp_all add: client_inv_def SetID_def)
  obtain fd where fd: "GetClientFd nm b = Inr fd" using assms(1) Some by (auto simp: connect_id_def rbind_eq_Inr)
  show ?thesis
  proof (cases "fd = -1")
    case True
    with assms Some fd show ?thesis by (auto simp: connect_id_def intro: set_id)
  next
    case False
    have close: "evolves b (CloseConnection fd b)" using assms(2) by (rule evo)
    have "evolves b (upd_obj r (SetID nm) (CloseConnection fd b))"
      by (rule evolves_trans [OF close set_id [OF evolves_inv [OF close]]])
    with assms Some fd False show ?thesis
      by (auto simp: connect_id_def evolves_refl split: if_splits)
  qed
qed

lemma connect_will_evolves:
  assumes "connect_will r buf off b = Inr (e, off', b')" and "broker_inv b"
  shows "evolves b b'"
proof -
  have ch: "evolves b (upd_obj r (\<lambda>c. c\<lparr>will_properties := ch\<rparr>) b)"
    if "chain_Create (will_properties (objects b r)) buf p = Inr (st, sz, ch)" for p st sz ch
  proof (rule evo)
    assume "client_inv (objects b r)"
    with chain_Create_inv [OF that] show "client_inv ((objects b r)\<lparr>will_properties := ch\<rparr>)"
      by (simp add: client_inv_def)
  qed (rule assms(2))
  have wt: "evolves c (upd_obj r (\<lambda>c. c\<lparr>will_topic := f c\<rparr>) c)" if "broker_inv c" for c f
    using that by (intro evo) (simp_all add: client_inv_def)
  show ?thesis
    using assms
    by (auto simp: connect_will_def rbind_eq_Inr Let_def evolves_refl intro: ch
        intro!: evolves_trans [OF ch wt [OF evolves_inv [OF ch]]] split: if_splits)
qed

lemma connect_auth_evolves:
  assumes "connect_auth r buf off b = Inr (e, b')" and "broker_inv b"
  shows "evolves b b'"
proof -
  have nm: "evolves c (upd_obj r (setUserName nm) c)" if "broker_inv c" for c nm
    using that by (intro evo) (simp_all add: client_inv_def setUserName_def)
  have pw: "evolves c (upd_obj r (setPwd w) c)" if "broker_inv c" for c w
    using that by (intro evo) (simp_all add: client_inv_def setPwd_def)
  show ?thesis
    using assms
    by (auto simp: connect_auth_def rbind_eq_Inr Let_def evolves_refl intro: nm
        intro!: evolves_trans [OF nm pw [OF evolves_inv [OF nm]]] split: if_splits option.splits)
qed

lemma HandleMqttConnect_evolves:
  assumes "HandleMqttConnect rnd r buf b = Inr (e, b')" and inv: "broker_inv b"
  shows "evolves b b'"
proof -
  obtain v off where v: "ConnectVH_ReadFromBuf buf 0 0 = Inr (v, off)"
    using assms(1) by (auto simp: HandleMqttConnect_def rbind_eq_Inr)
  define b1 where "b1 = upd_obj r (SetClientMQTTVersion (version v)) b"
  define b2 where "b2 = upd_obj r (SetConnAlive (vh_alive v)) b1"
  define b3 where "b3 = upd_obj r (SetConnFlags (conn_flags v)) b2"
  have e1: "evolves b b1" unfolding b1_def
    using inv by (intro evo) (simp_all add: client_inv_def SetClientMQTTVersion_def)
  have e2: "evolves b1 b2" unfolding b2_def
    using evolves_inv [OF e1] by (intro evo) (simp_all add: client_inv_def SetConnAlive_def)
  have e3: "evolves b2 b3" unfolding b3_def
    using evolves_inv [OF e2] by (intro evo) (simp_all add: client_inv_def SetConnFlags_def)
  have b3: "evolves b b3" using e1 e2 e3 by (blast intro: evolves_trans)
  show ?thesis
  proof (cases "version v = MQTT_VERSION_5")
    case False
    with assms v show ?thesis by (simp add: HandleMqttConnect_def evolves_refl)
  next
    case True
    define cont where "cont = (\<lambda>(st, sz, ch).
      let b4 = upd_obj r (\<lambda>c. c\<lparr>conn_properties := ch\<rparr>) b3 in
      if st \<noteq> mqtt_ok then Inr (st, b4)
      else
        rbind (CreateMqttStringEntity (Some (buf, unat (off + sz)))) (\<lambda>(i, id_len).
        rbind (connect_id rnd r i b4) (\<lambda>(err, b).
        if err \<noteq> mqtt_ok then Inr (err, b)
        else
          rbind (connect_will r buf (if id_len \<noteq> 0 then off + sz + ucast id_len else off + sz + 2) b)
            (\<lambda>(err, offset, b).
          if err \<noteq> mqtt_ok then Inr (err, b) else connect_auth r buf offset b))))"
    have main: "rbind (chain_Create (conn_properties (objects b3 r)) buf (unat off)) cont = Inr (e, b')"
      using assms(1) v True by (simp add: HandleMqttConnect_def Let_def b1_def b2_def b3_def cont_def
          del: CreateMqttStringEntity.simps cong: if_cong)
    then obtain st sz ch where
      ch: "chain_Create (conn_properties (objects b3 r)) buf (unat off) = Inr (st, sz, ch)"
      by (auto simp: rbind_eq_Inr)
    with main have main': "cont (st, sz, ch) = Inr (e, b')" by simp
    define b4 where "b4 = upd_obj r (\<lambda>c. c\<lparr>conn_properties := ch\<rparr>) b3"
    have "evolves b3 b4" unfolding b4_def
      using evolves_inv [OF b3] chain_Create_inv [OF ch] by (intro evo) (simp_all add: client_inv_def)
    with b3 have b4: "evolves b b4" by (rule evolves_trans)
    show ?thesis
    proof (cases "st = mqtt_ok")
      case False
      with main' b4 show ?thesis by (simp add: cont_def Let_def b4_def)
    next
      case ok: True
      with main' obtain i n where i: "CreateMqttStringEntity (Some (buf, unat (off + sz))) = Inr (i, n)"
        by (auto simp: cont_def rbind_eq_Inr Let_def simp del: CreateMqttStringEntity.simps)
      with ok main' obtain e5 b5 where
        b5: "connect_id rnd r i b4 = Inr (e5, b5)"
        and rest: "(if e5 \<noteq> mqtt_ok then Inr (e5, b5)
            else rbind (connect_will r buf
                (if n \<noteq> 0 then off + sz + ucast n else off + sz + 2) b5) (\<lambda>(err, offset, b).
              if err \<noteq> mqtt_ok then Inr (err, b) else connect_auth r buf offset b)) = Inr (e, b')"
        by (auto simp: cont_def rbind_eq_Inr Let_def b4_def [symmetric]
            simp del: CreateMqttStringEntity.simps if_split split del: if_split)
      have b5': "evolves b b5"
        using connect_id_evolves [OF b5 evolves_inv [OF b4]] b4 by (blast intro: evolves_trans)
      show ?thesis
      proof (cases "e5 = mqtt_ok")
        case True
        with rest obtain e6 off6 b6 where
          b6: "connect_will r buf (if n \<noteq> 0 then off + sz + ucast n else off + sz + 2) b5 =
            Inr (e6, off6, b6)"
          and rest': "(if e6 \<noteq> mqtt_ok then Inr (e6, b6) else connect_auth r buf off6 b6) = Inr (e, b')"
          by (auto simp: rbind_eq_Inr simp del: if_split split del: if_split)
        have b6': "evolves b b6"
          using connect_will_evolves [OF b6 evolves_inv [OF b5']] b5' by (blast intro: evolves_trans)
        then show ?thesis
          using rest' connect_auth_evolves [of r buf off6 b6 e b'] evolves_inv [OF b6']
          by (auto intro: evolves_trans split: if_splits)
      qed (use rest b5' in simp)
    qed
  qed
qed

lemma reply_evolves: "reply fd t v b = Inr b' \<Longrightarrow> broker_inv b \<Longrightarrow> evolves b b'"
  by (rule delivers_evolves [OF reply_delivers])

lemma Connect_evolves:
  assumes "MqttConnectPacketHandler rnd fh dat fd b = Inr (e, b')"
    and inv: "broker_inv b" and at: "clients_at fd b = (Some r, b)"
  shows "evolves b b'"
proof -
  obtain st b1 where b1: "HandleMqttConnect rnd r dat b = Inr (st, b1)"
    using assms(1) at by (auto simp: MqttConnectPacketHandler_def rbind_eq_Inr)
  have e1: "evolves b b1" by (rule HandleMqttConnect_evolves [OF b1 inv])
  with assms(1) at b1 show ?thesis
    by (auto simp: MqttConnectPacketHandler_def rbind_eq_Inr Let_def split: if_splits
        intro: evolves_trans [OF e1 reply_evolves [OF _ evolves_inv [OF e1]]])
qed

lemma Publish_evolves:
  assumes "MqttPublishPacketHandler fh dat fd b = Inr (e, b')"
    and inv: "broker_inv b" and at: "clients_at fd b = (Some r, b)"
  shows "evolves b b'"
proof -
  obtain vh m where vh: "HandleMqttPublish fh dat = Inr (vh, m)"
    using assms(1) at by (auto simp: MqttPublishPacketHandler_def rbind_eq_Inr)
  define i where "i = client_id (objects b r)"
  define b1 where "b1 = (if isRETAIN fh
    then StoreTopicValue (QoS fh) (pu_packet_id vh) (topic_name vh) (Some m) b else b)"
  define topic where "topic = new_MqttTopic (QoS fh) (pu_packet_id vh) (topic_name vh) (Some m)"
  have e1: "evolves b b1" using inv by (simp add: b1_def evo)
  have more: "\<not> CheckIfMoreMessages i b1"
    using evolves_inv [OF e1] by (simp add: CheckIfMoreMessages_def broker_inv_def)
  define acked where "acked = (if QoS fh = qos_code QoS_1
    then reply fd (packet_type_byte PUBACK) (Puback_vh (new_PubackVH (pu_packet_id vh) (rc success) [])) b1
    else if QoS fh = qos_code QoS_2
    then reply fd (packet_type_byte PUBREC) (Puback_vh (new_TypicalVH (pu_packet_id vh) (rc success) [])) b1
    else Inr b1)"
  define cont where "cont = (\<lambda>b2. if QoS fh \<noteq> qos_code QoS_2
    then rbind (NotifyClients topic b2) (\<lambda>(_, b). Inr (mqtt_ok, b))
    else Inr (mqtt_ok, AddQoSTopic i topic b2))"
  have "MqttPublishPacketHandler fh dat fd b = rbind acked cont"
    by (simp only: MqttPublishPacketHandler_def at Let_def prod.case vh rbind.simps deref.simps
        i_def [symmetric] b1_def [symmetric] topic_def [symmetric] more not_False_eq_True if_True
        acked_def cont_def)
  with assms(1) obtain b2 where acked: "acked = Inr b2" and cont: "cont b2 = Inr (e, b')"
    by (auto simp: rbind_eq_Inr)
  have rest: "(if QoS fh \<noteq> qos_code QoS_2 then rbind (NotifyClients topic b2) (\<lambda>(_, b). Inr (mqtt_ok, b))
      else Inr (mqtt_ok, AddQoSTopic i topic b2)) = Inr (e, b')"
    using cont by (simp only: cont_def)
  have b2: "b2 = b1 \<or> (\<exists>t v. reply fd t v b1 = Inr b2)"
    using acked by (auto simp: acked_def split: if_splits)
  have e2: "evolves b b2"
    using b2 e1 reply_evolves [OF _ evolves_inv [OF e1]] by (blast intro: evolves_trans)
  note inv2 = evolves_inv [OF e2]
  show ?thesis
  proof (cases "QoS fh = qos_code QoS_2")
    case True
    with rest have "b' = AddQoSTopic i topic b2" by simp
    then show ?thesis using evolves_trans [OF e2 evolves_AddQoSTopic [OF inv2]] by simp
  next
    case False
    with rest obtain t where "NotifyClients topic b2 = Inr (t, b')" by (auto simp: rbind_eq_Inr)
    then show ?thesis using evolves_trans [OF e2 NotifyClients_evolves [OF _ inv2]] by blast
  qed
qed

lemma send_retained_delivers:
  "send_retained fd opts ts b = Inr b' \<Longrightarrow> broker_inv b \<Longrightarrow> delivers b b'"
proof (induction ts arbitrary: b)
  case (Cons t ts)
  then obtain t' b1 where b1: "NotifyClient fd (SetQos opts t) b = Inr (t', b1)"
    and rest: "send_retained fd opts ts b1 = Inr b'"
    by (auto simp: rbind_eq_Inr)
  have d: "delivers b b1"
    using b1 Cons.prems(2) NotifyClient_delivers by (simp add: broker_inv_def)
  with Cons.IH [OF rest] Cons.prems(2) show ?case by (blast intro: delivers_trans delivers_inv)
qed (simp add: delivers_refl)

lemma retained_loop_delivers:
  "retained_loop fd tpcs b = Inr b' \<Longrightarrow> broker_inv b \<Longrightarrow> delivers b b'"
proof (induction fd tpcs b rule: retained_loop.induct)
  case (2 fd nm opts tpcs b)
  then obtain ts b1 where ts: "GetMatchedTopics nm b = Inr ts"
    and b1: "send_retained fd opts ts b = Inr b1" and rest: "retained_loop fd tpcs b1 = Inr b'"
    by (auto simp: rbind_eq_Inr)
  have d: "delivers b b1" using b1 2(3) by (rule send_retained_delivers)
  then have "delivers b1 b'" using 2(1) [OF ts b1 rest] 2(3) by (simp add: delivers_inv)
  with d show ?case by (rule delivers_trans)
qed (simp add: delivers_refl)

lemma subscribe_loop_evolves:
  assumes "subscribe_loop buf rl off r acc b = Some (Inr (ts, b'))" and "broker_inv b"
  shows "evolves b b' \<and> clients b' = clients b"
proof -
  define Q where "Q b y \<longleftrightarrow> (broker_inv b \<longrightarrow> (\<forall>ts b'. y = Inr (ts, b') \<longrightarrow>
    evolves b b' \<and> clients b' = clients b))" for b and y :: "((bytes \<times> u8) list \<times> Broker) res"
  have add: "evolves b (upd_obj r (AddSubscription nm opts) b)" if "broker_inv b" for b r nm opts
    using that by (intro evo) (simp_all add: AddSubscription_inv)
  have cl: "clients (upd_obj r g b) = clients b" for r g b by (simp add: upd_obj_def)
  have step: "Q b y" if "Q (upd_obj r (AddSubscription nm opts) b) y" for r nm opts b y
    using that add [of b r nm opts] evolves_trans [OF add] unfolding Q_def
    by (auto simp: cl dest: evolves_inv)
  have "Q b (Inr (ts, b'))"
  proof (rule subscribe_loop.raw_induct [where P = "\<lambda>buf rl off r acc b y. Q b y", OF _ assms(1)])
    fix f buf rl off r acc b y
    assume IH: "\<And>buf rl off r acc b y. f buf rl off r acc b = Some y \<Longrightarrow> Q b y"
      and eq: "(if off < rl then
        (case ConvertToHost2Bytes buf (unat off) of Inl f \<Rightarrow> Some (Inl f)
         | Inr name_len \<Rightarrow> (case rd_block buf (unat (off + 2)) (unat name_len) of Inl f \<Rightarrow> Some (Inl f)
         | Inr nm \<Rightarrow> (case rd8 buf (unat (off + 2 + ucast name_len)) of Inl f \<Rightarrow> Some (Inl f)
         | Inr options \<Rightarrow> f buf rl (off + 2 + ucast name_len + 1) r (acc @ [(nm, options)])
             (upd_obj r (AddSubscription nm options) b))))
      else Some (Inr (acc, b))) = Some y"
    show "Q b y"
    proof (cases "off < rl")
      case False
      with eq show ?thesis by (auto simp: Q_def evolves_refl)
    next
      case True
      show ?thesis
      proof (cases y)
        case (Inl z)
        then show ?thesis by (simp add: Q_def)
      next
        case (Inr z)
        with True eq obtain off' acc' nm opts
          where "f buf rl off' r acc' (upd_obj r (AddSubscription nm opts) b) = Some y"
          by (auto split: sum.splits)
        then show ?thesis by (rule step [OF IH])
      qed
    qed
  qed
  with assms(2) show ?thesis by (simp add: Q_def)
qed

lemma Subscribe_evolves:
  assumes "MqttSubscribePacketHandler fh dat fd b = Inr (e, b')"
    and inv: "broker_inv b" and at: "clients_at fd b = (Some r, b)"
    and mem: "(fd, Some r) \<in> set (clients b)"
  shows "evolves b b'"
proof -
  obtain vh codes tpcs b1 b2 b3 where
    b1: "HandleMqttSubscribe r fh dat b = Inr (vh, codes, tpcs, b1)"
    and b2: "reply fd (packet_type_byte SUBACK) (Suback_vh (new_SubackVH (sub_packet_id vh) [] codes)) b1 =
      Inr b2"
    and b3: "retained_loop fd tpcs b2 = Inr b3" and b': "b' = AddSubscribedClient fd r b3"
    using assms(1) at by (auto simp: MqttSubscribePacketHandler_def rbind_eq_Inr)
  obtain off where "subscribe_loop dat (remaining_len fh) off r [] b = Some (Inr (tpcs, b1))"
    using b1 by (auto simp: HandleMqttSubscribe_def rbind_eq_Inr)
  from subscribe_loop_evolves [OF this inv]
  have e1: "evolves b b1" and c1: "clients b1 = clients b" by simp_all
  have d2: "delivers b1 b2" using b2 by (rule reply_delivers)
  have i2: "broker_inv b2" using d2 evolves_inv [OF e1] by (rule delivers_inv)
  have d3: "delivers b2 b3" using b3 i2 by (rule retained_loop_delivers)
  have e3: "evolves b b3"
    using e1 delivers_evolves [OF d2 evolves_inv [OF e1]] delivers_evolves [OF d3 i2]
    by (blast intro: evolves_trans)
  have "clients b3 = clients b" using c1 delivers_clients [OF d2] delivers_clients [OF d3] by simp
  then have "broker_inv (AddSubscribedClient fd r b3)"
    using AddSubscribedClient_inv [OF evolves_inv [OF e3]] mem by simp
  with e3 show ?thesis by (simp add: evolves_def b' AddSubscribedClient_def)
qed

lemma PubAck_evolves:
  assumes "MqttPubAckPacketHandler fh dat fd b = Inr (e, b')"
    and "broker_inv b" and "clients_at fd b = (Some r, b)"
  shows "evolves b b'"
  using assms by (auto simp: MqttPubAckPacketHandler_def rbind_eq_Inr Let_def DelQosEvent_inv
      send_postponed_none intro!: evo)

lemma Disconnect_evolves:
  assumes "MqttDisconnectPacketHandler fh dat fd b = Inr (e, b')"
    and "broker_inv b" and "clients_at fd b = (Some r, b)"
  shows "evolves b b'"
  using assms by (auto simp: MqttDisconnectPacketHandler_def rbind_eq_Inr evolves_refl split: if_splits)

lemma Ping_evolves:
  assumes "MqttPingPacketHandler fh dat fd b = Inr (e, b')"
    and "broker_inv b" and "clients_at fd b = (Some r, b)"
  shows "evolves b b'"
  using assms by (auto simp: MqttPingPacketHandler_def rbind_eq_Inr intro!: evo)

lemma unsubscribe_all_evolves:
  "unsubscribe_all r nms codes b = (codes', b') \<Longrightarrow> broker_inv b \<Longrightarrow> evolves b b'"
proof (induction r nms codes b rule: unsubscribe_all.induct)
  case (2 r nm nms codes b)
  obtain n c where del: "DelSubscription nm (objects b r) = (n, c)" by fastforce
  have inv: "evolves b (upd_obj r (\<lambda>_. c) b)"
    using 2(3) DelSubscription_inv [of "objects b r" nm] by (intro evo) (simp_all add: del)
  from 2(2) have "evolves (upd_obj r (\<lambda>_. c) b) b'"
    by (intro 2(1) [OF del [symmetric] refl refl])
      (simp_all add: del Let_def evolves_inv [OF inv])
  with inv show ?case by (rule evolves_trans)
qed (simp add: evolves_refl)

lemma Unsubscribe_evolves:
  assumes "MqttUnsubscribePacketHandler fh dat fd b = Inr (e, b')"
    and inv: "broker_inv b" and at: "clients_at fd b = (Some r, b)"
  shows "evolves b b'"
proof -
  obtain vh nms where h: "HandleMqttUnsubscribe fh dat = Inr (vh, nms)"
    using assms(1) at by (auto simp: MqttUnsubscribePacketHandler_def rbind_eq_Inr)
  obtain codes b1 where u: "unsubscribe_all r nms [] b = (codes, b1)" by fastforce
  have e1: "evolves b b1" by (rule unsubscribe_all_evolves [OF u inv])
  have "reply fd (packet_type_byte UNSUBACK) (UnsubAck_vh (new_UnsubAckVH (us_packet_id vh) [] codes)) b1 =
      Inr b'"
    using assms(1) at h u by (auto simp: MqttUnsubscribePacketHandler_def rbind_eq_Inr)
  from evolves_trans [OF e1 reply_evolves [OF this evolves_inv [OF e1]]] show ?thesis .
qed

lemma PubRel_evolves:
  assumes "MqttPubRelPacketHandler fh dat fd b = Inr (e, b')"
    and inv: "broker_inv b" and at: "clients_at fd b = (Some r, b)"
  shows "evolves b b'"
proof -
  obtain t_vh where h: "HandleMqttPubrel dat (new_TypicalVH 0 0 []) = Inr t_vh"
    using assms(1) at by (auto simp: MqttPubRelPacketHandler_def rbind_eq_Inr)
  define n where "n = pa_packet_id t_vh"
  obtain b1 where b1: "reply fd (packet_type_byte PUBCOMP) (Puback_vh (new_TypicalVH n (rc success) [])) b =
      Inr b1"
    using assms(1) at h by (auto simp: MqttPubRelPacketHandler_def rbind_eq_Inr n_def)
  have e1: "evolves b b1" by (rule reply_evolves [OF b1 inv])
  define i where "i = client_id (objects b1 r)"
  define b2 where "b2 = DelQosEvent i n b1"
  have e2: "evolves b b2"
    unfolding b2_def by (rule evolves_trans [OF e1 evolves_DelQosEvent [OF evolves_inv [OF e1]]])
  note inv2 = evolves_inv [OF e2]
  obtain topic found where get: "GetQoSTopic i n b2 = (topic, found)" by fastforce
  have rest: "(if found then rbind (NotifyClients topic b2) (\<lambda>(_, b). Inr (mqtt_ok, DelQoSTopic i n b))
      else Inr (mqtt_ok, b2)) = Inr (e, b')"
    using assms(1)
    by (simp only: MqttPubRelPacketHandler_def Let_def at prod.case h rbind.simps deref.simps
        n_def [symmetric] b1 i_def [symmetric] b2_def [symmetric] send_postponed_none [OF inv2] get)
  show ?thesis
  proof (cases found)
    case True
    with rest obtain t b3 where "NotifyClients topic b2 = Inr (t, b3)" and b': "b' = DelQoSTopic i n b3"
      by (auto simp: rbind_eq_Inr)
    then have e3: "evolves b b3" using NotifyClients_evolves [OF _ inv2] e2 by (blast intro: evolves_trans)
    then show ?thesis
      unfolding b' using evolves_DelQoSTopic [OF evolves_inv [OF e3]] by (blast intro: evolves_trans)
  qed (use rest e2 in simp)
qed

lemma PubRec_evolves:
  assumes "MqttPubRecPacketHandler fh dat fd b = Inr (e, b')"
    and "broker_inv b" and "clients_at fd b = (Some r, b)"
  shows "evolves b b'"
proof -
  obtain n t v where "reply fd t v (DelQosEvent (client_id (objects b r)) n b) = Inr b'"
    using assms(1,3) by (auto simp: MqttPubRecPacketHandler_def rbind_eq_Inr Let_def)
  moreover have e: "evolves b (DelQosEvent (client_id (objects b r)) n b)"
    using assms(2) by (rule evo)
  ultimately show ?thesis
    using evolves_trans [OF e reply_evolves [OF _ evolves_inv [OF e]]] by blast
qed

lemma PubComp_evolves:
  assumes "MqttPubCompPacketHandler fh dat fd b = Inr (e, b')"
    and "broker_inv b" and "clients_at fd b = (Some r, b)"
  shows "evolves b b'"
  using assms by (auto simp: MqttPubCompPacketHandler_def rbind_eq_Inr send_postponed_none evolves_refl)

lemma run_handler_evolves:
  assumes "run_handler h rnd fh dat fd b = Inr (e, b')"
    and "broker_inv b" and "clients_at fd b = (Some r, b)" and "(fd, Some r) \<in> set (clients b)"
  shows "evolves b b'"
  using assms
  by (cases h) (auto dest: Publish_evolves PubAck_evolves PubRel_evolves PubRec_evolves PubComp_evolves
      Ping_evolves Subscribe_evolves Disconnect_evolves Unsubscribe_evolves Connect_evolves)

lemma HandlePacket_evolves:
  assumes "HandlePacket rnd fh dat fd b = Inr (e, b')"
    and "broker_inv b" and "(fd, Some r) \<in> set (clients b)"
  shows "evolves b b'"
proof -
  have at: "clients_at fd b = (Some r, b)"
    using assms(2,3) by (intro clients_at_present) (simp_all add: broker_inv_def)
  have "dispatch hs rnd fh dat fd b = Inr (e, b') \<Longrightarrow> evolves b b'" for hs
    using assms(2,3) at
    by (induction hs) (auto intro: run_handler_evolves evolves_refl split: if_splits)
  with assms(1) show ?thesis by (simp add: HandlePacket_def)
qed

lemma HandleError_evolves:
  assumes "HandleError err fd b = Inr b'" and "broker_inv b"
  shows "evolves b b'"
proof -
  have refuse: "refuse c fd b = Inr b' \<Longrightarrow> evolves b b'" for c
    using assms(2) by (auto simp: refuse_def rbind_eq_Inr intro: evo)
  have run: "run_error_handler h fd b = Inr b' \<Longrightarrow> evolves b b'" for h
    using assms(2) by (cases h) (auto intro: refuse evolves_refl)
  have "error_dispatch hs err fd b = Inr b' \<Longrightarrow> evolves b b'" for hs
    using assms(2) by (induction hs) (auto intro: run evolves_refl split: if_splits)
  with assms(1) show ?thesis by (simp add: HandleError_def)
qed

section \<open>The server thread\<close>

lemma clients_at_deref:
  assumes "clients_at fd b = (Some r, b0)"
  shows "b0 = b \<and> (fd, Some r) \<in> set (clients b)"
  using assms by (auto simp: clients_at_def dest: kv_find_SomeD split: option.splits)

lemma notify_will_evolves:
  assumes "notify_will r b = Inr b'" and inv: "broker_inv b"
  shows "evolves b b'"
proof (cases "isWillFlag (objects b r)")
  case True
  with assms(1) obtain t b1 where n: "NotifyClients (will_topic (objects b r)) b = Inr (t, b1)"
    and b': "b' = upd_obj r (\<lambda>c. c\<lparr>will_topic := t\<rparr>) b1"
    by (auto simp: notify_will_def rbind_eq_Inr)
  have e1: "evolves b b1" by (rule NotifyClients_evolves [OF n inv])
  have "evolves b1 b'"
    unfolding b' using evolves_inv [OF e1] by (intro evo) (simp_all add: client_inv_def)
  with e1 show ?thesis by (rule evolves_trans)
qed (use assms in \<open>simp add: notify_will_def evolves_refl\<close>)

lemma serve_data_evolves:
  assumes "serve_data en fd b = Inr (del, b')" and inv: "broker_inv b"
  shows "evolves b b'"
proof -
  obtain r where at: "clients_at fd b = (Some r, b)" and mem: "(fd, Some r) \<in> set (clients b)"
    using assms(1) clients_at_deref [of fd b]
    by (cases "clients_at fd b") (auto simp: serve_data_def rbind_eq_Inr)
  define b1 where "b1 = upd_obj r (SetPacketLastTime (cur_time en)) b"
  have e1: "evolves b b1"
    unfolding b1_def using inv by (intro evo) (simp_all add: client_inv_def SetPacketLastTime_def)
  note inv1 = evolves_inv [OF e1]
  have mem1: "(fd, Some r) \<in> set (clients b1)" using mem by (simp add: b1_def upd_obj_def)
  obtain ret fh rest where fh: "ReadFixedHeader (hdr_in en fd) (new_FixedHeader 0) = (ret, fh, rest)"
    by (metis prod_cases3)
  obtain n buf where buf: "ReadData (body_in en fd) fd (int (unat (remaining_len fh))) = (n, buf)"
    by fastforce
  show ?thesis
  proof (cases "ret = broker_ok")
    case False
    then have "rbind (notify_will r b1) (\<lambda>b. Inr (True, b)) = Inr (del, b')"
      using assms(1) at fh by (simp add: serve_data_def b1_def)
    then show ?thesis
      using evolves_trans [OF e1 notify_will_evolves [OF _ inv1]] by (auto simp: rbind_eq_Inr)
  next
    case True
    then have step: "(if n \<noteq> int (unat (remaining_len fh)) then Inr (True, b1)
        else rbind (HandlePacket (rand_vals en) fh buf fd b1) (\<lambda>(st, b).
          if st \<noteq> mqtt_ok then rbind (HandleError st fd b) (\<lambda>b. Inr (True, b)) else Inr (False, b))) =
        Inr (del, b')"
      using assms(1)
      by (simp only: serve_data_def Let_def at prod.case deref.simps rbind.simps b1_def [symmetric]
          fh buf simp_thms if_True)
    show ?thesis
    proof (cases "n = int (unat (remaining_len fh))")
      case True
      with step obtain st b2 where h: "HandlePacket (rand_vals en) fh buf fd b1 = Inr (st, b2)"
        and end_: "(if st \<noteq> mqtt_ok then rbind (HandleError st fd b2) (\<lambda>b. Inr (True, b))
          else Inr (False, b2)) = Inr (del, b')"
        by (auto simp: rbind_eq_Inr simp del: if_split split del: if_split)
      have e2: "evolves b b2"
        using e1 HandlePacket_evolves [OF h inv1 mem1] by (rule evolves_trans)
      then show ?thesis
        using end_ HandleError_evolves [OF _ evolves_inv [OF e2]]
        by (auto simp: rbind_eq_Inr intro: evolves_trans split: if_splits)
    qed (use step e1 in simp)
  qed
qed

lemma serve_closed_evolves:
  assumes "serve_closed fd b = Inr (del, b')" and inv: "broker_inv b"
  shows "evolves b b'"
  using assms clients_at_deref [of fd b] notify_will_evolves [OF _ inv]
  by (cases "clients_at fd b") (auto simp: serve_closed_def rbind_eq_Inr)

lemma serve_quiet_evolves:
  assumes "serve_quiet en fd b = Inr (del, b')" and inv: "broker_inv b"
  shows "evolves b b'"
proof -
  obtain r where at: "clients_at fd b = (Some r, b)"
    using assms(1) clients_at_deref [of fd b]
    by (cases "clients_at fd b") (auto simp: serve_quiet_def rbind_eq_Inr)
  show ?thesis
  proof (cases "timed_out (cur_time en) (objects b r)")
    case True
    with assms(1) at obtain b1 where
      b1: "reply fd (packet_type_byte DISCONNECT) (Disconnect_vh (new_DisconnectVH (rc keep_alive_timeout) [])) b =
        Inr b1"
      and b': "notify_will r b1 = Inr b'"
      by (auto simp: serve_quiet_def rbind_eq_Inr)
    have "evolves b b1" by (rule reply_evolves [OF b1 inv])
    then show ?thesis using notify_will_evolves [OF b' evolves_inv] by (blast intro: evolves_trans)
  next
    case False
    with assms at show ?thesis by (simp add: serve_quiet_def evolves_refl)
  qed
qed

lemma wait_loop_evolves:
  "wait_loop en vs dels b = Inr (vs', dels', b') \<Longrightarrow> broker_inv b \<Longrightarrow> evolves b b'"
proof (induction en vs dels b arbitrary: vs' rule: wait_loop.induct)
  case (1 e dels b)
  then show ?case by (simp add: evolves_refl)
next
  case (2 e fd ev vs dels b)
  define serve where "serve = (case ev of Pollin \<Rightarrow> serve_data e fd b
    | OtherEvents \<Rightarrow> serve_closed fd b | NoEvents \<Rightarrow> serve_quiet e fd b)"
  have ev: "evolves b b1" if "serve = Inr (del, b1)" for del b1
    using that serve_data_evolves serve_closed_evolves serve_quiet_evolves 2(5)
    by (cases ev) (auto simp: serve_def)
  consider (add) "ev = Pollin" "fd = control_sock b" "is_add (ctl_in e)"
    | (other) "fd = control_sock b" "ev = Pollin \<and> \<not> is_add (ctl_in e) \<or> ev = NoEvents"
    | (client) "\<not> (ev = Pollin \<and> fd = control_sock b)" "\<not> (ev = NoEvents \<and> fd = control_sock b)"
    by blast
  then show ?case
  proof cases
    case add
    with 2(4) have "b' = SetState started b" by simp
    then show ?thesis using 2(5) by (simp add: evolves_SetState)
  next
    case other
    with 2(4) obtain vs1 where "wait_loop e vs dels b = Inr (vs1, dels', b')"
      by (auto simp: rbind_eq_Inr)
    with 2(1,2) 2(5) other show ?thesis by auto
  next
    case client
    with 2(4) obtain del b1 vs1 where s1: "serve = Inr (del, b1)"
      and rest: "wait_loop e vs (if del then dels @ [fd] else dels) b1 = Inr (vs1, dels', b')"
      by (auto simp: rbind_eq_Inr serve_def [symmetric] simp del: if_split split del: if_split)
    have e1: "evolves b b1" by (rule ev [OF s1])
    have "evolves b1 b'"
      using 2(3) [OF client(1) client(2) s1 [unfolded serve_def] refl rest evolves_inv [OF e1]] .
    with e1 show ?thesis by (rule evolves_trans)
  qed
qed

lemma close_loop_evolves: "close_loop fds b = Inr b' \<Longrightarrow> broker_inv b \<Longrightarrow> evolves b b'"
proof (induction fds arbitrary: b)
  case (Cons fd fds)
  obtain r where "clients_at fd b = (Some r, b)"
    using Cons.prems(1) clients_at_deref [of fd b]
    by (cases "clients_at fd b") (auto simp: rbind_eq_Inr)
  with Cons.prems(1) have rest: "close_loop fds (CloseConnection fd b) = Inr b'" by simp
  have e1: "evolves b (CloseConnection fd b)" using Cons.prems(2) by (rule evo)
  with Cons.IH [OF rest evolves_inv [OF e1]] show ?case by (blast intro: evolves_trans)
qed (simp add: evolves_refl)

lemma wait_step_evolves:
  assumes "wait_step en v b = Inr (v', b')" and inv: "broker_inv b"
  shows "evolves b b'"
proof -
  define n where "n = unat (GetClientCount b + 1)"
  define b0 where "b0 = (if poll_failed en then SetState started b else b)"
  define pfds where "pfds = (if poll_failed en then take n v
    else map (\<lambda>(fd, _). (fd, polled en fd)) (take n v))"
  define fin where "fin = (\<lambda>(vs, dels, b).
    rbind (if dels \<noteq> [] then close_loop dels (SetState started b) else Inr b)
      (\<lambda>b. Inr (vs @ drop n v, b)))"
  have e0: "evolves b b0" using inv by (simp add: b0_def evo)
  have "\<not> length v < n" using assms(1) by (auto simp: wait_step_def n_def)
  then have "rbind (wait_loop en pfds [] b0) fin = Inr (v', b')"
    using assms(1) by (simp only: wait_step_def Let_def n_def [symmetric] b0_def [symmetric]
        pfds_def [symmetric] fin_def [symmetric] if_False)
  then obtain vs dels b1 where loop: "wait_loop en pfds [] b0 = Inr (vs, dels, b1)"
    and "fin (vs, dels, b1) = Inr (v', b')"
    by (auto simp: rbind_eq_Inr)
  then have fin: "b' = b1 \<or> close_loop dels (SetState started b1) = Inr b'"
    by (auto simp: fin_def rbind_eq_Inr split: if_splits)
  have e1: "evolves b b1"
    using e0 wait_loop_evolves [OF loop evolves_inv [OF e0]] by (rule evolves_trans)
  have e2: "evolves b (SetState started b1)"
    using e1 evolves_SetState [OF evolves_inv [OF e1]] by (rule evolves_trans)
  show ?thesis
    using fin e1 close_loop_evolves [OF _ evolves_inv [OF e2]] e2 by (blast intro: evolves_trans)
qed

lemma started_step_inv:
  assumes "broker_inv b"
  shows "broker_inv (fst (snd (started_step b)))"
  using assms SetState_inv [OF assms]
  by (auto simp: started_step_def Let_def Execute_pop_def broker_inv_def clients_inv_def storage_inv_def
      split: list.splits)

lemma server_step_inv:
  "server_step en v b = Inr (v', b', go) \<Longrightarrow> broker_inv b \<Longrightarrow> broker_inv b'"
  using started_step_inv [of b] wait_step_evolves [of en v b] evolves_inv
  by (cases "state b") (auto simp: server_step_def rbind_eq_Inr)

section \<open>The program\<close>

lemma qos_step_idle: "broker_inv b \<Longrightarrow> qos_step b = Inr b"
  by (simp add: qos_step_def broker_inv_def)

lemma Start_inv: "broker_inv b \<Longrightarrow> broker_inv (Start b)"
  by (simp add: Start_def Let_def broker_inv_def clients_inv_def storage_inv_def)

lemma main_step_inv:
  assumes "broker_inv b"
  shows "broker_inv (main_step fd i t b)"
proof -
  obtain st b1 where b1: "AddClient fd i t b = (st, b1)" by fastforce
  have inv: "broker_inv b1" using AddClient_inv [OF assms, of fd i t] by (simp add: b1)
  have "broker_inv (b1\<lparr>closed := c\<rparr>)" for c
    using inv by (simp add: broker_inv_def clients_inv_def storage_inv_def)
  then show ?thesis using assms inv Start_inv [OF inv] by (simp add: main_step_def b1)
qed

lemma pstep_inv: "pstep s s' \<Longrightarrow> broker_inv (broker s) \<Longrightarrow> broker_inv (broker s')"
proof (induction rule: pstep.induct)
  case (qos s b')
  then show ?case by (simp add: qos_step_idle)
next
  case (sender s c cs)
  then show ?case by (simp add: broker_inv_def clients_inv_def storage_inv_def)
qed (auto intro: main_step_inv server_step_inv)

lemma reachable_inv: "pstep\<^sup>*\<^sup>* (start_program b) s \<Longrightarrow> broker_inv b \<Longrightarrow> broker_inv (broker s)"
  by (induction rule: rtranclp_induct) (auto simp: start_program_def intro: pstep_inv)

section \<open>A stale entry of the poll set\<close>

text \<open>
  A descriptor that is polled but is no longer a client's stops the broker, whatever is ready:
  the loop reaches its entry, unless it faults before or an \<open>ADD\<close> command ends it.
\<close>

lemma serve_absent:
  assumes "fd \<notin> fst ` set (clients b)"
  shows "serve_data en fd b = Inl NullDeref" "serve_closed fd b = Inl NullDeref"
    "serve_quiet en fd b = Inl NullDeref"
  using clients_at_absent [OF assms]
  by (simp_all add: serve_data_def serve_closed_def serve_quiet_def)

lemma evolves_absent: "evolves b b' \<Longrightarrow> fd \<notin> fst ` set (clients b) \<Longrightarrow> fd \<notin> fst ` set (clients b')"
  by (auto simp: evolves_def)

lemma wait_loop_stale:
  assumes "fd \<in> fst ` set vs" and "fd \<notin> fst ` set (clients b)" and "fd \<noteq> control_sock b"
    and "control_sock b \<notin> fst ` set vs" and "broker_inv b"
  shows "\<exists>f. wait_loop en vs dels b = Inl f"
  using assms
proof (induction vs arbitrary: dels b)
  case (Cons v vs)
  obtain fd' ev where v: "v = (fd', ev)" by (cases v)
  define serve where "serve = (case ev of Pollin \<Rightarrow> serve_data en fd' b
    | OtherEvents \<Rightarrow> serve_closed fd' b | NoEvents \<Rightarrow> serve_quiet en fd' b)"
  have loop: "wait_loop en (v # vs) dels b = rbind serve (\<lambda>(del, b).
      rbind (wait_loop en vs (if del then dels @ [fd'] else dels) b) (\<lambda>(vs, dels, b).
      Inr ((fd', if ev = Pollin then NoEvents else ev) # vs, dels, b)))"
    using Cons.prems(4) by (simp add: v serve_def)
  show ?case
  proof (cases serve)
    case (Inl f)
    then show ?thesis by (simp add: loop)
  next
    case (Inr r)
    obtain del b1 where r: "r = (del, b1)" by (cases r)
    have "fd' \<noteq> fd"
    proof
      assume "fd' = fd"
      with Cons.prems(2) have "serve = Inl NullDeref" by (cases ev) (simp_all add: serve_def serve_absent)
      with Inr show False by simp
    qed
    then have in_vs: "fd \<in> fst ` set vs" using Cons.prems(1) v by auto
    have e: "evolves b b1"
      using Inr r serve_data_evolves serve_closed_evolves serve_quiet_evolves Cons.prems(5)
      by (cases ev) (auto simp: serve_def)
    have cs: "control_sock b1 = control_sock b" using e by (simp add: evolves_def)
    have no_ctl: "control_sock b1 \<notin> fst ` set vs" using Cons.prems(4) by (auto simp: cs)
    obtain f where "wait_loop en vs (if del then dels @ [fd'] else dels) b1 = Inl f"
      using Cons.IH [OF in_vs evolves_absent [OF e Cons.prems(2)] _ no_ctl evolves_inv [OF e]]
        Cons.prems(3) cs by metis
    then show ?thesis by (simp add: loop Inr r)
  qed
qed simp

text \<open>
  So when one client has been closed without the poll set being rebuilt, which is what a takeover
  of its identifier does, the next pass ends the program.
\<close>

lemma wait_step_stale:
  assumes "broker_inv b" and "length (clients b) < 2 ^ 31"
    and "map fst v = fds @ [control_sock b]" and "control_sock b \<notin> set fds"
    and "length fds = Suc (length (clients b))" and "fd \<in> set fds" and "fd \<notin> fst ` set (clients b)"
  shows "\<exists>f. wait_step en v b = Inl f"
proof -
  define n where "n = unat (GetClientCount b + 1)"
  have n: "n = length fds"
    using assms(2,5) unat_of_nat32 [of "Suc (length (clients b))"]
    by (simp add: n_def GetClientCount_def add.commute)
  have len: "length v = Suc (length fds)" using assms(3) by (metis length_append_singleton length_map)
  define pfds where "pfds = (if poll_failed en then take n v
    else map (\<lambda>(fd, _). (fd, polled en fd)) (take n v))"
  have "map fst (take n v) = fds" by (simp add: take_map [symmetric] assms(3) n)
  then have fds: "map fst pfds = fds" by (auto simp: pfds_def case_prod_unfold comp_def)
  then have set: "fst ` set pfds = set fds" by (metis set_map)
  define b0 where "b0 = (if poll_failed en then SetState started b else b)"
  have e0: "evolves b b0" using assms(1) by (simp add: b0_def evo)
  then have cs: "control_sock b0 = control_sock b" by (simp add: evolves_def)
  have "\<exists>f. wait_loop en pfds [] b0 = Inl f"
    using assms(4,6) cs set
    by (intro wait_loop_stale [of fd] evolves_absent [OF e0 assms(7)] evolves_inv [OF e0]) auto
  then obtain f where loop: "wait_loop en pfds [] b0 = Inl f" ..
  have "\<not> length v < n" using len n by simp
  then have "wait_step en v b = Inl f"
    by (simp only: wait_step_def Let_def n_def [symmetric] b0_def [symmetric] pfds_def [symmetric]
        if_False loop rbind.simps)
  then show ?thesis ..
qed

end
