(* ===== verification/Sessions.thy ===== *)
theory Sessions
  imports Invariance
begin

text \<open>
  What the handlers do with the packets a client would send: connecting, publishing at each
  quality of service, releasing, subscribing and unsubscribing. The packets are given by the
  encodings of the variable headers.
\<close>

section \<open>Acknowledgements\<close>

definition ack_cmd :: "int \<Rightarrow> u8 \<Rightarrow> u16 \<Rightarrow> FdWriteCommand" where
  "ack_cmd fd t i = new_FdWriteCommand fd (6, Some ([t, 4] @ be16 i @ [0, 0]))"

lemma chain_enc_Nil: "chain_enc [] = [0]"
  by (simp add: chain_enc_def vint_small)

lemma reply_ack:
  "reply fd t (Puback_vh (new_PubackVH i (rc success) [])) b =
    Inr (b\<lparr>commands := commands b @ [ack_cmd fd t i]\<rparr>)"
proof -
  let ?v = "Puback_vh (new_PubackVH i (rc success) [])"
  have enc: "vh_enc ?v = be16 i @ [0, 0]"
    by (simp add: new_PubackVH_def chain_enc_Nil)
  have "packet_enc t (be16 i @ [0, 0]) = [t, 4] @ be16 i @ [0, 0]"
    by (simp add: packet_enc_def fixed_enc_def vint_small)
  moreover have "CreateMqttPacket_vh t ?v = Inr (packet_enc t (be16 i @ [0, 0]),
      of_nat (length (packet_enc t (be16 i @ [0, 0]))))"
    unfolding enc [symmetric]
    by (rule CreateMqttPacket_vh_exact) (simp_all add: vh_ok_def new_PubackVH_def chain_enc_Nil)
  ultimately show ?thesis
    by (simp add: reply_def ack_cmd_def enqueue_def AddCommand_def)
qed

lemma reply_typical:
  "reply fd t (Puback_vh (new_TypicalVH i (rc success) [])) b =
    Inr (b\<lparr>commands := commands b @ [ack_cmd fd t i]\<rparr>)"
  using reply_ack by (simp add: new_TypicalVH_def)

text \<open>The acknowledgement a client sends: its identifier, whatever follows.\<close>

lemma HandleMqttPuback_id:
  "HandleMqttPuback (be16 i @ ys) v = Inr (v\<lparr>pa_packet_id := i, pa_chain := []\<rparr>)"
  by (simp add: HandleMqttPuback_def PubackVH_ReadFromBuf_def mem_simps Clear_def)

lemma HandleMqttPubrel_id:
  "HandleMqttPubrel (be16 i @ ys) v = Inr (v\<lparr>pa_packet_id := i, pa_chain := []\<rparr>)"
  by (simp add: HandleMqttPubrel_def PubackVH_ReadFromBuf_def mem_simps Clear_def)

section \<open>Publishing\<close>

text \<open>A packet the broker reads back as \<open>v\<close> and \<open>m\<close>, with a payload that fits.\<close>

definition publish_packet_ok :: "FixedHeader \<Rightarrow> PublishVH \<Rightarrow> bytes \<Rightarrow> bytes \<Rightarrow> bool" where
  "publish_packet_ok fh v m buf \<longleftrightarrow> chain_readable (pu_chain v) \<and> (\<forall>q\<in>set (pu_chain v). copyable q) \<and>
     length (topic_name v) < 2 ^ 16 \<and> length m < 2 ^ 16 \<and> (QoS fh = 0 \<longleftrightarrow> pu_packet_id v = 0) \<and>
     buf = publish_body v m \<and> length buf < 2 ^ 28 \<and> remaining_len fh = of_nat (length buf)"

lemma HandleMqttPublish_ok:
  "publish_packet_ok fh v m buf \<Longrightarrow> HandleMqttPublish fh buf = Inr (v, m)"
  using HandleMqttPublish_enc [of v fh buf m] by (auto simp: publish_packet_ok_def)

definition store_if :: "FixedHeader \<Rightarrow> PublishVH \<Rightarrow> bytes \<Rightarrow> Broker \<Rightarrow> Broker" where
  "store_if fh v m b = (if isRETAIN fh
     then StoreTopicValue (QoS fh) (pu_packet_id v) (topic_name v) (Some m) b else b)"

lemma store_if_simps [simp]:
  "commands (store_if fh v m b) = commands b" "objects (store_if fh v m b) = objects b"
  "subscribed_clients (store_if fh v m b) = subscribed_clients b"
  "clients (store_if fh v m b) = clients b" "qos_2_topics (store_if fh v m b) = qos_2_topics b"
  by (simp_all add: store_if_def StoreTopicValue_def Let_def)

lemma store_if_inv: "broker_inv b \<Longrightarrow> broker_inv (store_if fh v m b)"
  by (simp add: store_if_def StoreTopicValue_broker_inv)

definition all_ready :: "bytes \<Rightarrow> Broker \<Rightarrow> bool" where
  "all_ready nm b \<longleftrightarrow> (\<forall>e\<in>set (subscribed_clients b). ready nm (objects b (snd e)))"

definition delivered :: "bytes \<Rightarrow> bytes \<Rightarrow> Broker \<Rightarrow> Broker" where
  "delivered nm m b = b\<lparr>commands := commands b @
     List.map_filter (delivery (objects b) nm m) (subscribed_clients b),
     objects := bump nm (subscribed_clients b) (objects b)\<rparr>"

lemma NotifyClients_delivered:
  assumes "broker_inv b" and "all_ready (t_name topic) b" and "t_data topic = Some m"
    and "length (t_name topic) < 2 ^ 16" and "length m < 2 ^ 16"
  shows "\<exists>topic'. NotifyClients topic b = Inr (topic', delivered (t_name topic) m b)"
  using NotifyClients_exact [of b topic m] assms by (simp add: all_ready_def delivered_def)

text \<open>QoS 0: deliver. QoS 1: acknowledge and deliver. QoS 2: acknowledge and keep.\<close>

definition published :: "FixedHeader \<Rightarrow> PublishVH \<Rightarrow> bytes \<Rightarrow> int \<Rightarrow> nat \<Rightarrow> Broker \<Rightarrow> Broker" where
  "published fh v m fd r b =
     (let b = store_if fh v m b in
      if QoS fh = qos_code QoS_1 then
        delivered (topic_name v) m
          (b\<lparr>commands := commands b @ [ack_cmd fd (packet_type_byte PUBACK) (pu_packet_id v)]\<rparr>)
      else if QoS fh = qos_code QoS_2 then
        AddQoSTopic (client_id (objects b r))
          (new_MqttTopic (qos_code QoS_2) (pu_packet_id v) (topic_name v) (Some m))
          (b\<lparr>commands := commands b @ [ack_cmd fd (packet_type_byte PUBREC) (pu_packet_id v)]\<rparr>)
      else delivered (topic_name v) m b)"

lemma add_command_inv: "broker_inv b \<Longrightarrow> broker_inv (b\<lparr>commands := cs\<rparr>)"
  by (simp add: broker_inv_def clients_inv_def storage_inv_def)

lemma t_new_MqttTopic [simp]:
  "t_name (new_MqttTopic q i nm d) = nm" "t_data (new_MqttTopic q i nm d) = d"
  "t_id (new_MqttTopic q i nm d) = i"
  by (simp_all add: new_MqttTopic_def)

lemma Publish_published:
  assumes inv: "broker_inv b" and mem: "(fd, Some r) \<in> set (clients b)"
    and ok: "publish_packet_ok fh v m buf" and rdy: "all_ready (topic_name v) b"
  shows "MqttPublishPacketHandler fh buf fd b = Inr (mqtt_ok, published fh v m fd r b)"
proof -
  have at: "clients_at fd b = (Some r, b)"
    using inv mem by (intro clients_at_present) (simp_all add: broker_inv_def)
  define b1 where "b1 = store_if fh v m b"
  have inv1: "broker_inv b1" using inv by (simp add: b1_def store_if_inv)
  then have more: "\<not> CheckIfMoreMessages i b1" for i
    by (simp add: CheckIfMoreMessages_def broker_inv_def)
  have len: "length (topic_name v) < 2 ^ 16" "length m < 2 ^ 16"
    using ok by (simp_all add: publish_packet_ok_def)
  define topic where "topic = new_MqttTopic (QoS fh) (pu_packet_id v) (topic_name v) (Some m)"
  have deliver: "\<exists>t. NotifyClients topic c = Inr (t, delivered (topic_name v) m c)"
    if "broker_inv c" "objects c = objects b" "subscribed_clients c = subscribed_clients b" for c
    using NotifyClients_delivered [of c topic m] that rdy len by (simp add: topic_def all_ready_def)
  note start = MqttPublishPacketHandler_def at HandleMqttPublish_ok [OF ok] Let_def prod.case rbind.simps
    deref.simps store_if_def [of fh v m b, symmetric] b1_def [symmetric] topic_def [symmetric]
  show ?thesis
  proof (cases "QoS fh = qos_code QoS_1")
    case True
    then have q: "(QoS fh = qos_code QoS_1) = True" "(QoS fh \<noteq> qos_code QoS_2) = True" by simp_all
    define b2 where "b2 = b1\<lparr>commands := commands b1 @ [ack_cmd fd (packet_type_byte PUBACK) (pu_packet_id v)]\<rparr>"
    obtain t where "NotifyClients topic b2 = Inr (t, delivered (topic_name v) m b2)"
      using deliver [OF add_command_inv [OF inv1]] by (auto simp: b1_def b2_def)
    then show ?thesis
      by (simp only: start reply_ack q if_True published_def b2_def [symmetric])
  next
    case not1: False
    show ?thesis
    proof (cases "QoS fh = qos_code QoS_2")
      case True
      then have q: "(QoS fh = qos_code QoS_1) = False" "(QoS fh = qos_code QoS_2) = True"
        using not1 by simp_all
      have t: "new_MqttTopic (qos_code QoS_2) (pu_packet_id v) (topic_name v) (Some m) = topic"
        using True by (simp add: topic_def)
      have c: "client_id (objects b1 r) = client_id (objects b r)" by (simp add: b1_def)
      have o: "objects (b1\<lparr>commands := cs\<rparr>) = objects b1" for cs by simp
      show ?thesis
        by (simp only: start reply_typical more q simp_thms if_True if_False published_def t c o)
    next
      case False
      then have q: "(QoS fh = qos_code QoS_1) = False" "(QoS fh = qos_code QoS_2) = False"
        using not1 by simp_all
      obtain t where "NotifyClients topic b1 = Inr (t, delivered (topic_name v) m b1)"
        using deliver [OF inv1] by (auto simp: b1_def)
      then show ?thesis by (simp only: start q simp_thms if_True if_False published_def)
    qed
  qed
qed

text \<open>PUBREL: complete, deliver what was kept under the identifier and forget it.\<close>

definition released :: "u16 \<Rightarrow> int \<Rightarrow> nat \<Rightarrow> Broker \<Rightarrow> Broker" where
  "released i fd r b =
     (let c = client_id (objects b r);
          b = DelQosEvent c i (b\<lparr>commands := commands b @ [ack_cmd fd (packet_type_byte PUBCOMP) i]\<rparr>)
      in case find (\<lambda>t. t_id t = i) (held c b) of
           Some t \<Rightarrow> DelQoSTopic c i (delivered (t_name t) (the (t_data t)) b)
         | None \<Rightarrow> b)"

lemma PubRel_released:
  assumes inv: "broker_inv b" and mem: "(fd, Some r) \<in> set (clients b)"
    and kept: "\<And>t. find (\<lambda>t. t_id t = i) (held (client_id (objects b r)) b) = Some t \<Longrightarrow>
      all_ready (t_name t) b \<and> (\<exists>m. t_data t = Some m \<and> length m < 2 ^ 16) \<and> length (t_name t) < 2 ^ 16"
  shows "MqttPubRelPacketHandler fh (be16 i @ ys) fd b = Inr (mqtt_ok, released i fd r b)"
proof -
  have at: "clients_at fd b = (Some r, b)"
    using inv mem by (intro clients_at_present) (simp_all add: broker_inv_def)
  define c where "c = client_id (objects b r)"
  define b1 where "b1 = b\<lparr>commands := commands b @ [ack_cmd fd (packet_type_byte PUBCOMP) i]\<rparr>"
  define b2 where "b2 = DelQosEvent c i b1"
  have inv2: "broker_inv b2" using inv by (simp add: b2_def b1_def DelQosEvent_inv add_command_inv)
  have same: "objects b2 = objects b" "subscribed_clients b2 = subscribed_clients b"
    "held c b2 = held c b"
    by (simp_all add: b2_def b1_def DelQosEvent_def held_def)
  have c: "client_id (objects b1 r) = c" by (simp add: c_def b1_def)
  have get: "GetQoSTopic c i b2 = (case find (\<lambda>t. t_id t = i) (held c b2) of
      Some t \<Rightarrow> (t, True) | None \<Rightarrow> (new_MqttTopic 0 0 [] None, False))"
    using inv2 by (intro GetQoSTopic_held) (simp add: broker_inv_def)
  have pa: "pa_packet_id ((new_TypicalVH 0 0 [])\<lparr>pa_packet_id := i, pa_chain := []\<rparr>) = i" by simp
  have run: "MqttPubRelPacketHandler fh (be16 i @ ys) fd b =
      (let (topic, found) = GetQoSTopic c i b2
       in if found then rbind (NotifyClients topic b2) (\<lambda>(_, b). Inr (mqtt_ok, DelQoSTopic c i b))
          else Inr (mqtt_ok, b2))"
    by (simp only: MqttPubRelPacketHandler_def at HandleMqttPubrel_id Let_def prod.case rbind.simps
        deref.simps pa reply_typical b1_def [symmetric] c b2_def [symmetric] send_postponed_none [OF inv2])
  show ?thesis
  proof (cases "find (\<lambda>t. t_id t = i) (held c b2)")
    case None
    then show ?thesis
      by (simp add: run get released_def Let_def c_def [symmetric] b1_def [symmetric] b2_def [symmetric])
  next
    case (Some t)
    then have "find (\<lambda>t. t_id t = i) (held (client_id (objects b r)) b) = Some t"
      using same(3) by (simp add: c_def)
    with kept obtain m where t: "all_ready (t_name t) b2" "t_data t = Some m"
      "length m < 2 ^ 16" "length (t_name t) < 2 ^ 16"
      by (auto simp: all_ready_def same)
    then obtain t' where "NotifyClients t b2 = Inr (t', delivered (t_name t) m b2)"
      using NotifyClients_delivered [OF inv2] by blast
    with Some t show ?thesis
      by (simp add: run get released_def Let_def c_def [symmetric] b1_def [symmetric] b2_def [symmetric])
  qed
qed

section \<open>Short acknowledgements\<close>

text \<open>The body of an acknowledgement is not checked for its length.\<close>

lemma short_ack_overread:
  assumes "h \<in> {PubAck_Handler, PubRel_Handler, PubRec_Handler, PubComp_Handler}" and "length dat < 2"
  shows "run_handler h rnd fh dat fd b = Inl OobRead"
  using assms
  by (auto simp: MqttPubAckPacketHandler_def MqttPubRelPacketHandler_def MqttPubRecPacketHandler_def
      MqttPubCompPacketHandler_def HandleMqttPuback_def HandleMqttPubrel_def PubackVH_ReadFromBuf_def rd_block_def
      split: prod.splits)

end
