(* ===== verification/Subscribing.thy ===== *)
theory Subscribing
  imports Sessions
begin

text \<open>
  What SUBSCRIBE and UNSUBSCRIBE do to a broker: the acknowledgement, the subscriptions of the
  client, the retained topics that are sent at once, and how they are sent.
\<close>

section \<open>Retained topics\<close>

text \<open>The command that sends one retained topic with the options of the subscription as its level.\<close>

definition retained_cmd :: "int \<Rightarrow> nat \<Rightarrow> u8 \<Rightarrow> MqttTopic \<Rightarrow> Broker \<Rightarrow> Broker" where
  "retained_cmd fd r opts t b =
     (let i = packet_id_gen (objects b r);
          c = publish_cmd fd opts (if opts = 0 then 0 else i) (t_name t) (the (t_data t));
          b = b\<lparr>commands := commands b @ [c]\<rparr>
      in if opts = 0 then b else upd_obj r (\<lambda>c. snd (GenPacketID c)) b)"

definition sendable :: "MqttTopic \<Rightarrow> bool" where
  "sendable t \<longleftrightarrow> (\<exists>m. t_data t = Some m \<and> length m < 2 ^ 16) \<and> length (t_name t) < 2 ^ 16"

lemma NotifyClient_retained:
  assumes inv: "broker_inv b" and mem: "(fd, Some r) \<in> set (clients b)"
    and "opts < 4" and ok: "sendable t" and gen: "packet_id_gen (objects b r) \<noteq> 0"
  shows "\<exists>t'. NotifyClient fd (SetQos opts t) b = Inr (t', retained_cmd fd r opts t b)"
proof -
  have at: "clients_at fd b = (Some r, b)"
    using inv mem by (intro clients_at_present) (simp_all add: broker_inv_def)
  obtain m where m: "t_data t = Some m" "length m < 2 ^ 16" "length (t_name t) < 2 ^ 16"
    using ok by (auto simp: sendable_def)
  have none: "postponed_events b = []" using inv by (simp add: broker_inv_def)
  show ?thesis
  proof (cases "opts = 0")
    case True
    define t0 where "t0 = SetPacketID 0 (SetQos 0 t)"
    have "send_topic fd (client_id (objects b r)) t0 b =
        Inr (b\<lparr>commands := commands b @ [publish_cmd fd (t_qos t0) (t_id t0) (t_name t0) m]\<rparr>)"
      using m none by (intro send_topic_ok) (simp_all add: t0_def SetPacketID_def SetQos_def)
    with True m show ?thesis
      by (simp add: NotifyClient_def at give_id_def retained_cmd_def t0_def SetPacketID_def SetQos_def)
  next
    case False
    define b1 where "b1 = upd_obj r (\<lambda>c. snd (GenPacketID c)) b"
    define t0 where "t0 = SetPacketID (packet_id_gen (objects b r)) (SetQos opts t)"
    have "send_topic fd (client_id (objects b1 r)) t0 b1 =
        Inr (b1\<lparr>commands := commands b1 @ [publish_cmd fd (t_qos t0) (t_id t0) (t_name t0) m]\<rparr>)"
      using m none False gen \<open>opts < 4\<close>
      by (intro send_topic_ok) (simp_all add: t0_def b1_def upd_obj_def SetPacketID_def SetQos_def)
    with False m show ?thesis
      by (simp add: NotifyClient_def at give_id_def retained_cmd_def t0_def b1_def SetPacketID_def
          SetQos_def GenPacketID_def upd_obj_def Let_def)
  qed
qed

lemma retained_cmd_simps [simp]:
  "clients (retained_cmd fd r opts t b) = clients b"
  "subscribed_clients (retained_cmd fd r opts t b) = subscribed_clients b"
  "topics (retained_cmd fd r opts t b) = topics b"
  "packet_id_gen (objects (retained_cmd fd r opts t b) r) =
     packet_id_gen (objects b r) + (if opts = 0 then 0 else 1)"
  by (simp_all add: retained_cmd_def upd_obj_def GenPacketID_def Let_def)

lemma retained_cmd_inv: "broker_inv b \<Longrightarrow> broker_inv (retained_cmd fd r opts t b)"
  by (auto simp: retained_cmd_def Let_def GenPacketID_def client_inv_def
      intro!: upd_obj_inv add_command_inv)

text \<open>The generator does not wrap while it stays below \<open>2 ^ 16\<close>.\<close>

lemma gen_step:
  fixes g :: u16
  assumes "0 < unat g" and "unat g + Suc n \<le> 2 ^ 16" and "0 < n"
  shows "0 < unat (g + (if q then 0 else 1))" and "unat (g + (if q then 0 else 1)) + n \<le> 2 ^ 16"
proof -
  have "unat (g + 1) = unat g + 1"
    using assms by (subst unat_add_lem [THEN iffD1]) simp_all
  with assms show "0 < unat (g + (if q then 0 else 1))" "unat (g + (if q then 0 else 1)) + n \<le> 2 ^ 16"
    by simp_all
qed

definition retained_run :: "int \<Rightarrow> nat \<Rightarrow> (u8 \<times> MqttTopic) list \<Rightarrow> Broker \<Rightarrow> Broker" where
  "retained_run fd r sends b = fold (\<lambda>(opts, t). retained_cmd fd r opts t) sends b"

lemma retained_run_simps [simp]:
  "retained_run fd r [] b = b"
  "retained_run fd r ((opts, t) # ss) b = retained_run fd r ss (retained_cmd fd r opts t b)"
  "retained_run fd r (as @ bs) b = retained_run fd r bs (retained_run fd r as b)"
  by (simp_all add: retained_run_def)

definition room :: "nat \<Rightarrow> nat \<Rightarrow> Broker \<Rightarrow> bool" where
  "room r n b \<longleftrightarrow> 0 < n \<longrightarrow> 0 < unat (packet_id_gen (objects b r)) \<and>
     unat (packet_id_gen (objects b r)) + n \<le> 2 ^ 16"

lemma room_step: "room r (Suc n) b \<Longrightarrow> room r n (retained_cmd fd r opts t b)"
  using gen_step [of "packet_id_gen (objects b r)" n "opts = 0"] by (cases "n = 0") (auto simp: room_def)

lemma room_gen: "room r (Suc n) b \<Longrightarrow> packet_id_gen (objects b r) \<noteq> 0"
  by (auto simp: room_def)

lemma send_retained_run:
  assumes "broker_inv b" and "(fd, Some r) \<in> set (clients b)" and "opts < 4"
    and "\<forall>t\<in>set ts. sendable t" and "room r (length ts + n) b"
  shows "send_retained fd opts ts b = Inr (retained_run fd r (map (Pair opts) ts) b) \<and>
    broker_inv (retained_run fd r (map (Pair opts) ts) b) \<and>
    clients (retained_run fd r (map (Pair opts) ts) b) = clients b \<and>
    topics (retained_run fd r (map (Pair opts) ts) b) = topics b \<and>
    room r n (retained_run fd r (map (Pair opts) ts) b)"
  using assms
proof (induction ts arbitrary: b)
  case (Cons t ts)
  obtain t' where "NotifyClient fd (SetQos opts t) b = Inr (t', retained_cmd fd r opts t b)"
    using NotifyClient_retained [of b fd r opts t] Cons.prems room_gen [of r "length ts + n" b] by auto
  then show ?case
    using Cons.prems Cons.IH [of "retained_cmd fd r opts t b"] room_step [of r "length ts + n" b]
    by (simp add: retained_cmd_inv)
qed simp

text \<open>Matching looks at the stored topics only.\<close>

lemma GetMatchedTopics_topics:
  "topics b = topics b' \<Longrightarrow> GetMatchedTopics nm b = GetMatchedTopics nm b'"
  by (simp add: GetMatchedTopics_def)

definition retained_sends ::
    "(bytes \<Rightarrow> MqttTopic list) \<Rightarrow> (bytes \<times> u8) list \<Rightarrow> (u8 \<times> MqttTopic) list" where
  "retained_sends ms tpcs = concat (map (\<lambda>(nm, opts). map (Pair opts) (ms nm)) tpcs)"

lemma retained_loop_run:
  assumes "broker_inv b" and "(fd, Some r) \<in> set (clients b)"
    and "\<forall>(nm, opts)\<in>set tpcs. opts < 4 \<and> GetMatchedTopics nm b = Inr (ms nm) \<and> (\<forall>t\<in>set (ms nm). sendable t)"
    and "room r (length (retained_sends ms tpcs)) b"
  shows "retained_loop fd tpcs b = Inr (retained_run fd r (retained_sends ms tpcs) b)"
  using assms
proof (induction tpcs arbitrary: b)
  case (Cons a tpcs)
  obtain nm opts where a: "a = (nm, opts)" by (cases a)
  define b' where "b' = retained_run fd r (map (Pair opts) (ms nm)) b"
  have run: "send_retained fd opts (ms nm) b = Inr b'" "broker_inv b'" "clients b' = clients b"
      "topics b' = topics b" "room r (length (retained_sends ms tpcs)) b'"
    using send_retained_run [of b fd r opts "ms nm" "length (retained_sends ms tpcs)"] Cons.prems a
    by (simp_all add: b'_def retained_sends_def)
  have "retained_loop fd tpcs b' = Inr (retained_run fd r (retained_sends ms tpcs) b')"
    using Cons.prems run GetMatchedTopics_topics [OF run(4)] by (intro Cons.IH) auto
  then show ?case
    using Cons.prems a run(1) by (simp add: retained_sends_def b'_def)
qed (simp add: retained_sends_def)

text \<open>
  The options byte goes into the header unmasked: with a flag set above the two bits of the level and
  the level 0, the header says QoS 0 while the packet has an identifier, and the packet is longer
  than its block.
\<close>

lemma QoS_publish_first_any: "QoS (new_FixedHeader (publish_first q)) = q AND 3"
proof (rule bit_word_eqI)
  fix n
  assume "n < LENGTH(8)"
  then have "n = 0 \<or> n = 1 \<or> n = 2 \<or> n = 3 \<or> n = 4 \<or> n = 5 \<or> n = 6 \<or> n = 7" by auto
  then show "bit (QoS (new_FixedHeader (publish_first q))) n \<longleftrightarrow> bit (q AND 3) n"
    by (elim disjE) (simp_all add: QoS_def new_FixedHeader_def publish_first_def Build_def WithQoS_def
        PacketType_def FHBuilder_def bit_simps bit_numeral_rec mult.commute [of q 2] bit_double_iff)
qed

lemma NotifyClient_flags:
  assumes inv: "broker_inv b" and mem: "(fd, Some r) \<in> set (clients b)"
    and opts: "opts \<noteq> 0" "opts AND 3 = 0" and ok: "sendable t" and gen: "packet_id_gen (objects b r) \<noteq> 0"
  shows "NotifyClient fd (SetQos opts t) b = Inl OobWrite"
proof -
  have at: "clients_at fd b = (Some r, b)"
    using inv mem by (intro clients_at_present) (simp_all add: broker_inv_def)
  obtain m where m: "t_data t = Some m" "length m < 2 ^ 16" "length (t_name t) < 2 ^ 16"
    using ok by (auto simp: sendable_def)
  have none: "postponed_events b = []" using inv by (simp add: broker_inv_def)
  define i where "i = packet_id_gen (objects b r)"
  note small = publish_body_small [OF m(3,2), of i]
  have len: "length (publish_body (new_PublishVH (t_name t) i []) m) + 6 < 2 ^ 32" using small(2) by simp
  have "CreateMqttPacket_msg (publish_first opts) (Publish_vh (new_PublishVH (t_name t) i [])) (Some m) =
      Inl OobWrite"
    using gen opts by (intro CreateMqttPacket_msg_overrun [OF small(1) len])
      (simp_all add: QoS_publish_first_any new_PublishVH_def i_def)
  with opts m none show ?thesis
    by (simp add: NotifyClient_def at give_id_def SetQos_def SetPacketID_def send_topic_direct upd_obj_def
        GenPacketID_def i_def)
qed

lemma retained_loop_flags:
  assumes inv: "broker_inv b" and mem: "(fd, Some r) \<in> set (clients b)"
    and opts: "opts \<noteq> 0" "opts AND 3 = 0" and gen: "packet_id_gen (objects b r) \<noteq> 0"
    and "GetMatchedTopics nm b = Inr (t # ts)" and "sendable t"
  shows "retained_loop fd ((nm, opts) # tpcs) b = Inl OobWrite"
  using NotifyClient_flags [OF inv mem opts assms(7) gen] assms(6) by simp

section \<open>The identifier 0\<close>

text \<open>
  A generator that has come round to 0 gives an identifier the packet leaves out: the assertion at
  the end of the construction fails.
\<close>

lemma NotifyClients_wrapped:
  assumes inv: "broker_inv b" and subs: "subscribed_clients b = (fd, r) # es"
    and my: "MyTopic (t_name topic) (objects b r) = Inr (True, opts)" and opts: "opts AND 3 \<noteq> 0"
    and gen: "packet_id_gen (objects b r) = 0" and ok: "sendable topic"
  shows "NotifyClients topic b = Inl AssertFail"
proof -
  obtain m where m: "t_data topic = Some m" "length m < 2 ^ 16" "length (t_name topic) < 2 ^ 16"
    using ok by (auto simp: sendable_def)
  have none: "postponed_events b = []" using inv by (simp add: broker_inv_def)
  have lock: "lock r b"
    using inv subs subscribed_lock [of b "(fd, r)"] by (simp add: broker_inv_def)
  have "CreateMqttPacket_msg (publish_first (opts AND 3)) (Publish_vh (new_PublishVH (t_name topic) 0 []))
      (Some m) = Inl AssertFail"
    using opts by (simp only: CreateMqttPacket_publish [OF m(3,2) and3_less4] simp_thms if_False)
      simp
  with opts gen m none lock my show ?thesis
    by (simp add: NotifyClients_def subs give_id_def SetQos_def SetPacketID_def send_topic_direct upd_obj_def
        GenPacketID_def)
qed

section \<open>SUBSCRIBE\<close>

definition packet_cmd :: "int \<Rightarrow> u8 \<Rightarrow> bytes \<Rightarrow> FdWriteCommand" where
  "packet_cmd fd t body =
     new_FdWriteCommand fd (of_nat (length (packet_enc t body)), Some (packet_enc t body))"

lemma reply_packet:
  assumes "vh_ok v" and "vh_exact v" and "length (vh_enc v) + 6 < 2 ^ 32"
  shows "reply fd t v b = Inr (b\<lparr>commands := commands b @ [packet_cmd fd t (vh_enc v)]\<rparr>)"
  using CreateMqttPacket_vh_exact [OF assms]
  by (simp add: reply_def enqueue_def AddCommand_def packet_cmd_def)

lemma reply_codes:
  assumes "length cs < 2 ^ 31"
  shows "reply fd t (Suback_vh (new_SubackVH i [] cs)) b =
      Inr (b\<lparr>commands := commands b @ [packet_cmd fd t (be16 i @ [0] @ cs)]\<rparr>)"
    and "reply fd t (UnsubAck_vh (new_UnsubAckVH i [] cs)) b =
      Inr (b\<lparr>commands := commands b @ [packet_cmd fd t (be16 i @ [0] @ cs)]\<rparr>)"
  using assms reply_packet [of "Suback_vh (new_SubackVH i [] cs)" fd t b]
    reply_packet [of "UnsubAck_vh (new_UnsubAckVH i [] cs)" fd t b]
  by (simp_all add: vh_ok_def new_SubackVH_def new_UnsubAckVH_def chain_enc_Nil)

lemma subscribe_all_simps [simp]:
  "clients (subscribe_all r ts b) = clients b" "topics (subscribe_all r ts b) = topics b"
  "commands (subscribe_all r ts b) = commands b"
  "packet_id_gen (objects (subscribe_all r ts b) s) = packet_id_gen (objects b s)"
  by (induction ts arbitrary: b)
    (auto simp: subscribe_all_def upd_obj_def AddSubscription_def case_prod_unfold)

lemma subscribe_all_inv: "broker_inv b \<Longrightarrow> broker_inv (subscribe_all r ts b)"
  by (induction ts arbitrary: b)
    (auto simp: subscribe_all_def case_prod_unfold intro: upd_obj_inv AddSubscription_inv)

definition subscribed ::
    "SubscribeVH \<Rightarrow> (bytes \<times> u8) list \<Rightarrow> (bytes \<Rightarrow> MqttTopic list) \<Rightarrow> int \<Rightarrow> nat \<Rightarrow> Broker \<Rightarrow> Broker" where
  "subscribed v ts ms fd r b =
     (let ack = packet_cmd fd (packet_type_byte SUBACK)
                  (be16 (sub_packet_id v) @ [0] @ replicate (length ts) (rc granted_quos_2));
          b = subscribe_all r ts b;
          b = b\<lparr>commands := commands b @ [ack]\<rparr>
      in AddSubscribedClient fd r (retained_run fd r (retained_sends ms ts) b))"

definition subscribe_packet_ok :: "FixedHeader \<Rightarrow> SubscribeVH \<Rightarrow> (bytes \<times> u8) list \<Rightarrow> bytes \<Rightarrow> bool" where
  "subscribe_packet_ok fh v ts buf \<longleftrightarrow> chain_readable (sub_chain v) \<and> sub_packet_id v \<noteq> 0 \<and>
     (\<forall>t\<in>set ts. length (fst t) < 2 ^ 16 \<and> snd t < 4) \<and>
     buf = vh_enc (Subscribe_vh v) @ subs_enc ts \<and> length buf < 2 ^ 28 \<and>
     remaining_len fh = of_nat (length buf)"

lemma length_subs_enc: "length ts \<le> length (subs_enc ts)"
  by (induction ts) auto

lemma Subscribe_subscribed:
  assumes inv: "broker_inv b" and mem: "(fd, Some r) \<in> set (clients b)"
    and ok: "subscribe_packet_ok fh v ts buf"
    and ms: "\<forall>(nm, opts)\<in>set ts. GetMatchedTopics nm b = Inr (ms nm) \<and> (\<forall>t\<in>set (ms nm). sendable t)"
    and gen: "room r (length (retained_sends ms ts)) b"
  shows "MqttSubscribePacketHandler fh buf fd b = Inr (mqtt_ok, subscribed v ts ms fd r b)"
proof -
  have at: "clients_at fd b = (Some r, b)"
    using inv mem by (intro clients_at_present) (simp_all add: broker_inv_def)
  define b1 where "b1 = subscribe_all r ts b"
  have run: "HandleMqttSubscribe r fh buf b = Inr (v, map (\<lambda>_. qos_code QoS_2) ts, ts, b1)"
    using ok unfolding b1_def by (intro HandleMqttSubscribe_enc) (auto simp: subscribe_packet_ok_def)
  have codes: "map (\<lambda>_. qos_code QoS_2) ts = replicate (length ts) (rc granted_quos_2)"
    by (simp add: map_replicate_const)
  define b2 where "b2 = b1\<lparr>commands := commands b1 @ [packet_cmd fd (packet_type_byte SUBACK)
      (be16 (sub_packet_id v) @ [0] @ replicate (length ts) (rc granted_quos_2))]\<rparr>"
  have "length ts < 2 ^ 31"
    using ok length_subs_enc [of ts] by (auto simp: subscribe_packet_ok_def)
  then have ack: "reply fd (packet_type_byte SUBACK) (Suback_vh (new_SubackVH (sub_packet_id v) []
      (map (\<lambda>_. qos_code QoS_2) ts))) b1 = Inr b2"
    unfolding b2_def codes by (intro reply_codes) simp
  have b2: "broker_inv b2" "clients b2 = clients b" "topics b2 = topics b"
      "packet_id_gen (objects b2 r) = packet_id_gen (objects b r)"
    using inv by (simp_all add: b2_def b1_def add_command_inv subscribe_all_inv)
  have "\<forall>(nm, opts)\<in>set ts. opts < 4 \<and> GetMatchedTopics nm b2 = Inr (ms nm) \<and> (\<forall>t\<in>set (ms nm). sendable t)"
    using ok ms GetMatchedTopics_topics [OF b2(3)] by (auto simp: subscribe_packet_ok_def)
  then have "retained_loop fd ts b2 = Inr (retained_run fd r (retained_sends ms ts) b2)"
    using b2 mem gen by (intro retained_loop_run) (simp_all add: room_def)
  then show ?thesis
    by (simp only: MqttSubscribePacketHandler_def at run ack Let_def prod.case rbind.simps
        deref.simps subscribed_def b1_def [symmetric] b2_def [symmetric])
qed

text \<open>What the client is subscribed to afterwards: the options given first for a filter stay.\<close>

lemma CFind_subscribe_all:
  assumes "client_inv (objects b r)"
  shows "CFind nm (objects (subscribe_all r ts b) r) =
    (case CFind nm (objects b r) of Some e \<Rightarrow> Some e
     | None \<Rightarrow> (case find (\<lambda>t. fst t = nm) ts of Some t \<Rightarrow> Some t | None \<Rightarrow> None))"
  using assms
proof (induction ts arbitrary: b)
  case (Cons t ts)
  obtain flt opts where t: "t = (flt, opts)" by (cases t)
  let ?b = "upd_obj r (AddSubscription flt opts) b"
  have "subscribe_all r (t # ts) b = subscribe_all r ts ?b" by (simp add: t subscribe_all_def)
  moreover have "client_inv (objects ?b r)"
    using Cons.prems by (simp add: upd_obj_def AddSubscription_inv)
  moreover have "CFind nm (objects ?b r) =
      (if nm = flt \<and> CFind nm (objects b r) = None then Some (flt, opts) else CFind nm (objects b r))"
    using CFind_AddSubscription [OF Cons.prems] by (simp add: upd_obj_def)
  ultimately show ?case using Cons.IH [of ?b] by (auto simp: t split: option.splits)
qed (simp add: subscribe_all_def split: option.split)

section \<open>UNSUBSCRIBE\<close>

definition unsub_codes :: "bytes list \<Rightarrow> Client \<Rightarrow> u8 list" where
  "unsub_codes nms c =
     map (\<lambda>i. if CFind (nms ! i) c \<noteq> None \<and> nms ! i \<notin> set (take i nms) then rc success
               else rc no_subscription_existed) [0..<length nms]"

definition unsubscribed_from :: "nat \<Rightarrow> bytes list \<Rightarrow> Broker \<Rightarrow> Broker" where
  "unsubscribed_from r nms b = fold (\<lambda>nm. upd_obj r (\<lambda>c. snd (DelSubscription nm c))) nms b"

lemma unsub_codes_Cons:
  "unsub_codes (nm # nms) c =
    (if CFind nm c \<noteq> None then rc success else rc no_subscription_existed) #
    unsub_codes nms (snd (DelSubscription nm c))"
proof -
  have "map (\<lambda>i. if CFind ((nm # nms) ! i) c \<noteq> None \<and> (nm # nms) ! i \<notin> set (take i (nm # nms))
        then rc success else rc no_subscription_existed) (map Suc [0..<length nms]) =
      unsub_codes nms (snd (DelSubscription nm c))"
    unfolding unsub_codes_def map_map by (rule map_cong) (auto simp: CFind_DelSubscription)
  then show ?thesis
    by (simp add: unsub_codes_def upt_conv_Cons map_Suc_upt [symmetric] del: upt_Suc)
qed

lemma unsubscribe_all_codes:
  "unsubscribe_all r nms codes b = (codes @ unsub_codes nms (objects b r), unsubscribed_from r nms b)"
proof (induction nms arbitrary: codes b)
  case Nil
  then show ?case by (simp add: unsub_codes_def unsubscribed_from_def)
next
  case (Cons nm nms)
  obtain n c where del: "DelSubscription nm (objects b r) = (n, c)"
    by (cases "DelSubscription nm (objects b r)")
  then have n: "n = (if CFind nm (objects b r) = None then 0 else 1)"
    using DelSubscription_count [of nm "objects b r"] by simp
  have "upd_obj r (\<lambda>c. snd (DelSubscription nm c)) b = upd_obj r (\<lambda>_. c) b"
    using del by (simp add: upd_obj_def)
  then show ?case
    using del n Cons.IH [of _ "upd_obj r (\<lambda>_. c) b"]
    by (simp add: unsub_codes_Cons unsubscribed_from_def upd_obj_def)
qed

lemma CFind_unsubscribed_from:
  "CFind nm (objects (unsubscribed_from r nms b) r) =
    (if nm \<in> set nms then None else CFind nm (objects b r))"
proof (induction nms arbitrary: b)
  case (Cons a nms)
  let ?b = "upd_obj r (\<lambda>c. snd (DelSubscription a c)) b"
  have "unsubscribed_from r (a # nms) b = unsubscribed_from r nms ?b"
    by (simp add: unsubscribed_from_def)
  moreover have "CFind nm (objects ?b r) = (if nm = a then None else CFind nm (objects b r))"
    by (simp add: upd_obj_def CFind_DelSubscription)
  ultimately show ?case using Cons.IH [of ?b] by auto
qed (simp add: unsubscribed_from_def)

lemma unsubscribed_from_commands [simp]: "commands (unsubscribed_from r nms b) = commands b"
  by (induction nms arbitrary: b) (simp_all add: unsubscribed_from_def upd_obj_def)

definition unsubscribe_packet_ok :: "FixedHeader \<Rightarrow> UnsubscribeVH \<Rightarrow> bytes list \<Rightarrow> bytes \<Rightarrow> bool" where
  "unsubscribe_packet_ok fh v nms buf \<longleftrightarrow> chain_readable (us_chain v) \<and>
     (\<forall>t\<in>set nms. length t < 2 ^ 16) \<and>
     buf = vh_enc (Unsubscribe_vh v) @ concat (map str_enc nms) \<and> length buf < 2 ^ 28 \<and>
     remaining_len fh = of_nat (length buf)"

definition unsubscribed :: "UnsubscribeVH \<Rightarrow> bytes list \<Rightarrow> int \<Rightarrow> nat \<Rightarrow> Broker \<Rightarrow> Broker" where
  "unsubscribed v nms fd r b =
     (unsubscribed_from r nms b)\<lparr>commands := commands b @ [packet_cmd fd (packet_type_byte UNSUBACK)
        (be16 (us_packet_id v) @ [0] @ unsub_codes nms (objects b r))]\<rparr>"

lemma length_strs: "length nms \<le> length (concat (map str_enc nms))"
  by (induction nms) auto

lemma Unsubscribe_unsubscribed:
  assumes inv: "broker_inv b" and mem: "(fd, Some r) \<in> set (clients b)"
    and ok: "unsubscribe_packet_ok fh v nms buf"
  shows "MqttUnsubscribePacketHandler fh buf fd b = Inr (mqtt_ok, unsubscribed v nms fd r b)"
proof -
  have at: "clients_at fd b = (Some r, b)"
    using inv mem by (intro clients_at_present) (simp_all add: broker_inv_def)
  have run: "HandleMqttUnsubscribe fh buf = Inr (v, nms)"
    using ok by (intro HandleMqttUnsubscribe_enc) (auto simp: unsubscribe_packet_ok_def)
  have "length (unsub_codes nms (objects b r)) = length nms" by (simp add: unsub_codes_def)
  moreover have "length nms < 2 ^ 31"
    using ok length_strs [of nms] by (auto simp: unsubscribe_packet_ok_def)
  ultimately have "length (unsub_codes nms (objects b r)) < 2 ^ 31" by simp
  then show ?thesis
    by (simp add: MqttUnsubscribePacketHandler_def at run unsubscribe_all_codes reply_codes
        unsubscribed_def)
qed

end
