(* ===== verification/Connecting.thy ===== *)
theory Connecting
  imports Subscribing
begin

text \<open>
  What CONNECT does: the members of the client object it sets, the decision about the client
  identifier, the will and the credentials, and the CONNACK. A packet is described by its parts and
  given by their encoding.
\<close>

section \<open>The packet\<close>

record connect_packet =
  cp_vh :: ConnectVH
  cp_chain :: MqttPropertyChain
  cp_id :: bytes
  cp_will :: "(MqttPropertyChain \<times> bytes \<times> bytes) option"
  cp_user :: "bytes option"
  cp_pwd :: "bytes option"

definition opt_enc :: "bytes option \<Rightarrow> bytes" where
  "opt_enc s = (case s of None \<Rightarrow> [] | Some s \<Rightarrow> str_enc s)"

definition will_enc :: "(MqttPropertyChain \<times> bytes \<times> bytes) option \<Rightarrow> bytes" where
  "will_enc w = (case w of None \<Rightarrow> [] | Some (ch, nm, m) \<Rightarrow> chain_enc ch @ str_enc nm @ str_enc m)"

definition connect_body :: "connect_packet \<Rightarrow> bytes" where
  "connect_body p = vh_enc (Connect_vh (cp_vh p)) @ chain_enc (cp_chain p) @ str_enc (cp_id p) @
     will_enc (cp_will p) @ opt_enc (cp_user p) @ opt_enc (cp_pwd p)"

text \<open>Strings whose size the readers report right: not empty and at most 253 bytes.\<close>

definition short_str :: "bytes \<Rightarrow> bool" where
  "short_str s \<longleftrightarrow> s \<noteq> [] \<and> length s < 254"

definition connect_packet_ok :: "connect_packet \<Rightarrow> bool" where
  "connect_packet_ok p \<longleftrightarrow> length (vh_name (cp_vh p)) = 4 \<and> version (cp_vh p) = MQTT_VERSION_5 \<and>
     chain_readable (cp_chain p) \<and> length (cp_id p) < 254 \<and>
     (conn_flags (cp_vh p) AND 0x4 \<noteq> 0 \<longleftrightarrow> cp_will p \<noteq> None) \<and>
     (\<forall>ch nm m. cp_will p = Some (ch, nm, m) \<longrightarrow>
        chain_readable ch \<and> length nm < 2 ^ 16 \<and> length m < 2 ^ 16) \<and>
     (conn_flags (cp_vh p) AND 0x80 \<noteq> 0 \<longleftrightarrow> cp_user p \<noteq> None) \<and>
     (conn_flags (cp_vh p) AND 0x80 \<noteq> 0 \<and> conn_flags (cp_vh p) AND 0x40 \<noteq> 0 \<longleftrightarrow> cp_pwd p \<noteq> None) \<and>
     (\<forall>s. cp_user p = Some s \<longrightarrow> short_str s) \<and> (\<forall>s. cp_pwd p = Some s \<longrightarrow> short_str s) \<and>
     length (connect_body p) < 2 ^ 28"

section \<open>The readers of strings\<close>

lemma CreateMqttStringEntity_enc:
  assumes "length s < 254" and "q = length xs"
  shows "CreateMqttStringEntity (Some (xs @ str_enc s @ ys, q)) =
    Inr (if s = [] then (None, 0) else (Some s, of_nat (2 + length s)))"
proof -
  have n: "unat (of_nat (length s) :: u16) = length s" using assms(1) by simp
  have "(of_nat (length s) :: u16) = 0 \<longleftrightarrow> s = []"
    using n by (simp add: word_unat_eq_iff)
  moreover have "rd_block (xs @ str_enc s @ ys) (length xs + 2) (length s) = Inr s"
    by (simp add: str_enc_def rd_block_def)
  moreover have "ConvertToHost2Bytes (xs @ str_enc s @ ys) (length xs) = Inr (of_nat (length s))"
    by (simp add: str_enc_def mem_simps)
  ultimately show ?thesis
    by (simp only: CreateMqttStringEntity.simps assms(2) rbind.simps Let_def n ucast_u16_u8 of_nat_add
        of_nat_numeral) simp
qed

lemma CreateMqttBinaryDataEntity_enc:
  assumes "length s < 254" and "q = length xs"
  shows "CreateMqttBinaryDataEntity (Some (xs @ str_enc s @ ys, q)) =
    Inr (if s = [] then (None, 0) else (Some s, of_nat (2 + length s)))"
  using CreateMqttStringEntity_enc [OF assms, of ys]
  by (simp only: CreateMqttStringEntity.simps CreateMqttBinaryDataEntity.simps)

section \<open>The will and the credentials\<close>

definition set_will :: "(MqttPropertyChain \<times> bytes \<times> bytes) option \<Rightarrow> Client \<Rightarrow> Client" where
  "set_will w c = (case w of None \<Rightarrow> c
     | Some (ch, nm, m) \<Rightarrow>
         c\<lparr>will_properties := ch, will_topic := new_MqttTopic (WillQoSFlag c) 1 nm (Some m)\<rparr>)"

definition set_auth :: "bytes option \<Rightarrow> bytes option \<Rightarrow> Client \<Rightarrow> Client" where
  "set_auth u w c =
     (let c = (case u of None \<Rightarrow> c | Some u \<Rightarrow> setUserName u c)
      in case w of None \<Rightarrow> c | Some w \<Rightarrow> setPwd w c)"

lemma upd_obj_id: "upd_obj r (\<lambda>c. c) b = b"
  by (simp add: upd_obj_def)

lemma upd_obj_upd_obj: "upd_obj r g (upd_obj r f b) = upd_obj r (\<lambda>c. g (f c)) b"
  by (simp add: upd_obj_def)

lemma objects_upd_obj [simp]: "objects (upd_obj r f b) r = f (objects b r)"
  by (simp add: upd_obj_def)

lemma set_will_None: "set_will None = (\<lambda>c. c)"
  by (simp add: set_will_def fun_eq_iff)

lemma connect_will_enc:
  assumes flag: "isWillFlag (objects b r) \<longleftrightarrow> w \<noteq> None"
    and w: "\<And>ch nm m. w = Some (ch, nm, m) \<Longrightarrow> chain_readable ch \<and> length nm < 2 ^ 16 \<and> length m < 2 ^ 16"
    and empty: "will_properties (objects b r) = []"
    and len: "length xs + length (will_enc w) < 2 ^ 32" and buf: "buf = xs @ will_enc w @ ys"
  shows "connect_will r buf (of_nat (length xs)) b =
    Inr (mqtt_ok, of_nat (length xs + length (will_enc w)), upd_obj r (set_will w) b)"
proof (cases w)
  case None
  then show ?thesis
    using flag by (simp add: connect_will_def will_enc_def set_will_None upd_obj_id)
next
  case (Some t)
  obtain ch nm m where t: "t = (ch, nm, m)" by (cases t)
  note ok = w [OF Some [unfolded t]]
  have enc: "buf = xs @ chain_enc ch @ str_enc nm @ str_enc m @ ys"
    by (simp add: buf Some t will_enc_def)
  define n1 where "n1 = length xs + length (chain_enc ch)"
  define n2 where "n2 = n1 + 2 + length nm"
  have lens: "n2 + 2 + length m < 2 ^ 32" "length (will_enc w) = n2 + 2 + length m - length xs"
      "length xs \<le> n1"
    using len by (simp_all add: n1_def n2_def Some t will_enc_def)
  have pos: "unat (of_nat (length xs) :: u32) = length xs" "unat (of_nat n1 :: u32) = n1"
      "unat (of_nat (n1 + 2) :: u32) = n1 + 2" "unat (of_nat n2 :: u32) = n2"
      "unat (of_nat (n2 + 2) :: u32) = n2 + 2"
    using lens by (simp_all only: unat_of_nat32 n1_def n2_def)
  have u: "unat (of_nat (length nm) :: u16) = length nm" "unat (of_nat (length m) :: u16) = length m"
    using ok by simp_all
  have c: "chain_Create [] buf (length xs) = Inr (mqtt_ok, of_nat (length (chain_enc ch)), ch)"
    unfolding enc by (rule chain_Create_readable) (use ok in simp_all)
  have r1: "ConvertToHost2Bytes buf n1 = Inr (of_nat (length nm))"
    using ConvertToHost2Bytes_be16 [of n1 "xs @ chain_enc ch" "of_nat (length nm)" "nm @ str_enc m @ ys"]
    by (simp add: enc n1_def str_enc_def)
  have r2: "rd_block buf (n1 + 2) (length nm) = Inr nm"
    by (simp add: enc n1_def str_enc_def rd_block_def)
  have r3: "ConvertToHost2Bytes buf n2 = Inr (of_nat (length m))"
    using ConvertToHost2Bytes_be16 [of n2 "xs @ chain_enc ch @ str_enc nm" "of_nat (length m)" "m @ ys"]
    by (simp add: enc n1_def n2_def str_enc_def)
  have r4: "rd_block buf (n2 + 2) (length m) = Inr m"
    by (simp add: enc n1_def n2_def str_enc_def rd_block_def)
  have adds: "of_nat (length xs) + of_nat (length (chain_enc ch)) = (of_nat n1 :: u32)"
      "of_nat n1 + 2 = (of_nat (n1 + 2) :: u32)"
      "of_nat (n1 + 2) + ucast (of_nat (length nm) :: u16) = (of_nat n2 :: u32)"
      "of_nat n2 + 2 = (of_nat (n2 + 2) :: u32)"
      "of_nat (n2 + 2) + ucast (of_nat (length m) :: u16) =
        (of_nat (length xs + length (will_enc w)) :: u32)"
    using u lens by (simp_all add: n1_def n2_def ucast_u16_u32)
  have "isWillFlag (objects b r)" using flag Some by simp
  then have flag': "(\<not> isWillFlag (objects b r)) = False" by simp
  have upd: "upd_obj r (\<lambda>c. c\<lparr>will_topic := new_MqttTopic (WillQoSFlag c) 1 nm (Some m)\<rparr>)
      (upd_obj r (\<lambda>c. c\<lparr>will_properties := ch\<rparr>) b) = upd_obj r (set_will w) b"
    by (simp add: upd_obj_def set_will_def Some t WillQoSFlag_def)
  show ?thesis
    by (simp only: connect_will_def flag' if_False empty pos c rbind.simps prod.case Let_def adds
        r1 r2 r3 r4 u upd not_not simp_thms)
qed

lemma connect_auth_enc:
  assumes user: "isUserNameFlag (objects b r) \<longleftrightarrow> u \<noteq> None"
    and pw: "isUserNameFlag (objects b r) \<and> isPwdFlag (objects b r) \<longleftrightarrow> w \<noteq> None"
    and short: "\<And>s. u = Some s \<Longrightarrow> short_str s" "\<And>s. w = Some s \<Longrightarrow> short_str s"
    and len: "length xs + length (opt_enc u) < 2 ^ 32" and buf: "buf = xs @ opt_enc u @ opt_enc w"
  shows "connect_auth r buf (of_nat (length xs)) b = Inr (mqtt_ok, upd_obj r (set_auth u w) b)"
proof (cases u)
  case None
  then have "w = None" using user pw by simp
  then have "set_auth u w = (\<lambda>c. c)" using None by (simp add: set_auth_def fun_eq_iff)
  then show ?thesis using None user by (simp add: connect_auth_def upd_obj_id)
next
  case (Some nm)
  have nm: "nm \<noteq> []" "length nm < 254" using short(1) [OF Some] by (simp_all add: short_str_def)
  have flag: "(\<not> isUserNameFlag (objects b r)) = False" using user Some by simp
  have pos: "unat (of_nat (length xs) :: u32) = length xs" using len by (simp add: unat_of_nat32)
  have rd: "CreateMqttStringEntity (Some (buf, length xs)) = Inr (Some nm, of_nat (2 + length nm))"
    using CreateMqttStringEntity_enc [OF nm(2) refl, of xs "opt_enc w"] nm(1)
    by (simp add: buf Some opt_enc_def del: CreateMqttStringEntity.simps)
  define b1 where "b1 = upd_obj r (setUserName nm) b"
  have b1: "isPwdFlag (objects b1 r) = isPwdFlag (objects b r)"
    by (simp add: b1_def isPwdFlag_def setUserName_def)
  show ?thesis
  proof (cases w)
    case None
    have np: "(\<not> isPwdFlag (objects b1 r)) = True" using None user pw Some b1 by simp
    have "upd_obj r (set_auth u w) b = b1"
      by (simp add: b1_def set_auth_def None Some upd_obj_def)
    then show ?thesis
      by (simp only: connect_auth_def flag if_False pos rd rbind.simps prod.case option.case Let_def
          b1_def [symmetric] np if_True)
  next
    case w: (Some pw')
    have np: "(\<not> isPwdFlag (objects b1 r)) = False" using w pw b1 by simp
    have pw': "pw' \<noteq> []" "length pw' < 254" using short(2) [OF w] by (simp_all add: short_str_def)
    define n where "n = length xs + (2 + length nm)"
    have off: "of_nat (length xs) + ucast (of_nat (2 + length nm) :: u8) = (of_nat n :: u32)"
      using nm ucast_of_nat_u8_u32 [of "2 + length nm"] by (simp add: n_def)
    have "n < 2 ^ 32" using len by (simp add: n_def Some opt_enc_def)
    then have pos2: "unat (of_nat n :: u32) = n" by (simp add: unat_of_nat32)
    have rd2: "CreateMqttBinaryDataEntity (Some (buf, n)) = Inr (Some pw', of_nat (2 + length pw'))"
      using CreateMqttBinaryDataEntity_enc [OF pw'(2), of n "xs @ str_enc nm" "[]"] pw'(1)
      by (simp add: buf Some w opt_enc_def n_def del: CreateMqttBinaryDataEntity.simps)
    have "upd_obj r (setPwd pw') b1 = upd_obj r (set_auth u w) b"
      by (simp add: b1_def set_auth_def w Some upd_obj_def)
    then show ?thesis
      by (simp only: connect_auth_def flag if_False pos rd rbind.simps prod.case option.case Let_def
          b1_def [symmetric] np off pos2 rd2)
  qed
qed

section \<open>The whole packet\<close>

definition connect_setup :: "connect_packet \<Rightarrow> Client \<Rightarrow> Client" where
  "connect_setup p c = c\<lparr>mqtt_version := version (cp_vh p), alive := vh_alive (cp_vh p),
     flags := conn_flags (cp_vh p), conn_properties := cp_chain p\<rparr>"

definition connect_rest :: "connect_packet \<Rightarrow> Client \<Rightarrow> Client" where
  "connect_rest p c = set_auth (cp_user p) (cp_pwd p) (set_will (cp_will p) c)"

text \<open>The descriptor of a client that has the identifier.\<close>

definition id_owner :: "bytes \<Rightarrow> Broker \<Rightarrow> int option" where
  "id_owner nm b = map_option fst (find (\<lambda>e. client_id (objects b (the (snd e))) = nm) (clients b))"

lemma find_id_loop_find:
  assumes "\<forall>e\<in>set es. snd e \<noteq> None"
  shows "find_id_loop objs nm es =
    Inr (map_option fst (find (\<lambda>e. client_id (objs (the (snd e))) = nm) es))"
  using assms by (induction objs nm es rule: find_id_loop.induct) auto

lemma GetClientFd_owner:
  "broker_inv b \<Longrightarrow> GetClientFd nm b = Inr (case id_owner nm b of Some fd \<Rightarrow> fd | None \<Rightarrow> -1)"
  using find_id_loop_find [of "clients b" "objects b" nm]
  by (fastforce simp: GetClientFd_def id_owner_def broker_inv_def clients_inv_def)

text \<open>
  The parsed packet: the identifier is checked, then the will and the credentials are kept. A clean
  start takes an identifier over and closes the connection that had it.
\<close>

definition connected :: "(nat \<Rightarrow> nat) \<Rightarrow> connect_packet \<Rightarrow> nat \<Rightarrow> Broker \<Rightarrow> mqtt_err \<times> Broker" where
  "connected rnd p r b =
     (let b = upd_obj r (connect_setup p) b
      in if cp_id p = [] then
           (mqtt_ok, upd_obj r (\<lambda>c. connect_rest p (SetRandomID (SetID (GenRandom rnd 23) c))) b)
         else
           case id_owner (cp_id p) b of
             None \<Rightarrow> (mqtt_ok, upd_obj r (\<lambda>c. connect_rest p (SetID (cp_id p) c)) b)
           | Some fd \<Rightarrow>
               if conn_flags (cp_vh p) AND 0x2 \<noteq> 0 then
                 (mqtt_ok, upd_obj r (\<lambda>c. connect_rest p (SetID (cp_id p) c)) (CloseConnection fd b))
               else (duplicate_client_id, b))"

text \<open>The part of the packet behind the identifier.\<close>

lemma connect_tail:
  assumes ok: "connect_packet_ok p" and flags: "flags (objects b r) = conn_flags (cp_vh p)"
    and empty: "will_properties (objects b r) = []"
    and buf: "buf = xs @ will_enc (cp_will p) @ opt_enc (cp_user p) @ opt_enc (cp_pwd p)"
    and len: "length buf < 2 ^ 28"
  shows "rbind (connect_will r buf (of_nat (length xs)) b) (\<lambda>(err, offset, b).
      if err \<noteq> mqtt_ok then Inr (err, b) else connect_auth r buf offset b) =
    Inr (mqtt_ok, upd_obj r (connect_rest p) b)"
proof -
  define b1 where "b1 = upd_obj r (set_will (cp_will p)) b"
  have f1: "flags (objects b1 r) = conn_flags (cp_vh p)"
    using flags by (simp add: b1_def set_will_def split: option.splits)
  have w: "connect_will r buf (of_nat (length xs)) b =
      Inr (mqtt_ok, of_nat (length xs + length (will_enc (cp_will p))), b1)"
    unfolding b1_def
  proof (rule connect_will_enc [OF _ _ empty _ buf])
    show "isWillFlag (objects b r) \<longleftrightarrow> cp_will p \<noteq> None"
      using ok flags by (simp add: connect_packet_ok_def isWillFlag_def)
    show "length xs + length (will_enc (cp_will p)) < 2 ^ 32" using len by (simp add: buf)
  next
    fix ch nm m
    assume "cp_will p = Some (ch, nm, m)"
    then show "chain_readable ch \<and> length nm < 2 ^ 16 \<and> length m < 2 ^ 16"
      using ok by (simp add: connect_packet_ok_def)
  qed
  have "connect_auth r buf (of_nat (length (xs @ will_enc (cp_will p)))) b1 =
      Inr (mqtt_ok, upd_obj r (set_auth (cp_user p) (cp_pwd p)) b1)"
  proof (rule connect_auth_enc)
    show "isUserNameFlag (objects b1 r) \<longleftrightarrow> cp_user p \<noteq> None"
      using ok f1 by (simp add: connect_packet_ok_def isUserNameFlag_def)
    show "isUserNameFlag (objects b1 r) \<and> isPwdFlag (objects b1 r) \<longleftrightarrow> cp_pwd p \<noteq> None"
      using ok unfolding connect_packet_ok_def isUserNameFlag_def isPwdFlag_def f1 by blast
    show "length (xs @ will_enc (cp_will p)) + length (opt_enc (cp_user p)) < 2 ^ 32"
      using len by (simp add: buf)
  next
    show "buf = (xs @ will_enc (cp_will p)) @ opt_enc (cp_user p) @ opt_enc (cp_pwd p)"
      by (simp add: buf)
  qed (use ok in \<open>simp_all add: connect_packet_ok_def\<close>)
  then show ?thesis
    by (simp add: w b1_def upd_obj_upd_obj connect_rest_def [abs_def])
qed

text \<open>Whatever the identifier is: the members before it, the decision, the members behind it.\<close>

lemma HandleMqttConnect_parts:
  assumes ok: "connect_packet_ok p"
    and fresh: "conn_properties (objects b r) = []" "will_properties (objects b r) = []"
  shows "HandleMqttConnect rnd r (connect_body p) b =
    rbind (connect_id rnd r (if cp_id p = [] then None else Some (cp_id p)) (upd_obj r (connect_setup p) b))
      (\<lambda>(err, b'). if err \<noteq> mqtt_ok then Inr (err, b')
         else Inr (mqtt_ok, upd_obj r (connect_rest p) b'))"
proof -
  let ?vh = "vh_enc (Connect_vh (cp_vh p))" and ?ch = "chain_enc (cp_chain p)"
  let ?ip = "if cp_id p = [] then None else Some (cp_id p)"
  define buf where "buf = connect_body p"
  define b1 where "b1 = upd_obj r (connect_setup p) b"
  have len: "length buf < 2 ^ 28" using ok by (simp add: connect_packet_ok_def buf_def)
  have enc: "buf = ?vh @ ?ch @ str_enc (cp_id p) @ will_enc (cp_will p) @ opt_enc (cp_user p) @ opt_enc (cp_pwd p)"
    by (simp add: buf_def connect_body_def)
  have vl: "length ?vh = 10" using ok by (simp add: connect_packet_ok_def)
  have rd_vh: "ConnectVH_ReadFromBuf buf 0 0 = Inr (cp_vh p, 10)"
    using ConnectVH_ReadFromBuf_enc [of "cp_vh p" "[]" _ 0] ok
    by (simp add: enc connect_packet_ok_def del: vh_enc.simps)
  have ver: "(version (cp_vh p) \<noteq> MQTT_VERSION_5) = False" using ok by (simp add: connect_packet_ok_def)
  have rd_ch: "chain_Create [] buf 10 = Inr (mqtt_ok, of_nat (length ?ch), cp_chain p)"
    unfolding enc by (rule chain_Create_readable) (use ok vl in \<open>simp_all add: connect_packet_ok_def\<close>)
  define n where "n = 10 + length ?ch"
  have n: "n + 2 + length (cp_id p) \<le> length buf" using vl by (simp add: enc n_def)
  have pos: "unat (10 :: u32) = 10" "unat (of_nat n :: u32) = n"
      "(10 :: u32) + of_nat (length ?ch) = of_nat n"
    using len n unat_of_nat32 [of n] by (simp_all add: n_def)
  have id_len: "length (cp_id p) < 254" using ok by (simp add: connect_packet_ok_def)
  let ?len = "if cp_id p = [] then 0 else of_nat (2 + length (cp_id p)) :: u8"
  have rd_id: "CreateMqttStringEntity (Some (buf, n)) = Inr (?ip, ?len)"
    using CreateMqttStringEntity_enc [OF id_len, of n "?vh @ ?ch"] vl
    by (simp add: enc n_def del: CreateMqttStringEntity.simps vh_enc.simps)
  have off: "(if ?len \<noteq> 0 then of_nat n + ucast ?len else of_nat n + 2) =
      (of_nat (n + 2 + length (cp_id p)) :: u32)"
  proof (cases "cp_id p = []")
    case False
    have "unat (of_nat (2 + length (cp_id p)) :: u8) = 2 + length (cp_id p)"
      by (rule unat_of_nat8) (use id_len in simp)
    then have "(of_nat (2 + length (cp_id p)) :: u8) \<noteq> 0" by auto
    then show ?thesis
      using False id_len ucast_of_nat_u8_u32 [of "2 + length (cp_id p)"] by (simp add: algebra_simps)
  qed simp
  have b1: "upd_obj r (\<lambda>c. c\<lparr>conn_properties := cp_chain p\<rparr>)
      (upd_obj r (SetConnFlags (conn_flags (cp_vh p))) (upd_obj r (SetConnAlive (vh_alive (cp_vh p)))
        (upd_obj r (SetClientMQTTVersion (version (cp_vh p))) b))) = b1"
    by (simp add: b1_def upd_obj_def connect_setup_def SetConnFlags_def SetConnAlive_def
        SetClientMQTTVersion_def)
  have cp: "conn_properties (objects (upd_obj r (SetConnFlags (conn_flags (cp_vh p)))
      (upd_obj r (SetConnAlive (vh_alive (cp_vh p)))
        (upd_obj r (SetClientMQTTVersion (version (cp_vh p))) b))) r) = []"
    using fresh by (simp add: SetConnFlags_def SetConnAlive_def SetClientMQTTVersion_def)
  have run: "HandleMqttConnect rnd r buf b =
      rbind (connect_id rnd r ?ip b1) (\<lambda>(err, b).
        if err \<noteq> mqtt_ok then Inr (err, b)
        else rbind (connect_will r buf (of_nat (n + 2 + length (cp_id p))) b) (\<lambda>(err, offset, b).
          if err \<noteq> mqtt_ok then Inr (err, b) else connect_auth r buf offset b))"
    by (simp only: HandleMqttConnect_def rd_vh rbind.simps prod.case ver if_False Let_def cp pos rd_ch b1
        rd_id off simp_thms)
  have tail: "rbind (connect_will r buf (of_nat (n + 2 + length (cp_id p))) b') (\<lambda>(err, offset, b).
      if err \<noteq> mqtt_ok then Inr (err, b) else connect_auth r buf offset b) =
    Inr (mqtt_ok, upd_obj r (connect_rest p) b')"
    if "connect_id rnd r ?ip b1 = Inr (mqtt_ok, b')" for b'
  proof -
    have "flags (objects b' r) = conn_flags (cp_vh p) \<and> will_properties (objects b' r) = []"
      using that fresh
      by (auto simp: connect_id_def rbind_eq_Inr b1_def connect_setup_def SetID_def SetRandomID_def
          CloseConnection_def DelClient_def DelSubscribedClient_def Let_def
          split: option.splits if_splits)
    then show ?thesis
      using connect_tail [OF ok, of b' r buf "?vh @ ?ch @ str_enc (cp_id p)"] len vl
      by (simp add: enc n_def add.assoc del: vh_enc.simps)
  qed
  show ?thesis
  proof (cases "connect_id rnd r ?ip b1")
    case (Inr x)
    obtain err b' where x: "x = (err, b')" by (cases x)
    show ?thesis
    proof (cases "err = mqtt_ok")
      case True
      then show ?thesis using Inr x tail [of b'] run by (simp add: buf_def b1_def)
    next
      case False
      then show ?thesis using Inr x run by (simp add: buf_def b1_def)
    qed
  qed (use run in \<open>simp add: buf_def b1_def\<close>)
qed

lemma HandleMqttConnect_connected:
  assumes inv: "broker_inv b" and ok: "connect_packet_ok p"
    and fresh: "conn_properties (objects b r) = []" "will_properties (objects b r) = []"
    and fds: "\<forall>e\<in>set (clients b). fst e \<noteq> -1"
  shows "HandleMqttConnect rnd r (connect_body p) b = Inr (connected rnd p r b)"
proof -
  define b1 where "b1 = upd_obj r (connect_setup p) b"
  have inv1: "broker_inv b1"
    using inv unfolding b1_def by (rule upd_obj_inv)
      (use ok in \<open>simp add: connect_setup_def client_inv_def connect_packet_ok_def chain_readable_def\<close>)
  have "fd \<noteq> -1" if "id_owner (cp_id p) b1 = Some fd" for fd
  proof -
    from that obtain e where "e \<in> set (clients b)" "fst e = fd"
      by (auto simp: id_owner_def b1_def upd_obj_def find_Some_iff) (metis nth_mem fst_conv)
    with fds show ?thesis by auto
  qed
  moreover have "isCleanFlag (objects b1 r) \<longleftrightarrow> conn_flags (cp_vh p) AND 0x2 \<noteq> 0"
    by (simp add: b1_def connect_setup_def isCleanFlag_def)
  ultimately show ?thesis
    using GetClientFd_owner [OF inv1, of "cp_id p"]
    by (simp add: HandleMqttConnect_parts [OF ok fresh] connected_def b1_def [symmetric] connect_id_def
        upd_obj_upd_obj split: option.split)
qed

section \<open>The answer\<close>

text \<open>The CONNACK of an accepted connection, byte by byte when the identifier came from the client.\<close>

definition connack_body :: "Client \<Rightarrow> bytes" where
  "connack_body c = vh_enc (Connact_vh (new_ConnactVH (if isCleanFlag c then 0 else 1) (rc success)
     (connack_chain c)))"

lemma connack_chain_cases:
  "connack_chain c =
    (if isRandomID c then [new_MqttProperty (pid assigned_client_identifier) (MqttStringEntity (client_id c))]
     else []) @
    [new_MqttProperty (pid retain_available) (MqttByteEntity 1),
     new_MqttProperty (pid maximum_packet_size) (MqttFourByteEntity 65535),
     new_MqttProperty (pid wildcard_subscription_available) (MqttByteEntity 1),
     new_MqttProperty (pid shared_subscription_available) (MqttByteEntity 0)]"
  by (simp add: connack_chain_def withSharedSubAvailable_def withWildCard_def withMaxPocketSize_def
      withRetainAvailable_def withClientIdentifier_def AddProperty_def new_MqttProperty_def Let_def)

lemma connack_body_bytes:
  "\<not> isRandomID c \<Longrightarrow> connack_body c =
    [if isCleanFlag c then 0 else 1, 0, 11, 0x25, 1, 0x27, 0, 0, 0xFF, 0xFF, 0x28, 1, 0x2A, 0]"
  by (simp add: connack_body_def connack_chain_cases new_ConnactVH_def chain_enc_def chain_body_def
      prop_enc_def new_MqttProperty_def vint_small be32_def)

lemma connack_ok:
  assumes "length (client_id c) < 2 ^ 15"
  shows "vh_ok (Connact_vh (new_ConnactVH f (rc success) (connack_chain c)))"
    and "length (connack_body c) + 6 < 2 ^ 32"
proof -
  have body: "length (chain_body (connack_chain c)) < 2 ^ 15 + 20"
    using assms by (simp add: connack_chain_cases chain_body_def prop_enc_def new_MqttProperty_def)
  have "length (vint (length (chain_body (connack_chain c)))) \<le> Suc 2"
    using body by (intro length_vint_le) simp
  with body show "vh_ok (Connact_vh (new_ConnactVH f (rc success) (connack_chain c)))"
    and "length (connack_body c) + 6 < 2 ^ 32"
    by (simp_all add: vh_ok_def chain_ok_def new_ConnactVH_def connack_body_def chain_enc_def)
qed

lemma Connect_connected:
  assumes inv: "broker_inv b" and mem: "(fd, Some r) \<in> set (clients b)" and ok: "connect_packet_ok p"
    and fresh: "conn_properties (objects b r) = []" "will_properties (objects b r) = []"
    and fds: "\<forall>e\<in>set (clients b). fst e \<noteq> -1"
  shows "MqttConnectPacketHandler rnd fh (connect_body p) fd b =
    (case connected rnd p r b of (err, b') \<Rightarrow>
       Inr (err, if err \<noteq> mqtt_ok then b'
         else b'\<lparr>commands := commands b' @
           [packet_cmd fd (packet_type_byte CONNACK) (connack_body (objects b' r))]\<rparr>))"
proof -
  have at: "clients_at fd b = (Some r, b)"
    using inv mem by (intro clients_at_present) (simp_all add: broker_inv_def)
  obtain err b' where con: "connected rnd p r b = (err, b')" by (cases "connected rnd p r b")
  note run = HandleMqttConnect_connected [OF inv ok fresh fds, of rnd, unfolded con]
  show ?thesis
  proof (cases "err = mqtt_ok")
    case True
    let ?c = "objects b' r"
    have "length (client_id ?c) < 254"
      using con True ok GenRandom_alphanum [of rnd 23]
      by (auto simp: connected_def connect_packet_ok_def connect_rest_def set_auth_def set_will_def Let_def
          SetID_def SetRandomID_def setUserName_def setPwd_def split: if_splits option.splits)
    then have len: "length (client_id ?c) < 2 ^ 15" by simp
    have "reply fd (packet_type_byte CONNACK) (Connact_vh (new_ConnactVH (if isCleanFlag ?c then 0 else 1)
        (rc success) (connack_chain ?c))) b' =
      Inr (b'\<lparr>commands := commands b' @ [packet_cmd fd (packet_type_byte CONNACK) (connack_body ?c)]\<rparr>)"
      unfolding connack_body_def
      by (rule reply_packet) (use connack_ok [OF len] in \<open>simp_all only: connack_body_def vh_exact.simps\<close>)
    then show ?thesis
      by (simp only: MqttConnectPacketHandler_def at run con True Let_def prod.case option.case rbind.simps
          simp_thms if_False)
  next
    case False
    then show ?thesis by (simp add: MqttConnectPacketHandler_def at run con)
  qed
qed

end
