(* ===== verification/Serving.thy ===== *)
theory Serving
  imports Connecting
begin

text \<open>
  A pass of the server thread over a descriptor with a whole packet to read, and what follows from
  it: a refused version, a ping, a timeout, the takeover of a client identifier.
\<close>

section \<open>Reading a packet\<close>

text \<open>The bytes of a packet whose body \<open>ReadData\<close> gets in full.\<close>

definition arrives :: "env \<Rightarrow> int \<Rightarrow> u8 \<Rightarrow> bytes \<Rightarrow> bool" where
  "arrives e fd t body \<longleftrightarrow> length body < 2 ^ 28 \<and>
     (\<exists>rest. hdr_in e fd = t # vint (length body) @ rest) \<and>
     ReadData (body_in e fd) fd (int (length body)) = (int (length body), body)"

definition header :: "u8 \<Rightarrow> bytes \<Rightarrow> FixedHeader" where
  "header t body = \<lparr>first = t, remaining_len = of_nat (length body)\<rparr>"

lemma packet_enc_vint:
  "length body < 2 ^ 28 \<Longrightarrow> packet_enc t body = t # vint (length body) @ body"
  using unat_of_nat32 [of "length body"] by (simp add: packet_enc_def fixed_enc_def)

lemma ReadFixedHeader_arrives:
  assumes "arrives e fd t body"
  shows "\<exists>rest. ReadFixedHeader (hdr_in e fd) h = (broker_ok, header t body, rest)"
proof -
  have len: "length body < 128 ^ 4" using assms by (simp add: arrives_def)
  obtain zs where inp: "hdr_in e fd = t # vint (length body) @ zs"
    using assms by (auto simp: arrives_def)
  have "DeCodeVarInt ([] @ vint (length body) @ zs) (length ([] :: bytes)) =
      Inr (Inr (of_nat (length body), of_nat (length (vint (length body)))))"
    using len by (intro DeCodeVarInt_vint)
  then show ?thesis
    by (simp add: inp ReadFixedHeader_def ReadVariableInt_DeCodeVarInt header_def)
qed

lemma serve_data_arrives:
  assumes inv: "broker_inv b" and mem: "(fd, Some r) \<in> set (clients b)" and pkt: "arrives e fd t body"
  shows "serve_data e fd b =
    rbind (HandlePacket (rand_vals e) (header t body) body fd (upd_obj r (SetPacketLastTime (cur_time e)) b))
      (\<lambda>(handle_stat, b). if handle_stat \<noteq> mqtt_ok
         then rbind (HandleError handle_stat fd b) (\<lambda>b. Inr (True, b)) else Inr (False, b))"
proof -
  have at: "clients_at fd b = (Some r, b)"
    using inv mem by (intro clients_at_present) (simp_all add: broker_inv_def)
  obtain rest where hdr: "ReadFixedHeader (hdr_in e fd) (new_FixedHeader 0) = (broker_ok, header t body, rest)"
    using ReadFixedHeader_arrives [OF pkt] by blast
  have n: "int (unat (remaining_len (header t body))) = int (length body)"
    using pkt unat_of_nat32 [of "length body"] by (simp add: header_def arrives_def)
  have rd: "ReadData (body_in e fd) fd (int (length body)) = (int (length body), body)"
    using pkt by (simp add: arrives_def)
  show ?thesis
    by (simp only: serve_data_def at Let_def prod.case deref.simps rbind.simps hdr n rd simp_thms
        if_True if_False)
qed

section \<open>Dispatch\<close>

lemma GetType_header [simp]: "GetType (header t body) = drop_bit 4 t"
  by (simp add: GetType_def header_def)

lemma HandlePacket_type:
  assumes "drop_bit 4 t = pack_code (handler_type h)"
  shows "HandlePacket rnd (header t body) dat fd b = run_handler h rnd (header t body) dat fd b"
  using assms by (cases h) (simp_all add: HandlePacket_def packet_handlers_def)

text \<open>Packet types no handler serves are an error of their own.\<close>

lemma HandlePacket_other:
  assumes "drop_bit 4 t \<notin> pack_code ` handler_type ` UNIV"
  shows "HandlePacket rnd (header t body) dat fd b = Inr (handle_error, b)"
proof -
  have "drop_bit 4 t \<noteq> pack_code (handler_type h)" for h using assms by blast
  then show ?thesis by (simp add: HandlePacket_def packet_handlers_def del: handler_type.simps)
qed

section \<open>Refusals\<close>

lemma refuse_bytes:
  "refuse c fd b = Inr (b\<lparr>direct := direct b @ [(fd, [0x20, 3, 0, rc c, 0])]\<rparr>)"
proof -
  let ?v = "Connact_vh (new_ConnactVH 0 (rc c) [])"
  have enc: "vh_enc ?v = [0, rc c, 0]" by (simp add: new_ConnactVH_def chain_enc_Nil)
  have pkt: "packet_enc (packet_type_byte CONNACK) [0, rc c, 0] = [0x20, 3, 0, rc c, 0]"
    by (simp add: packet_enc_vint vint_small packet_type_byte_def Build_def PacketType_def FHBuilder_def
        new_FixedHeader_def)
  have "CreateMqttPacket_vh (packet_type_byte CONNACK) ?v =
      Inr (packet_enc (packet_type_byte CONNACK) (vh_enc ?v),
        of_nat (length (packet_enc (packet_type_byte CONNACK) (vh_enc ?v))))"
    by (rule CreateMqttPacket_vh_exact) (simp_all add: vh_ok_def new_ConnactVH_def chain_enc_Nil)
  then show ?thesis by (simp add: refuse_def enc pkt del: vh_enc.simps)
qed

lemma Ping_answer:
  assumes inv: "broker_inv b" and mem: "(fd, Some r) \<in> set (clients b)"
  shows "MqttPingPacketHandler fh dat fd b =
    Inr (mqtt_ok, b\<lparr>commands := commands b @ [new_FdWriteCommand fd (2, Some [0xD0, 0])]\<rparr>)"
proof -
  have at: "clients_at fd b = (Some r, b)"
    using inv mem by (intro clients_at_present) (simp_all add: broker_inv_def)
  show ?thesis
    by (simp add: MqttPingPacketHandler_def at CreateMqttPacket_empty enqueue_def AddCommand_def
        packet_enc_vint vint_small packet_type_byte_def Build_def PacketType_def FHBuilder_def
        new_FixedHeader_def)
qed

lemma Connect_version:
  assumes inv: "broker_inv b" and mem: "(fd, Some r) \<in> set (clients b)"
    and v: "length (vh_name v) = 4" "version v \<noteq> MQTT_VERSION_5"
  shows "MqttConnectPacketHandler rnd fh (vh_enc (Connect_vh v) @ rest) fd b = Inr (protocol_version_err, b)"
proof -
  have at: "clients_at fd b = (Some r, b)"
    using inv mem by (intro clients_at_present) (simp_all add: broker_inv_def)
  have "ConnectVH_ReadFromBuf (vh_enc (Connect_vh v) @ rest) 0 0 = Inr (v, 10)"
    using ConnectVH_ReadFromBuf_enc [OF v(1), of "[]" rest 0] by (simp del: vh_enc.simps)
  then show ?thesis
    using v by (simp add: MqttConnectPacketHandler_def at HandleMqttConnect_def del: vh_enc.simps)
qed

section \<open>Taking an identifier over\<close>

text \<open>
  The connection that had the identifier is closed in the middle of a pass, and its descriptor stays
  in the poll set: the next pass looks it up, inserts a null pointer for it and dereferences it.
\<close>

lemma connected_takeover:
  assumes own: "id_owner (cp_id p) (upd_obj r (connect_setup p) b) = Some fd'"
    and p: "cp_id p \<noteq> []" "conn_flags (cp_vh p) AND 0x2 \<noteq> 0"
  shows "\<exists>b'. connected rnd p r b = (mqtt_ok, b') \<and> clients b' = kv_erase fst fd' (clients b) \<and>
    control_sock b' = control_sock b"
proof -
  have "connected rnd p r b = (mqtt_ok, upd_obj r (\<lambda>c. connect_rest p (SetID (cp_id p) c))
      (CloseConnection fd' (upd_obj r (connect_setup p) b)))"
    using own p by (simp add: connected_def)
  then show ?thesis
    by (simp add: upd_obj_def CloseConnection_def DelClient_def DelSubscribedClient_def Let_def)
qed

lemma length_kv_erase:
  assumes "distinct (map key es)" and "k \<in> key ` set es"
  shows "Suc (length (kv_erase key k es)) = length es"
  using assms
proof (induction es)
  case (Cons e es)
  show ?case
  proof (cases "key e = k")
    case True
    then have "kv_erase key k es = es"
      using Cons.prems(1) unfolding kv_erase_def by (intro filter_True) (auto simp: image_iff)
    with True show ?thesis by simp
  qed (use Cons in auto)
qed simp

lemma takeover_faults:
  assumes inv: "broker_inv b" and mem: "(fd, Some r) \<in> set (clients b)" and ok: "connect_packet_ok p"
    and fresh: "conn_properties (objects b r) = []" "will_properties (objects b r) = []"
    and p: "cp_id p \<noteq> []" "conn_flags (cp_vh p) AND 0x2 \<noteq> 0"
    and own: "id_owner (cp_id p) (upd_obj r (connect_setup p) b) = Some fd'"
    and fds: "\<forall>e\<in>set (clients b). fst e \<noteq> -1 \<and> fst e \<noteq> control_sock b" and few: "length (clients b) < 2 ^ 31"
    and v: "map fst v = map fst (clients b) @ [control_sock b]"
  shows "\<exists>b'. MqttConnectPacketHandler rnd fh (connect_body p) fd b = Inr (mqtt_ok, b') \<and>
    fd' \<in> set (closed b') \<and> (\<forall>e. \<exists>f. wait_step e v b' = Inl f)"
proof -
  obtain b1 where con: "connected rnd p r b = (mqtt_ok, b1)"
    and b1: "clients b1 = kv_erase fst fd' (clients b)" "control_sock b1 = control_sock b"
    using connected_takeover [OF own p] by blast
  define b' where "b' = b1\<lparr>commands := commands b1 @
      [packet_cmd fd (packet_type_byte CONNACK) (connack_body (objects b1 r))]\<rparr>"
  have run: "MqttConnectPacketHandler rnd fh (connect_body p) fd b = Inr (mqtt_ok, b')"
    using fds con by (simp add: Connect_connected [OF inv mem ok fresh] b'_def)
  have at: "clients_at fd b = (Some r, b)"
    using inv mem by (intro clients_at_present) (simp_all add: broker_inv_def)
  have inv': "broker_inv b'"
    using Connect_evolves [OF run inv at] by (rule evolves_inv)
  have cl: "clients b' = kv_erase fst fd' (clients b)" "control_sock b' = control_sock b"
    using b1 by (simp_all add: b'_def)
  have fd': "fd' \<in> fst ` set (clients b)"
    using own by (auto simp: id_owner_def upd_obj_def find_Some_iff) (metis nth_mem image_eqI fst_conv)
  have dist: "distinct (map fst (clients b))" using inv by (simp add: broker_inv_def clients_inv_def un_ok_def)
  have one: "length (map fst (clients b)) = Suc (length (clients b'))"
    using length_kv_erase [OF dist fd'] cl by simp
  have stale: "\<exists>f. wait_step e v b' = Inl f" for e
  proof (rule wait_step_stale [OF inv' _ _ _ one])
    show "length (clients b') < 2 ^ 31" using one few by simp
    show "map fst v = map fst (clients b) @ [control_sock b']" using v cl by simp
    show "control_sock b' \<notin> set (map fst (clients b))" using fds cl by auto
    show "fd' \<in> set (map fst (clients b))" using fd' by simp
    show "fd' \<notin> fst ` set (clients b')" using cl by auto
  qed
  have "closed b' = closed b @ [fd']"
    using con own p by (auto simp: b'_def connected_def upd_obj_def CloseConnection_def DelClient_def
        DelSubscribedClient_def Let_def split: if_splits)
  then show ?thesis using run stale by auto
qed

section \<open>Timeouts\<close>

text \<open>A client is left alone until its keep-alive time and five seconds have passed without a packet.\<close>

lemma serve_quiet_in_time:
  assumes inv: "broker_inv b" and mem: "(fd, Some r) \<in> set (clients b)"
    and "cur_time e < time_last_packet (objects b r) + int (unat (alive (objects b r))) + 5"
  shows "serve_quiet e fd b = Inr (False, b)"
proof -
  have at: "clients_at fd b = (Some r, b)"
    using inv mem by (intro clients_at_present) (simp_all add: broker_inv_def)
  show ?thesis using assms(3) by (simp add: serve_quiet_def at timed_out_def)
qed

text \<open>After that a DISCONNECT is queued, the will is published and the descriptor is given up.\<close>

definition disconnect_cmd :: "int \<Rightarrow> FdWriteCommand" where
  "disconnect_cmd fd = new_FdWriteCommand fd (4, Some [0xE0, 2, rc keep_alive_timeout, 0])"

lemma reply_timeout:
  "reply fd (packet_type_byte DISCONNECT) (Disconnect_vh (new_DisconnectVH (rc keep_alive_timeout) [])) b =
    Inr (b\<lparr>commands := commands b @ [disconnect_cmd fd]\<rparr>)"
proof -
  let ?v = "Disconnect_vh (new_DisconnectVH (rc keep_alive_timeout) [])"
  have "reply fd (packet_type_byte DISCONNECT) ?v b =
      Inr (b\<lparr>commands := commands b @ [packet_cmd fd (packet_type_byte DISCONNECT) (vh_enc ?v)]\<rparr>)"
    by (rule reply_packet) (simp_all add: vh_ok_def new_DisconnectVH_def chain_enc_Nil)
  also have "packet_cmd fd (packet_type_byte DISCONNECT) (vh_enc ?v) = disconnect_cmd fd"
    by (simp add: packet_cmd_def disconnect_cmd_def new_DisconnectVH_def chain_enc_Nil packet_enc_vint
        vint_small packet_type_byte_def Build_def PacketType_def FHBuilder_def new_FixedHeader_def)
  finally show ?thesis .
qed

definition will_published :: "nat \<Rightarrow> Broker \<Rightarrow> Broker \<Rightarrow> bool" where
  "will_published r b b' \<longleftrightarrow>
     (if isWillFlag (objects b r) then
        (let w = will_topic (objects b r)
         in \<exists>t. t_name t = t_name w \<and> t_data t = t_data w \<and>
           b' = upd_obj r (\<lambda>c. c\<lparr>will_topic := t\<rparr>) (delivered (t_name w) (the (t_data w)) b))
      else b' = b)"

definition will_ready :: "nat \<Rightarrow> Broker \<Rightarrow> bool" where
  "will_ready r b \<longleftrightarrow> (isWillFlag (objects b r) \<longrightarrow>
     (let t = will_topic (objects b r) in all_ready (t_name t) b \<and> sendable t))"

lemma notify_will_published:
  assumes inv: "broker_inv b" and will: "will_ready r b"
  shows "\<exists>b'. notify_will r b = Inr b' \<and> will_published r b b'"
proof (cases "isWillFlag (objects b r)")
  case True
  let ?t = "will_topic (objects b r)"
  obtain m where m: "t_data ?t = Some m" "length m < 2 ^ 16" "length (t_name ?t) < 2 ^ 16"
    and rdy: "all_ready (t_name ?t) b"
    using True will by (auto simp: will_ready_def sendable_def Let_def)
  obtain t' where "NotifyClients ?t b = Inr (t', delivered (t_name ?t) m b)"
    using NotifyClients_delivered [OF inv rdy m(1) m(3) m(2)] by blast
  then show ?thesis using True m(1) NotifyClients_topic [of ?t b t']
    by (auto simp: notify_will_def will_published_def Let_def)
qed (simp add: notify_will_def will_published_def)

lemma serve_quiet_timeout:
  assumes inv: "broker_inv b" and mem: "(fd, Some r) \<in> set (clients b)"
    and late: "time_last_packet (objects b r) + int (unat (alive (objects b r))) + 5 \<le> cur_time e"
    and will: "will_ready r b"
  shows "\<exists>b'. serve_quiet e fd b = Inr (True, b') \<and>
    will_published r (b\<lparr>commands := commands b @ [disconnect_cmd fd]\<rparr>) b'"
proof -
  have at: "clients_at fd b = (Some r, b)"
    using inv mem by (intro clients_at_present) (simp_all add: broker_inv_def)
  let ?b = "b\<lparr>commands := commands b @ [disconnect_cmd fd]\<rparr>"
  have "will_ready r ?b" using will by (simp add: will_ready_def all_ready_def)
  then obtain b' where "notify_will r ?b = Inr b'" "will_published r ?b b'"
    using notify_will_published [OF add_command_inv [OF inv]] by blast
  moreover have "timed_out (cur_time e) (objects b r)" using late by (simp add: timed_out_def)
  ultimately show ?thesis by (simp add: serve_quiet_def at reply_timeout del: rc.simps)
qed

end
