(* ===== verification/Entity_Objects.thy ===== *)
theory Entity_Objects
  imports Property_Chain
begin

text \<open>
  The objects behind the values of \<open>Entities\<close>: every entity class holds a shared pointer to
  its data, and its constructors and assignments copy the data or move the pointer. Here the
  pointers are explicit. A memory has cells that hold data and named objects that hold a pointer;
  an operation names the objects it reads and writes, which may be the same one.
\<close>

section \<open>Memory\<close>

datatype payload =
    P_u8 u8 | P_u16 u16 | P_u32 u32 | P_string bytes | P_block bytes | P_pair bytes bytes

text \<open>\<open>e_size\<close> is the member \<open>size\<close> of the binary data class.\<close>

record entity =
  e_type :: mqtt_data_type
  e_data :: "nat option"
  e_size :: u16

record memory =
  cells :: "payload list"
  ents :: "nat \<Rightarrow> entity"

definition set_ent :: "nat \<Rightarrow> entity \<Rightarrow> memory \<Rightarrow> memory" where
  "set_ent d e m = m\<lparr>ents := (ents m)(d := e)\<rparr>"

text \<open>\<open>make_shared\<close>: a new cell, and the object points to it.\<close>

definition make_shared :: "nat \<Rightarrow> payload \<Rightarrow> memory \<Rightarrow> memory" where
  "make_shared d p m =
     set_ent d ((ents m d)\<lparr>e_data := Some (length (cells m))\<rparr>) (m\<lparr>cells := cells m @ [p]\<rparr>)"

definition reset :: "nat \<Rightarrow> memory \<Rightarrow> memory" where
  "reset d m = set_ent d ((ents m d)\<lparr>e_data := None\<rparr>) m"

definition set_type :: "nat \<Rightarrow> mqtt_data_type \<Rightarrow> memory \<Rightarrow> memory" where
  "set_type d t m = set_ent d ((ents m d)\<lparr>e_type := t\<rparr>) m"

text \<open>\<open>*data\<close>: a null pointer faults.\<close>

definition load :: "nat \<Rightarrow> memory \<Rightarrow> payload res" where
  "load s m = rbind (deref (e_data (ents m s)))
     (\<lambda>a. if a < length (cells m) then Inr (cells m ! a) else Inl NullDeref)"

fun uint_of :: "payload \<Rightarrow> u32" where
  "uint_of (P_u8 v) = ucast v"
| "uint_of (P_u16 v) = ucast v"
| "uint_of (P_u32 v) = v"
| "uint_of _ = 0"

fun string_of :: "payload \<Rightarrow> bytes" where
  "string_of (P_string s) = s"
| "string_of _ = []"

fun strings_of :: "payload \<Rightarrow> bytes \<times> bytes" where
  "strings_of (P_pair s t) = (s, t)"
| "strings_of _ = ([], [])"

fun block_of :: "payload \<Rightarrow> bytes" where
  "block_of (P_block d) = d"
| "block_of _ = []"

section \<open>The shapes the classes share\<close>

text \<open>A value constructor sets the type and allocates; the object had no data before.\<close>

definition construct :: "mqtt_data_type \<Rightarrow> payload \<Rightarrow> nat \<Rightarrow> memory \<Rightarrow> memory" where
  "construct t p d m = make_shared d p (set_type d t m)"

text \<open>Copy construction: new data made from what the accessor of the source gives, and its type.\<close>

definition copy_ent :: "(payload \<Rightarrow> payload) \<Rightarrow> nat \<Rightarrow> nat \<Rightarrow> memory \<Rightarrow> memory res" where
  "copy_ent f d s m = rbind (load s m) (\<lambda>p.
     Inr (set_type d (e_type (ents m s)) (make_shared d (f p) m)))"

text \<open>Move construction: the pointer and the type; the source is left with a null pointer.\<close>

definition move_ent :: "nat \<Rightarrow> nat \<Rightarrow> memory \<Rightarrow> memory" where
  "move_ent d s m =
     (let m = set_ent d ((ents m d)\<lparr>e_data := e_data (ents m s), e_type := e_type (ents m s)\<rparr>) m
      in reset s m)"

text \<open>The assignments let their own data go first.\<close>

definition assign_ent :: "(payload \<Rightarrow> payload) \<Rightarrow> nat \<Rightarrow> nat \<Rightarrow> memory \<Rightarrow> memory res" where
  "assign_ent f d s m =
     (let m = reset d m in rbind (load s m) (\<lambda>p. Inr (make_shared d (f p) m)))"

definition move_assign_ent :: "nat \<Rightarrow> nat \<Rightarrow> memory \<Rightarrow> memory" where
  "move_assign_ent d s m =
     (let m = reset d m;
          m = set_ent d ((ents m d)\<lparr>e_data := e_data (ents m s)\<rparr>) m
      in reset s m)"

section \<open>The classes\<close>

definition MqttByteEntity_value :: "u8 \<Rightarrow> nat \<Rightarrow> memory \<Rightarrow> memory" where
  "MqttByteEntity_value v = construct byte (P_u8 v)"

definition MqttByteEntity_copy :: "nat \<Rightarrow> nat \<Rightarrow> memory \<Rightarrow> memory res" where
  "MqttByteEntity_copy = copy_ent (\<lambda>p. P_u8 (ucast (uint_of p)))"

definition MqttByteEntity_move :: "nat \<Rightarrow> nat \<Rightarrow> memory \<Rightarrow> memory" where
  "MqttByteEntity_move = move_ent"

definition MqttByteEntity_assign :: "nat \<Rightarrow> nat \<Rightarrow> memory \<Rightarrow> memory res" where
  "MqttByteEntity_assign = assign_ent (\<lambda>p. P_u8 (ucast (uint_of p)))"

definition MqttByteEntity_move_assign :: "nat \<Rightarrow> nat \<Rightarrow> memory \<Rightarrow> memory" where
  "MqttByteEntity_move_assign = move_assign_ent"

definition MqttTwoByteEntity_value :: "u16 \<Rightarrow> nat \<Rightarrow> memory \<Rightarrow> memory" where
  "MqttTwoByteEntity_value v = construct two_byte (P_u16 v)"

definition MqttTwoByteEntity_copy :: "nat \<Rightarrow> nat \<Rightarrow> memory \<Rightarrow> memory res" where
  "MqttTwoByteEntity_copy = copy_ent (\<lambda>p. P_u16 (ucast (uint_of p)))"

definition MqttTwoByteEntity_move :: "nat \<Rightarrow> nat \<Rightarrow> memory \<Rightarrow> memory" where
  "MqttTwoByteEntity_move = move_ent"

definition MqttTwoByteEntity_assign :: "nat \<Rightarrow> nat \<Rightarrow> memory \<Rightarrow> memory res" where
  "MqttTwoByteEntity_assign = assign_ent (\<lambda>p. P_u16 (ucast (uint_of p)))"

definition MqttTwoByteEntity_move_assign :: "nat \<Rightarrow> nat \<Rightarrow> memory \<Rightarrow> memory" where
  "MqttTwoByteEntity_move_assign = move_assign_ent"

definition MqttFourByteEntity_value :: "u32 \<Rightarrow> nat \<Rightarrow> memory \<Rightarrow> memory" where
  "MqttFourByteEntity_value v = construct four_byte (P_u32 v)"

definition MqttFourByteEntity_copy :: "nat \<Rightarrow> nat \<Rightarrow> memory \<Rightarrow> memory res" where
  "MqttFourByteEntity_copy = copy_ent (\<lambda>p. P_u32 (uint_of p))"

definition MqttFourByteEntity_move :: "nat \<Rightarrow> nat \<Rightarrow> memory \<Rightarrow> memory" where
  "MqttFourByteEntity_move = move_ent"

definition MqttFourByteEntity_assign :: "nat \<Rightarrow> nat \<Rightarrow> memory \<Rightarrow> memory res" where
  "MqttFourByteEntity_assign = assign_ent (\<lambda>p. P_u32 (uint_of p))"

definition MqttFourByteEntity_move_assign :: "nat \<Rightarrow> nat \<Rightarrow> memory \<Rightarrow> memory" where
  "MqttFourByteEntity_move_assign = move_assign_ent"

definition MqttStringEntity_value :: "bytes \<Rightarrow> nat \<Rightarrow> memory \<Rightarrow> memory" where
  "MqttStringEntity_value s = construct mqtt_string (P_string s)"

definition MqttStringEntity_copy :: "nat \<Rightarrow> nat \<Rightarrow> memory \<Rightarrow> memory res" where
  "MqttStringEntity_copy = copy_ent (\<lambda>p. P_string (string_of p))"

definition MqttStringEntity_move :: "nat \<Rightarrow> nat \<Rightarrow> memory \<Rightarrow> memory" where
  "MqttStringEntity_move = move_ent"

definition MqttStringEntity_assign :: "nat \<Rightarrow> nat \<Rightarrow> memory \<Rightarrow> memory res" where
  "MqttStringEntity_assign = assign_ent (\<lambda>p. P_string (string_of p))"

definition MqttStringEntity_move_assign :: "nat \<Rightarrow> nat \<Rightarrow> memory \<Rightarrow> memory" where
  "MqttStringEntity_move_assign = move_assign_ent"

definition MqttStringEntity_assign_string :: "bytes \<Rightarrow> nat \<Rightarrow> memory \<Rightarrow> memory" where
  "MqttStringEntity_assign_string s d m = make_shared d (P_string s) (reset d m)"

definition MqttStringPairEntity_value :: "bytes \<Rightarrow> bytes \<Rightarrow> nat \<Rightarrow> memory \<Rightarrow> memory" where
  "MqttStringPairEntity_value s t = construct mqtt_string_pair (P_pair s t)"

definition MqttStringPairEntity_copy :: "nat \<Rightarrow> nat \<Rightarrow> memory \<Rightarrow> memory res" where
  "MqttStringPairEntity_copy = copy_ent (\<lambda>p. let (s, t) = strings_of p in P_pair s t)"

definition MqttStringPairEntity_move :: "nat \<Rightarrow> nat \<Rightarrow> memory \<Rightarrow> memory" where
  "MqttStringPairEntity_move = move_ent"

definition MqttStringPairEntity_assign :: "nat \<Rightarrow> nat \<Rightarrow> memory \<Rightarrow> memory res" where
  "MqttStringPairEntity_assign = assign_ent (\<lambda>p. let (s, t) = strings_of p in P_pair s t)"

definition MqttStringPairEntity_move_assign :: "nat \<Rightarrow> nat \<Rightarrow> memory \<Rightarrow> memory" where
  "MqttStringPairEntity_move_assign = move_assign_ent"

definition MqttVIntEntity_value :: "u32 \<Rightarrow> nat \<Rightarrow> memory \<Rightarrow> memory" where
  "MqttVIntEntity_value v = construct variable_int (P_u32 v)"

text \<open>
  Binary data keeps its size beside the pointer, and copies a block with \<open>memcpy\<close>: a null source
  faults unless nothing is copied. \<open>junk\<close> stands for what a block holds before it is written.
\<close>

definition set_size :: "nat \<Rightarrow> u16 \<Rightarrow> memory \<Rightarrow> memory" where
  "set_size d n m = set_ent d ((ents m d)\<lparr>e_size := n\<rparr>) m"

definition memcpy_block :: "nat \<Rightarrow> u16 \<Rightarrow> memory \<Rightarrow> bytes res" where
  "memcpy_block s n m = (if n = 0 then Inr []
     else rbind (load s m) (\<lambda>p. rd_block (block_of p) 0 (unat n)))"

definition MqttBinaryDataEntity_value :: "u16 \<Rightarrow> bytes \<Rightarrow> nat \<Rightarrow> nat \<Rightarrow> memory \<Rightarrow> memory res" where
  "MqttBinaryDataEntity_value len buf p d m =
     rbind (rd_block buf p (unat len)) (\<lambda>bs.
     Inr (make_shared d (P_block bs) (set_type d binary_data (set_size d len m))))"

definition MqttBinaryDataEntity_copy :: "nat \<Rightarrow> nat \<Rightarrow> memory \<Rightarrow> memory res" where
  "MqttBinaryDataEntity_copy d s m =
     (let n = e_size (ents m s); t = e_type (ents m s)
      in rbind (memcpy_block s n m) (\<lambda>bs.
         Inr (set_type d t (make_shared d (P_block bs) (set_size d n m)))))"

definition MqttBinaryDataEntity_move :: "nat \<Rightarrow> nat \<Rightarrow> memory \<Rightarrow> memory" where
  "MqttBinaryDataEntity_move d s m =
     (let m = set_ent d ((ents m d)\<lparr>e_data := e_data (ents m s), e_type := e_type (ents m s),
                e_size := e_size (ents m s)\<rparr>) m
      in reset s (set_size s 0 m))"

definition MqttBinaryDataEntity_assign :: "(nat \<Rightarrow> u8) \<Rightarrow> nat \<Rightarrow> nat \<Rightarrow> memory \<Rightarrow> memory res" where
  "MqttBinaryDataEntity_assign junk d s m =
     (let m = reset d m;
          m = set_size d (e_size (ents m s)) m;
          n = e_size (ents m d);
          m = make_shared d (P_block (map junk [0..<unat n])) m
      in rbind (memcpy_block s n m) (\<lambda>bs.
         Inr (set_type d (e_type (ents m s))
               (m\<lparr>cells := (cells m)[the (e_data (ents m d)) := P_block bs]\<rparr>))))"

definition MqttBinaryDataEntity_move_assign :: "nat \<Rightarrow> nat \<Rightarrow> memory \<Rightarrow> memory" where
  "MqttBinaryDataEntity_move_assign = MqttBinaryDataEntity_move"

section \<open>What an object stands for\<close>

fun abs_payload :: "mqtt_data_type \<Rightarrow> u16 \<Rightarrow> payload \<Rightarrow> MqttEntity option" where
  "abs_payload byte n (P_u8 v) = Some (MqttByteEntity v)"
| "abs_payload two_byte n (P_u16 v) = Some (MqttTwoByteEntity v)"
| "abs_payload four_byte n (P_u32 v) = Some (MqttFourByteEntity v)"
| "abs_payload mqtt_string n (P_string s) = Some (MqttStringEntity s)"
| "abs_payload mqtt_string_pair n (P_pair s t) = Some (MqttStringPairEntity s t)"
| "abs_payload variable_int n (P_u32 v) = Some (MqttVIntEntity v)"
| "abs_payload binary_data n (P_block d) =
     (if length d = unat n then Some (MqttBinaryDataEntity d) else None)"
| "abs_payload t n p = None"

definition ent_value :: "nat \<Rightarrow> memory \<Rightarrow> MqttEntity option" where
  "ent_value x m = (case e_data (ents m x) of None \<Rightarrow> None
     | Some a \<Rightarrow> if a < length (cells m)
         then abs_payload (e_type (ents m x)) (e_size (ents m x)) (cells m ! a) else None)"

text \<open>Every pointer is to a cell, and no two objects share one.\<close>

definition mem_ok :: "memory \<Rightarrow> bool" where
  "mem_ok m \<longleftrightarrow> (\<forall>x a. e_data (ents m x) = Some a \<longrightarrow> a < length (cells m)) \<and>
     (\<forall>x y a. e_data (ents m x) = Some a \<and> e_data (ents m y) = Some a \<longrightarrow> x = y)"

lemma ents_simps [simp]:
  "ents (set_ent d e m) = (ents m)(d := e)" "cells (set_ent d e m) = cells m"
  "ents (reset d m) = (ents m)(d := (ents m d)\<lparr>e_data := None\<rparr>)" "cells (reset d m) = cells m"
  "ents (set_type d t m) = (ents m)(d := (ents m d)\<lparr>e_type := t\<rparr>)" "cells (set_type d t m) = cells m"
  "ents (set_size d n m) = (ents m)(d := (ents m d)\<lparr>e_size := n\<rparr>)" "cells (set_size d n m) = cells m"
  "ents (make_shared d p m) = (ents m)(d := (ents m d)\<lparr>e_data := Some (length (cells m))\<rparr>)"
  "cells (make_shared d p m) = cells m @ [p]"
  by (simp_all add: set_ent_def reset_def set_type_def set_size_def make_shared_def)

lemma abs_payload_type: "abs_payload t n p = Some e \<Longrightarrow> t = ent_GetType e"
  by (cases t; cases p) (auto split: if_splits)

lemma ent_valueE:
  assumes "ent_value s m = Some e"
  obtains a where "e_data (ents m s) = Some a" "a < length (cells m)"
    "abs_payload (e_type (ents m s)) (e_size (ents m s)) (cells m ! a) = Some e"
    "load s m = Inr (cells m ! a)" "e_type (ents m s) = ent_GetType e"
proof -
  obtain a where a: "e_data (ents m s) = Some a" "a < length (cells m)"
    and v: "abs_payload (e_type (ents m s)) (e_size (ents m s)) (cells m ! a) = Some e"
    using assms by (auto simp: ent_value_def split: option.splits if_splits)
  moreover have "load s m = Inr (cells m ! a)" using a by (simp add: load_def)
  ultimately show thesis using that abs_payload_type [OF v] by blast
qed

text \<open>An object whose pointer was moved away has no value, and every access to it faults.\<close>

lemma moved_from:
  "e_data (ents m s) = None \<Longrightarrow> ent_value s m = None \<and> load s m = Inl NullDeref"
  by (simp add: ent_value_def load_def)

text \<open>The two ways the operations change a memory: a new cell for one object, a pointer moved.\<close>

lemma fresh_cell:
  assumes ok: "mem_ok m" and ents: "ents m' = (ents m)(d := e')" and cells: "cells m' = cells m @ [p]"
    and data: "e_data e' = Some (length (cells m))"
  shows "mem_ok m'" and "ent_value d m' = abs_payload (e_type e') (e_size e') p"
    and "\<forall>x. x \<noteq> d \<longrightarrow> ents m' x = ents m x \<and> ent_value x m' = ent_value x m"
proof -
  have old: "x < length (cells m)" if "e_data (ents m y) = Some x" for x y
    using ok that by (auto simp: mem_ok_def)
  have "e_data (ents m y) \<noteq> Some (length (cells m))" for y using old by force
  then show "mem_ok m'"
    using ok old data unfolding mem_ok_def ents cells
    by (metis (no_types, lifting) fun_upd_apply length_append_singleton less_Suc_eq option.inject)
  show "ent_value d m' = abs_payload (e_type e') (e_size e') p"
    by (simp add: ent_value_def ents cells data)
  show "\<forall>x. x \<noteq> d \<longrightarrow> ents m' x = ents m x \<and> ent_value x m' = ent_value x m"
    using old by (auto simp: ent_value_def ents cells nth_append less_Suc_eq split: option.splits)
qed

lemma moved_cell:
  assumes ok: "mem_ok m" and ents: "ents m' = (ents m)(d := e', s := e'')" and cells: "cells m' = cells m"
    and data: "e_data e' = e_data (ents m s)" "e_data e'' = None" and ds: "d \<noteq> s"
  shows "mem_ok m'" and "e_data (ents m' s) = None"
    and "ent_value d m' = (case e_data (ents m s) of None \<Rightarrow> None | Some a \<Rightarrow>
      if a < length (cells m) then abs_payload (e_type e') (e_size e') (cells m ! a) else None)"
    and "\<forall>x. x \<noteq> d \<and> x \<noteq> s \<longrightarrow> ents m' x = ents m x \<and> ent_value x m' = ent_value x m"
proof -
  show "mem_ok m'"
    using ok data ds unfolding mem_ok_def ents cells by (simp add: fun_upd_apply) metis
  show "ent_value d m' = (case e_data (ents m s) of None \<Rightarrow> None | Some a \<Rightarrow>
      if a < length (cells m) then abs_payload (e_type e') (e_size e') (cells m ! a) else None)"
    using ds data unfolding ent_value_def ents cells by (cases "e_data (ents m s)") simp_all
  show "\<forall>x. x \<noteq> d \<and> x \<noteq> s \<longrightarrow> ents m' x = ents m x \<and> ent_value x m' = ent_value x m"
    unfolding ent_value_def ents cells by (auto split: option.split)
qed (simp add: ents data)

section \<open>The contract of an entity class\<close>

text \<open>The classes promise deep copies and moves that leave nothing shared.\<close>

locale entity_class =
  fixes kind :: mqtt_data_type
    and copy :: "nat \<Rightarrow> nat \<Rightarrow> memory \<Rightarrow> memory res"
    and move :: "nat \<Rightarrow> nat \<Rightarrow> memory \<Rightarrow> memory"
    and assign :: "nat \<Rightarrow> nat \<Rightarrow> memory \<Rightarrow> memory res"
    and move_assign :: "nat \<Rightarrow> nat \<Rightarrow> memory \<Rightarrow> memory"
  assumes copy_law: "mem_ok m \<Longrightarrow> ent_value s m = Some e \<Longrightarrow> ent_GetType e = kind \<Longrightarrow> d \<noteq> s \<Longrightarrow>
      \<exists>m'. copy d s m = Inr m' \<and> ent_value d m' = Some e \<and> mem_ok m' \<and>
        (\<forall>x. x \<noteq> d \<longrightarrow> ents m' x = ents m x \<and> ent_value x m' = ent_value x m)"
    and assign_law: "mem_ok m \<Longrightarrow> ent_value s m = Some e \<Longrightarrow> ent_GetType e = kind \<Longrightarrow> d \<noteq> s \<Longrightarrow>
      e_type (ents m d) = kind \<Longrightarrow>
      \<exists>m'. assign d s m = Inr m' \<and> ent_value d m' = Some e \<and> mem_ok m' \<and>
        (\<forall>x. x \<noteq> d \<longrightarrow> ents m' x = ents m x \<and> ent_value x m' = ent_value x m)"
    and move_law: "mem_ok m \<Longrightarrow> ent_value s m = Some e \<Longrightarrow> ent_GetType e = kind \<Longrightarrow> d \<noteq> s \<Longrightarrow>
      ent_value d (move d s m) = Some e \<and> mem_ok (move d s m) \<and> e_data (ents (move d s m) s) = None \<and>
        (\<forall>x. x \<noteq> d \<and> x \<noteq> s \<longrightarrow> ents (move d s m) x = ents m x \<and> ent_value x (move d s m) = ent_value x m)"
    and move_assign_law: "mem_ok m \<Longrightarrow> ent_value s m = Some e \<Longrightarrow> ent_GetType e = kind \<Longrightarrow> d \<noteq> s \<Longrightarrow>
      e_type (ents m d) = kind \<Longrightarrow>
      ent_value d (move_assign d s m) = Some e \<and> mem_ok (move_assign d s m) \<and>
        e_data (ents (move_assign d s m) s) = None \<and>
        (\<forall>x. x \<noteq> d \<and> x \<noteq> s \<longrightarrow>
          ents (move_assign d s m) x = ents m x \<and> ent_value x (move_assign d s m) = ent_value x m)"
begin

text \<open>A copy does not notice what happens to its source afterwards.\<close>

lemma copy_independent:
  assumes "mem_ok m" and "ent_value s m = Some e" and "ent_GetType e = kind"
    and "d \<noteq> s" and "d \<noteq> t" and "s \<noteq> t"
  shows "\<exists>m'. copy d s m = Inr m' \<and> ent_value d (move t s m') = Some e \<and>
    ent_value t (move t s m') = Some e \<and> ent_value s (move t s m') = None \<and> mem_ok (move t s m')"
proof -
  obtain m' where m': "copy d s m = Inr m'" "ent_value d m' = Some e" "mem_ok m'"
      "ent_value s m' = Some e"
    using copy_law [OF assms(1-4)] assms by auto
  with move_law [OF m'(3,4) assms(3), of t] assms show ?thesis
    by (auto simp: moved_from)
qed

text \<open>A moved-from object can be assigned to and is then as good as new.\<close>

lemma assign_revives:
  assumes "mem_ok m" and "ent_value s m = Some e" and "ent_GetType e = kind" and "t \<noteq> s"
    and "e_type (ents (move t s m) s) = kind"
  shows "\<exists>m'. assign s t (move t s m) = Inr m' \<and> ent_value s m' = Some e \<and> ent_value t m' = Some e \<and>
    mem_ok m'"
  using move_law [OF assms(1-4)] assign_law [of "move t s m" t e s] assms by auto

end

text \<open>The operations built on \<open>copy_ent\<close> and its relatives keep the contract.\<close>

lemma entity_class_shape:
  assumes f: "\<And>n p e. abs_payload kind n p = Some e \<Longrightarrow> f p = p"
    and size: "\<And>n n' p. abs_payload kind n p = abs_payload kind n' p"
  shows "entity_class kind (copy_ent f) move_ent (assign_ent f) move_assign_ent"
proof
  fix m s e d
  assume ok: "mem_ok m" and v: "ent_value s m = Some e" and k: "ent_GetType e = kind" and ds: "d \<noteq> s"
  obtain a where a: "e_data (ents m s) = Some a" "a < length (cells m)"
      "abs_payload (e_type (ents m s)) (e_size (ents m s)) (cells m ! a) = Some e"
      "load s m = Inr (cells m ! a)" "e_type (ents m s) = kind"
    using v k by (elim ent_valueE) simp
  have fa: "f (cells m ! a) = cells m ! a" using f a(3,5) by simp
  have e: "abs_payload kind n (cells m ! a) = Some e" for n using a(3,5) size by metis
  have copied: "copy_ent f d s m = Inr (set_type d kind (make_shared d (cells m ! a) m))"
    using a fa by (simp add: copy_ent_def)
  show "\<exists>m'. copy_ent f d s m = Inr m' \<and> ent_value d m' = Some e \<and> mem_ok m' \<and>
      (\<forall>x. x \<noteq> d \<longrightarrow> ents m' x = ents m x \<and> ent_value x m' = ent_value x m)"
    unfolding copied using fresh_cell [OF ok, of "set_type d kind (make_shared d (cells m ! a) m)" d] e by simp
  show "ent_value d (move_ent d s m) = Some e \<and> mem_ok (move_ent d s m) \<and>
      e_data (ents (move_ent d s m) s) = None \<and>
      (\<forall>x. x \<noteq> d \<and> x \<noteq> s \<longrightarrow> ents (move_ent d s m) x = ents m x \<and> ent_value x (move_ent d s m) = ent_value x m)"
    using moved_cell [OF ok, of "move_ent d s m" d _ s] e a ds by (simp add: move_ent_def Let_def)
  assume t: "e_type (ents m d) = kind"
  have assigned: "assign_ent f d s m = Inr (make_shared d (cells m ! a) (reset d m))"
    using a ds fa by (simp add: assign_ent_def load_def)
  show "\<exists>m'. assign_ent f d s m = Inr m' \<and> ent_value d m' = Some e \<and> mem_ok m' \<and>
      (\<forall>x. x \<noteq> d \<longrightarrow> ents m' x = ents m x \<and> ent_value x m' = ent_value x m)"
    unfolding assigned using fresh_cell [OF ok, of "make_shared d (cells m ! a) (reset d m)" d] e t by simp
  show "ent_value d (move_assign_ent d s m) = Some e \<and> mem_ok (move_assign_ent d s m) \<and>
      e_data (ents (move_assign_ent d s m) s) = None \<and>
      (\<forall>x. x \<noteq> d \<and> x \<noteq> s \<longrightarrow> ents (move_assign_ent d s m) x = ents m x \<and>
        ent_value x (move_assign_ent d s m) = ent_value x m)"
    using moved_cell [OF ok, of "move_assign_ent d s m" d _ s] e a ds t
    by (simp add: move_assign_ent_def Let_def)
qed

interpretation byte_class: entity_class byte MqttByteEntity_copy MqttByteEntity_move
    MqttByteEntity_assign MqttByteEntity_move_assign
  unfolding MqttByteEntity_copy_def MqttByteEntity_move_def MqttByteEntity_assign_def
    MqttByteEntity_move_assign_def
proof (rule entity_class_shape)
  show "P_u8 (ucast (uint_of p)) = p" if "abs_payload byte n p = Some e" for n p e
    using that by (cases p) (simp_all add: ucast_down_up)
  show "abs_payload byte n p = abs_payload byte n' p" for n n' p by (cases p) simp_all
qed

interpretation two_byte_class: entity_class two_byte MqttTwoByteEntity_copy MqttTwoByteEntity_move
    MqttTwoByteEntity_assign MqttTwoByteEntity_move_assign
  unfolding MqttTwoByteEntity_copy_def MqttTwoByteEntity_move_def MqttTwoByteEntity_assign_def
    MqttTwoByteEntity_move_assign_def
proof (rule entity_class_shape)
  show "P_u16 (ucast (uint_of p)) = p" if "abs_payload two_byte n p = Some e" for n p e
    using that by (cases p) (simp_all add: ucast_down_up)
  show "abs_payload two_byte n p = abs_payload two_byte n' p" for n n' p by (cases p) simp_all
qed

interpretation four_byte_class: entity_class four_byte MqttFourByteEntity_copy MqttFourByteEntity_move
    MqttFourByteEntity_assign MqttFourByteEntity_move_assign
  unfolding MqttFourByteEntity_copy_def MqttFourByteEntity_move_def MqttFourByteEntity_assign_def
    MqttFourByteEntity_move_assign_def
proof (rule entity_class_shape)
  show "P_u32 (uint_of p) = p" if "abs_payload four_byte n p = Some e" for n p e
    using that by (cases p) simp_all
  show "abs_payload four_byte n p = abs_payload four_byte n' p" for n n' p by (cases p) simp_all
qed

interpretation string_class: entity_class mqtt_string MqttStringEntity_copy MqttStringEntity_move
    MqttStringEntity_assign MqttStringEntity_move_assign
  unfolding MqttStringEntity_copy_def MqttStringEntity_move_def MqttStringEntity_assign_def
    MqttStringEntity_move_assign_def
proof (rule entity_class_shape)
  show "P_string (string_of p) = p" if "abs_payload mqtt_string n p = Some e" for n p e
    using that by (cases p) simp_all
  show "abs_payload mqtt_string n p = abs_payload mqtt_string n' p" for n n' p by (cases p) simp_all
qed

interpretation pair_class: entity_class mqtt_string_pair MqttStringPairEntity_copy MqttStringPairEntity_move
    MqttStringPairEntity_assign MqttStringPairEntity_move_assign
  unfolding MqttStringPairEntity_copy_def MqttStringPairEntity_move_def MqttStringPairEntity_assign_def
    MqttStringPairEntity_move_assign_def
proof (rule entity_class_shape)
  show "(let (s, t) = strings_of p in P_pair s t) = p" if "abs_payload mqtt_string_pair n p = Some e" for n p e
    using that by (cases p) simp_all
  show "abs_payload mqtt_string_pair n p = abs_payload mqtt_string_pair n' p" for n n' p
    by (cases p) simp_all
qed

text \<open>Binary data keeps the contract by its own operations.\<close>

lemma binary_payload:
  "abs_payload binary_data n p = Some e \<Longrightarrow> \<exists>d. p = P_block d \<and> length d = unat n \<and> e = MqttBinaryDataEntity d"
  by (cases p) (auto split: if_splits)

lemma memcpy_block_load:
  "load s m = Inr (P_block d) \<Longrightarrow> length d = unat n \<Longrightarrow> memcpy_block s n m = Inr d"
  by (auto simp: memcpy_block_def rd_block_def unat_eq_0)

lemma binary_copied:
  assumes "load s m = Inr (P_block bs)" and "length bs = unat (e_size (ents m s))"
  shows "MqttBinaryDataEntity_copy d s m = Inr (set_type d (e_type (ents m s))
    (make_shared d (P_block bs) (set_size d (e_size (ents m s)) m)))"
  using memcpy_block_load [OF assms] by (simp add: MqttBinaryDataEntity_copy_def Let_def)

lemma binary_assigned:
  assumes "load s m = Inr (P_block bs)" and "length bs = unat (e_size (ents m s))" and "d \<noteq> s"
    and ok: "mem_ok m"
  shows "MqttBinaryDataEntity_assign junk d s m = Inr (set_type d (e_type (ents m s))
    (make_shared d (P_block bs) (set_size d (e_size (ents m s)) (reset d m))))"
proof -
  let ?n = "e_size (ents m s)"
  define m1 where "m1 = make_shared d (P_block (map junk [0..<unat ?n])) (set_size d ?n (reset d m))"
  have "load s m1 = Inr (P_block bs)"
    using assms by (auto simp: load_def m1_def rbind_eq_Inr nth_append split: if_splits)
  then have "memcpy_block s ?n m1 = Inr bs" using assms(2) by (rule memcpy_block_load)
  moreover have cell: "m1\<lparr>cells := (cells m1)[the (e_data (ents m1 d)) := P_block bs]\<rparr> =
      make_shared d (P_block bs) (set_size d ?n (reset d m))"
    by (simp add: m1_def make_shared_def set_ent_def)
  moreover have "e_type (ents m1 s) = e_type (ents m s)" using \<open>d \<noteq> s\<close> by (simp add: m1_def)
  moreover have "e_size (ents (reset d m) s) = ?n" "e_size (ents (set_size d ?n (reset d m)) d) = ?n"
    using \<open>d \<noteq> s\<close> by simp_all
  ultimately show ?thesis
    by (simp only: MqttBinaryDataEntity_assign_def Let_def m1_def [symmetric] rbind.simps)
qed

interpretation binary_class: entity_class binary_data MqttBinaryDataEntity_copy MqttBinaryDataEntity_move
    "MqttBinaryDataEntity_assign junk" MqttBinaryDataEntity_move_assign for junk
proof
  fix m s e d
  assume ok: "mem_ok m" and v: "ent_value s m = Some e" and k: "ent_GetType e = binary_data" and ds: "d \<noteq> s"
  let ?n = "e_size (ents m s)"
  obtain a where a: "e_data (ents m s) = Some a" "a < length (cells m)"
      "abs_payload (e_type (ents m s)) ?n (cells m ! a) = Some e"
      "load s m = Inr (cells m ! a)" "e_type (ents m s) = binary_data"
    using v k by (elim ent_valueE) simp
  then obtain bs where bs: "cells m ! a = P_block bs" "length bs = unat ?n" "e = MqttBinaryDataEntity bs"
    using binary_payload by metis
  have ld: "load s m = Inr (P_block bs)" using a bs by simp
  show "\<exists>m'. MqttBinaryDataEntity_copy d s m = Inr m' \<and> ent_value d m' = Some e \<and> mem_ok m' \<and>
      (\<forall>x. x \<noteq> d \<longrightarrow> ents m' x = ents m x \<and> ent_value x m' = ent_value x m)"
    unfolding binary_copied [OF ld bs(2)]
    using fresh_cell [OF ok, of "set_type d (e_type (ents m s)) (make_shared d (P_block bs) (set_size d ?n m))" d]
      bs a by simp
  have moved: "ent_value d (MqttBinaryDataEntity_move d s m) = Some e \<and> mem_ok (MqttBinaryDataEntity_move d s m) \<and>
      e_data (ents (MqttBinaryDataEntity_move d s m) s) = None \<and>
      (\<forall>x. x \<noteq> d \<and> x \<noteq> s \<longrightarrow> ents (MqttBinaryDataEntity_move d s m) x = ents m x \<and>
        ent_value x (MqttBinaryDataEntity_move d s m) = ent_value x m)"
    using moved_cell [OF ok, of "MqttBinaryDataEntity_move d s m" d _ s] bs a ds
    by (simp add: MqttBinaryDataEntity_move_def Let_def)
  show "ent_value d (MqttBinaryDataEntity_move d s m) = Some e \<and> mem_ok (MqttBinaryDataEntity_move d s m) \<and>
      e_data (ents (MqttBinaryDataEntity_move d s m) s) = None \<and>
      (\<forall>x. x \<noteq> d \<and> x \<noteq> s \<longrightarrow> ents (MqttBinaryDataEntity_move d s m) x = ents m x \<and>
        ent_value x (MqttBinaryDataEntity_move d s m) = ent_value x m)"
    by (rule moved)
  show "\<exists>m'. MqttBinaryDataEntity_assign junk d s m = Inr m' \<and> ent_value d m' = Some e \<and> mem_ok m' \<and>
      (\<forall>x. x \<noteq> d \<longrightarrow> ents m' x = ents m x \<and> ent_value x m' = ent_value x m)"
    unfolding binary_assigned [OF ld bs(2) ds ok]
    using fresh_cell [OF ok, of "set_type d (e_type (ents m s))
        (make_shared d (P_block bs) (set_size d ?n (reset d m)))" d] bs a by simp
  show "ent_value d (MqttBinaryDataEntity_move_assign d s m) = Some e \<and>
      mem_ok (MqttBinaryDataEntity_move_assign d s m) \<and>
      e_data (ents (MqttBinaryDataEntity_move_assign d s m) s) = None \<and>
      (\<forall>x. x \<noteq> d \<and> x \<noteq> s \<longrightarrow> ents (MqttBinaryDataEntity_move_assign d s m) x = ents m x \<and>
        ent_value x (MqttBinaryDataEntity_move_assign d s m) = ent_value x m)"
    unfolding MqttBinaryDataEntity_move_assign_def by (rule moved)
qed

section \<open>Assigning an object to itself\<close>

text \<open>The data is let go before the source is read: a self-assignment faults, or keeps junk.\<close>

lemma assign_ent_self: "assign_ent f d d m = Inl NullDeref"
  by (simp add: assign_ent_def load_def)

lemma binary_self_assign:
  assumes "ent_value d m = Some (MqttBinaryDataEntity bs)"
  shows "\<exists>m'. MqttBinaryDataEntity_assign junk d d m = Inr m' \<and>
    ent_value d m' = Some (MqttBinaryDataEntity (map junk [0..<length bs]))"
proof -
  let ?n = "e_size (ents m d)"
  obtain a where "abs_payload (e_type (ents m d)) ?n (cells m ! a) = Some (MqttBinaryDataEntity bs)"
    and t: "e_type (ents m d) = binary_data"
    using assms by (elim ent_valueE) simp
  then have n: "length bs = unat ?n" using binary_payload by fastforce
  define m1 where "m1 = make_shared d (P_block (map junk [0..<unat ?n])) (set_size d ?n (reset d m))"
  have "load d m1 = Inr (P_block (map junk [0..<unat ?n]))" by (simp add: load_def m1_def)
  then have "memcpy_block d ?n m1 = Inr (map junk [0..<unat ?n])" by (rule memcpy_block_load) simp
  then have "MqttBinaryDataEntity_assign junk d d m = Inr (set_type d binary_data
      (m1\<lparr>cells := (cells m1)[the (e_data (ents m1 d)) := P_block (map junk [0..<unat ?n])]\<rparr>))"
    using t by (simp add: MqttBinaryDataEntity_assign_def Let_def m1_def)
  then show ?thesis by (simp add: ent_value_def m1_def n)
qed

end
