(* ===== verification/Startup.thy ===== *)
theory Startup
  imports Server
begin

text \<open>
  What happens before the loop of \<open>main\<close>: reading the configuration (\<open>ReadConfig\<close>), opening
  the sockets, and the commands the main thread sends over the control socket. The configuration
  library and the socket calls are parameters: a parsed file is a lookup function, a socket call the
  value it returned.
\<close>

section \<open>Configuration\<close>

datatype cfg_err = cfg_ok | bad_file | bad_arg

record ServerCfgData =
  log_file_path :: string
  log_max_size :: "64 word"
  log_max_files :: "64 word"
  cfg_port :: int
  cfg_level :: int
  control_socket_path :: string

definition DEFAULT_LOG_FILE :: string where "DEFAULT_LOG_FILE = ''/home/logs/mqtt_broker.log''"

definition DEFAULT_PORT :: int where "DEFAULT_PORT = 1883"

definition CONTROL_SOCKET_NAME :: string where
  "CONTROL_SOCKET_NAME = ''/tmp/9Lq7BNBnBycd6nxy.socket''"

definition MB :: int where "MB = 1048576"

text \<open>The levels of the logging library, in their order.\<close>

datatype log_level =
  level_trace | level_debug | level_info | level_warn | level_err | level_critical | level_off
  | n_levels

definition info_level :: int where "info_level = 2"

definition default_ServerCfgData :: ServerCfgData where
  "default_ServerCfgData =
     \<lparr>log_file_path = DEFAULT_LOG_FILE, log_max_size = word_of_int (10 * MB), log_max_files = 5,
      cfg_port = DEFAULT_PORT, cfg_level = info_level, control_socket_path = CONTROL_SOCKET_NAME\<rparr>"

text \<open>
  The configuration library is a parameter: a group is what \<open>lookupValue\<close> finds in it for an
  integer and for a string variable. Reading a file fails with an I/O error, which is caught, or a
  syntax error, which is not; a group that is missing throws as well.
\<close>

record group =
  lookup_int :: "string \<Rightarrow> int option"
  lookup_string :: "string \<Rightarrow> string option"

datatype cfg_file = Unreadable | Malformed | Parsed "string \<Rightarrow> group option"

datatype cfg_exception = ParseException | SettingNotFoundException

definition default_to :: "'a \<Rightarrow> 'a option \<Rightarrow> 'a" where
  "default_to d v = (case v of Some x \<Rightarrow> x | None \<Rightarrow> d)"

definition read_groups :: "group \<Rightarrow> group \<Rightarrow> ServerCfgData \<times> cfg_err" where
  "read_groups log_cfg broker_cfg =
     (case lookup_string log_cfg ''path'' of
        None \<Rightarrow> (default_ServerCfgData, bad_arg)
      | Some path \<Rightarrow>
          let size = default_to (10 * MB) (lookup_int log_cfg ''size'');
              max_file = default_to 3 (lookup_int log_cfg ''max_files'');
              prt = default_to DEFAULT_PORT (lookup_int broker_cfg ''port'');
              level = default_to info_level (lookup_int log_cfg ''level'');
              sock = default_to CONTROL_SOCKET_NAME (lookup_string broker_cfg ''control_socket'')
          in (\<lparr>log_file_path = path, log_max_size = word_of_int size,
               log_max_files = word_of_int max_file, cfg_port = prt, cfg_level = level,
               control_socket_path = sock\<rparr>, cfg_ok))"

fun ReadConfig :: "cfg_file \<Rightarrow> cfg_exception + (ServerCfgData \<times> cfg_err)" where
  "ReadConfig Unreadable = Inr (default_ServerCfgData, bad_file)"
| "ReadConfig Malformed = Inl ParseException"
| "ReadConfig (Parsed root) =
     (case root ''log_file'' of
        None \<Rightarrow> Inl SettingNotFoundException
      | Some log_cfg \<Rightarrow>
          (case root ''broker'' of
             None \<Rightarrow> Inl SettingNotFoundException
           | Some broker_cfg \<Rightarrow> Inr (read_groups log_cfg broker_cfg)))"

fun SetLogLevel :: "int \<Rightarrow> log_level" where
  "SetLogLevel l =
     (if l = 0 then level_trace else if l = 1 then level_debug else if l = 2 then level_info
      else if l = 3 then level_warn else if l = 4 then level_err else if l = 5 then level_critical
      else if l = 6 then level_off else n_levels)"

section \<open>Sockets\<close>

text \<open>The arguments are what \<open>socket\<close>, \<open>bind\<close>, \<open>listen\<close>, \<open>poll\<close> and \<open>accept\<close> returned.\<close>

definition InitControlSocket :: "int \<Rightarrow> int \<Rightarrow> int \<Rightarrow> Broker \<Rightarrow> broker_err \<times> Broker" where
  "InitControlSocket sock bound listening b =
     (let b = b\<lparr>control_sock := sock\<rparr>
      in if sock < 0 then (sock_create_err, b)
         else if bound < 0 then (sock_bind_err, b)
         else if listening < 0 then (sock_listen_err, b)
         else (broker_ok, b))"

text \<open>\<open>bind\<close> is tried again and again: \<open>None\<close> is a loop that does not end.\<close>

partial_function (option) bind_loop :: "(nat \<Rightarrow> int) \<Rightarrow> nat \<Rightarrow> nat option" where
  "bind_loop bound i = (if bound i < 0 then bind_loop bound (Suc i) else Some i)"

definition InitSocket :: "int \<Rightarrow> (nat \<Rightarrow> int) \<Rightarrow> int \<Rightarrow> int option" where
  "InitSocket sock_fd bound listening =
     (if sock_fd < 0 then Some 0
      else case bind_loop bound 0 of
          None \<Rightarrow> None
        | Some _ \<Rightarrow> Some (if listening < 0 then 0 else sock_fd))"

definition WaitForClient :: "int \<Rightarrow> int \<Rightarrow> int" where
  "WaitForClient polled_fd accepted =
     (if polled_fd = -1 then -1 else if accepted < 0 then -2 else accepted)"

text \<open>The outcome of sending a command, and what reached the socket. A failed \<open>socket\<close> goes on
  to \<open>connect\<close>, which fails on its descriptor.\<close>

definition SendCommand :: "int \<Rightarrow> int \<Rightarrow> bytes \<Rightarrow> broker_err \<times> bytes option" where
  "SendCommand connected_fd wrote buf =
     (if connected_fd = -1 then (connect_err, None)
      else if wrote = -1 then (write_err, None)
      else (broker_ok, Some (take (nat wrote) buf)))"

section \<open>The start of the program\<close>

text \<open>
  \<open>main\<close> up to its loop: \<open>None\<close> when it exits or never gets there, else the broker that waits for
  clients.
\<close>

definition main_start ::
    "cfg_file \<Rightarrow> int \<Rightarrow> (nat \<Rightarrow> int) \<Rightarrow> int \<Rightarrow> int \<times> int \<times> int \<Rightarrow> Broker option" where
  "main_start cfg sock bound listening ctl =
     (case ReadConfig cfg of
        Inl _ \<Rightarrow> None
      | Inr (cfg_data, e) \<Rightarrow>
          if e \<noteq> cfg_ok then None
          else
            let b = SetEraseOldValues False (SetPort (cfg_port cfg_data) new_Broker)
            in case InitSocket sock bound listening of
                 None \<Rightarrow> None
               | Some fd \<Rightarrow>
                   if fd \<le> 0 then None
                   else Some (snd (InitControlSocket (fst ctl) (fst (snd ctl)) (snd (snd ctl)) b)))"

section \<open>What holds of it\<close>

lemma bind_loop_first:
  assumes "\<not> bound (i + n) < 0" and "\<forall>k<n. bound (i + k) < 0"
  shows "bind_loop bound i = Some (i + n)"
  using assms
proof (induction n arbitrary: i)
  case 0
  then show ?case by (subst bind_loop.simps) simp
next
  case (Suc n)
  have "bound i < 0" using Suc.prems(2) by force
  moreover have "bind_loop bound (Suc i) = Some (Suc i + n)"
    by (rule Suc.IH) (use Suc.prems in \<open>auto dest: spec [of _ "Suc _"]\<close>)
  ultimately show ?case by (subst bind_loop.simps) simp
qed

lemma bind_loop_result: "bind_loop bound i = Some n \<Longrightarrow> 0 \<le> bound n"
proof -
  assume r: "bind_loop bound i = Some n"
  show "0 \<le> bound n"
  proof (rule bind_loop.raw_induct [where P = "\<lambda>f i n. 0 \<le> f n", OF _ r])
    fix g :: "(nat \<Rightarrow> int) \<Rightarrow> nat \<Rightarrow> nat option" and f :: "nat \<Rightarrow> int" and j m
    assume ih: "\<And>f i n. g f i = Some n \<Longrightarrow> 0 \<le> f n"
      and q: "(if f j < 0 then g f (Suc j) else Some j) = Some m"
    show "0 \<le> f m"
    proof (cases "f j < 0")
      case True
      then show ?thesis using q ih [of f "Suc j" m] by simp
    next
      case False
      then show ?thesis using q by simp
    qed
  qed
qed

lemma bind_loop_runs: "(\<exists>n. bind_loop bound 0 = Some n) \<longleftrightarrow> (\<exists>n. 0 \<le> bound n)"
proof
  assume "\<exists>n. bind_loop bound 0 = Some n"
  then show "\<exists>n. 0 \<le> bound n" using bind_loop_result by metis
next
  assume ex: "\<exists>n. 0 \<le> bound n"
  define n where "n = (LEAST n. 0 \<le> bound n)"
  have "0 \<le> bound n" unfolding n_def using ex by (rule LeastI_ex)
  moreover have "\<forall>k<n. bound k < 0"
  proof (intro allI impI)
    fix k assume "k < n"
    then have "\<not> 0 \<le> bound k" unfolding n_def by (rule not_less_Least)
    then show "bound k < 0" by simp
  qed
  ultimately have "bind_loop bound 0 = Some n" using bind_loop_first [of bound 0 n] by simp
  then show "\<exists>n. bind_loop bound 0 = Some n" ..
qed

text \<open>The listening socket is opened exactly when \<open>socket\<close>, some \<open>bind\<close> and \<open>listen\<close> succeed.\<close>

lemma InitSocket_positive:
  "(InitSocket sock bound listening = Some fd \<and> 0 < fd) =
    (0 < sock \<and> fd = sock \<and> (\<exists>n. 0 \<le> bound n) \<and> 0 \<le> listening)"
proof (cases "bind_loop bound 0")
  case None
  then have "\<not> (\<exists>n. 0 \<le> bound n)" using bind_loop_runs [of bound] by simp
  then show ?thesis using None by (simp add: InitSocket_def)
next
  case (Some m)
  then have "\<exists>n. 0 \<le> bound n" using bind_loop_runs [of bound] by metis
  moreover have "InitSocket sock bound listening =
      Some (if sock < 0 then 0 else if listening < 0 then 0 else sock)"
    using Some by (simp add: InitSocket_def)
  ultimately show ?thesis by (simp del: not_less) linarith
qed

lemma InitSocket_hangs:
  "(InitSocket sock bound listening = None) = (0 \<le> sock \<and> (\<forall>n. bound n < 0))"
proof -
  have "(bind_loop bound 0 = None) = (\<not> (\<exists>n. bind_loop bound 0 = Some n))" by simp
  also have "\<dots> = (\<forall>n. bound n < 0)" unfolding bind_loop_runs by (simp add: not_le)
  finally have none: "(bind_loop bound 0 = None) = (\<forall>n. bound n < 0)" .
  have "(InitSocket sock bound listening = None) = (0 \<le> sock \<and> bind_loop bound 0 = None)"
    by (cases "bind_loop bound 0") (simp_all add: InitSocket_def)
  then show ?thesis using none by simp
qed

lemma InitControlSocket_inv:
  "broker_inv b \<Longrightarrow> broker_inv (snd (InitControlSocket sock bound listening b))"
  by (simp add: InitControlSocket_def Let_def broker_inv_def clients_inv_def storage_inv_def)

lemma configured_inv: "broker_inv (SetEraseOldValues v (SetPort p new_Broker))"
  using new_Broker_inv
  by (simp add: SetEraseOldValues_def SetPort_def broker_inv_def clients_inv_def storage_inv_def)

lemma main_start_inv:
  assumes "main_start cfg sock bound listening ctl = Some b"
  shows "broker_inv b \<and> state b = init \<and> clients b = [] \<and> control_sock b = fst ctl \<and>
    0 < sock \<and> (\<exists>n. 0 \<le> bound n) \<and> 0 \<le> listening \<and>
    (\<exists>d. ReadConfig cfg = Inr (d, cfg_ok) \<and> port b = cfg_port d)"
proof -
  obtain d where d: "ReadConfig cfg = Inr (d, cfg_ok)"
    using assms by (auto simp: main_start_def split: sum.splits if_splits)
  obtain fd where fd: "InitSocket sock bound listening = Some fd" "0 < fd"
    using assms d by (auto simp: main_start_def Let_def split: option.splits if_splits)
  then have "0 < sock \<and> (\<exists>n. 0 \<le> bound n) \<and> 0 \<le> listening"
    using InitSocket_positive [of sock bound listening fd] by simp
  moreover have b: "b = snd (InitControlSocket (fst ctl) (fst (snd ctl)) (snd (snd ctl))
      (SetEraseOldValues False (SetPort (cfg_port d) new_Broker)))"
    using assms d fd by (simp add: main_start_def Let_def)
  moreover have "broker_inv b" unfolding b by (intro InitControlSocket_inv configured_inv)
  ultimately show ?thesis
    using d by (simp add: InitControlSocket_def SetEraseOldValues_def SetPort_def new_Broker_def Let_def)
qed

lemma main_start_empty:
  assumes "main_start cfg sock bound listening ctl = Some b"
  shows "topics b = [] \<and> qos_2_topics b = [] \<and> commands b = []"
  using assms
  by (auto simp: main_start_def Let_def InitControlSocket_def SetEraseOldValues_def SetPort_def new_Broker_def
      split: sum.splits if_splits option.splits)

end
