(* ===== verification/Passes.thy ===== *)
theory Passes
  imports Serving
begin

text \<open>
  Whole passes of the server thread: what happens to the descriptors that are given up, a pass in
  which nothing is ready, and a pass after a connection was accepted since the poll set was built.
\<close>

section \<open>Giving descriptors up\<close>

text \<open>The turn of one entry, which is not the control socket.\<close>

definition serve_entry :: "env \<Rightarrow> int \<Rightarrow> revents \<Rightarrow> Broker \<Rightarrow> (bool \<times> Broker) res" where
  "serve_entry e fd ev b =
     (case ev of Pollin \<Rightarrow> serve_data e fd b | OtherEvents \<Rightarrow> serve_closed fd b | NoEvents \<Rightarrow> serve_quiet e fd b)"

lemma serve_closed_given_up: "serve_closed fd b = Inr (del, b') \<Longrightarrow> del"
  by (auto simp: serve_closed_def rbind_eq_Inr split: prod.splits)

lemma wait_loop_dels:
  "wait_loop e vs dels b = Inr (vs', dels', b') \<Longrightarrow> set dels \<subseteq> set dels' \<and>
    (\<not> is_add (ctl_in e) \<longrightarrow> (\<forall>fd. (fd, OtherEvents) \<in> set vs \<longrightarrow> fd \<in> set dels'))"
proof (induction vs arbitrary: dels b vs' dels' b')
  case (Cons v vs)
  obtain fd ev where v: "v = (fd, ev)" by (cases v)
  show ?case
  proof (cases "ev \<noteq> OtherEvents \<and> fd = control_sock b")
    case True
    show ?thesis
    proof (cases "ev = Pollin \<and> is_add (ctl_in e)")
      case True
      with \<open>ev \<noteq> OtherEvents \<and> fd = control_sock b\<close> Cons.prems show ?thesis by (simp add: v)
    next
      case False
      with True Cons.prems obtain vs1 where "wait_loop e vs dels b = Inr (vs1, dels', b')"
        by (cases ev) (auto simp: v rbind_eq_Inr)
      from Cons.IH [OF this] True show ?thesis by (auto simp: v)
    qed
  next
    case False
    then have "wait_loop e (v # vs) dels b = rbind (serve_entry e fd ev b) (\<lambda>(del, b).
        rbind (wait_loop e vs (if del then dels @ [fd] else dels) b) (\<lambda>(vs, dels, b).
        Inr ((fd, if ev = Pollin then NoEvents else ev) # vs, dels, b)))"
      by (cases ev) (simp_all add: v serve_entry_def)
    with Cons.prems obtain del b1 vs1 where s: "serve_entry e fd ev b = Inr (del, b1)"
      and rest: "wait_loop e vs (if del then dels @ [fd] else dels) b1 = Inr (vs1, dels', b')"
      by (auto simp: rbind_eq_Inr simp del: if_split split del: if_split)
    have "ev = OtherEvents \<Longrightarrow> del" using s serve_closed_given_up by (simp add: serve_entry_def)
    then show ?thesis using Cons.IH [OF rest] by (auto simp: v split: if_splits)
  qed
qed simp

lemma close_loop_result:
  "close_loop fds b = Inr b' \<Longrightarrow> clients b' = filter (\<lambda>c. fst c \<notin> set fds) (clients b) \<and>
    closed b' = closed b @ fds \<and> state b' = state b"
proof (induction fds arbitrary: b)
  case (Cons fd fds)
  obtain r where "clients_at fd b = (Some r, b)"
    using Cons.prems clients_at_deref [of fd b] by (cases "clients_at fd b") (auto simp: rbind_eq_Inr)
  with Cons.prems have "close_loop fds (CloseConnection fd b) = Inr b'" by simp
  moreover have "closed (CloseConnection fd b) = closed b @ [fd]" "state (CloseConnection fd b) = state b"
    by (simp_all add: CloseConnection_def DelClient_def DelSubscribedClient_def Let_def)
  ultimately show ?case
    using Cons.IH [of "CloseConnection fd b"] by (simp add: DelClient_clients kv_erase_def conj_commute)
qed simp

text \<open>
  A pass that returns has closed every polled descriptor the kernel reported as hung up, unless an
  \<open>ADD\<close> command cut it short; the clients are gone and the poll set is to be built again.
\<close>

lemma wait_step_hang_up:
  assumes pass: "wait_step e v b = Inr (v', b')" and inv: "broker_inv b"
    and env: "\<not> poll_failed e" "\<not> is_add (ctl_in e)"
    and fd: "fd \<in> fst ` set (take (unat (GetClientCount b + 1)) v)" "polled e fd = OtherEvents"
  shows "fd \<in> set (closed b') \<and> fd \<notin> fst ` set (clients b') \<and> fd \<notin> fst ` set (subscribed_clients b') \<and>
    state b' = started"
proof -
  define n where "n = unat (GetClientCount b + 1)"
  define pfds where "pfds = map (\<lambda>(fd, _). (fd, polled e fd)) (take n v)"
  define fin where "fin = (\<lambda>(vs, dels, b).
    rbind (if dels \<noteq> [] then close_loop dels (SetState started b) else Inr b)
      (\<lambda>b. Inr (vs @ drop n v, b)))"
  have "\<not> length v < n" using pass by (auto simp: wait_step_def n_def)
  then have "rbind (wait_loop e pfds [] b) fin = Inr (v', b')"
    using pass env(1) by (simp only: wait_step_def Let_def n_def [symmetric]
        pfds_def [symmetric] fin_def [symmetric] if_False)
  then obtain vs dels b1 where loop: "wait_loop e pfds [] b = Inr (vs, dels, b1)"
    and end_: "fin (vs, dels, b1) = Inr (v', b')"
    by (auto simp: rbind_eq_Inr)
  have "(fd, OtherEvents) \<in> set pfds" using fd by (force simp: pfds_def n_def)
  then have del: "fd \<in> set dels" using wait_loop_dels [OF loop] env(2) by blast
  then have "close_loop dels (SetState started b1) = Inr b'" using end_
    by (cases "dels = []") (auto simp: fin_def rbind_eq_Inr)
  then have res: "clients b' = filter (\<lambda>c. fst c \<notin> set dels) (clients (SetState started b1))"
      "closed b' = closed (SetState started b1) @ dels" "state b' = state (SetState started b1)"
    using close_loop_result by blast+
  have "broker_inv b'" using wait_step_evolves [OF pass inv] by (rule evolves_inv)
  then have "fst ` set (subscribed_clients b') \<subseteq> fst ` set (clients b')"
    by (force simp: broker_inv_def clients_inv_def)
  then show ?thesis using del res by (auto simp: SetState_def)
qed

section \<open>A quiet pass\<close>

lemma wait_loop_quiet:
  assumes "broker_inv b" and "\<forall>x\<in>set vs. snd x = NoEvents \<and> (fst x = control_sock b \<or>
    (\<exists>r. (fst x, Some r) \<in> set (clients b) \<and>
      cur_time e < time_last_packet (objects b r) + int (unat (alive (objects b r))) + 5))"
  shows "wait_loop e vs dels b = Inr (vs, dels, b)"
  using assms(2)
proof (induction vs)
  case (Cons v vs)
  obtain fd where v: "v = (fd, NoEvents)" using Cons.prems by (cases v) simp
  show ?case
  proof (cases "fd = control_sock b")
    case False
    then obtain r where "(fd, Some r) \<in> set (clients b)"
      "cur_time e < time_last_packet (objects b r) + int (unat (alive (objects b r))) + 5"
      using Cons.prems v by auto
    then have "serve_quiet e fd b = Inr (False, b)" by (rule serve_quiet_in_time [OF assms(1)])
    then show ?thesis using Cons False by (simp add: v)
  qed (use Cons v in simp)
qed simp

lemma unat_GetClientCount:
  "length (clients b) < 2 ^ 31 \<Longrightarrow> unat (GetClientCount b + 1) = Suc (length (clients b))"
  using unat_of_nat32 [of "Suc (length (clients b))"] by (simp add: GetClientCount_def add.commute)

text \<open>When no client is ready and none is late, a pass leaves everything as it is.\<close>

lemma wait_step_quiet:
  assumes inv: "broker_inv b" and few: "length (clients b) < 2 ^ 31" and env: "\<not> poll_failed e" "polled e = (\<lambda>_. NoEvents)"
    and v: "map fst v = map fst (clients b) @ [control_sock b]"
    and time: "\<forall>(fd, p)\<in>set (clients b). cur_time e <
      time_last_packet (objects b (the p)) + int (unat (alive (objects b (the p)))) + 5"
  shows "wait_step e v b = Inr (map (\<lambda>fd. (fd, NoEvents)) (map fst v), b)"
proof -
  have n: "unat (GetClientCount b + 1) = length v"
    using unat_GetClientCount [OF few] v by (metis length_map length_append_singleton)
  let ?v = "map (\<lambda>(fd, _). (fd, polled e fd)) v"
  have "wait_loop e ?v [] b = Inr (?v, [], b)"
  proof (rule wait_loop_quiet [OF inv], intro ballI)
    fix x assume x: "x \<in> set ?v"
    then have "fst x \<in> set (map fst v)" by force
    then consider "fst x = control_sock b" | p where "(fst x, p) \<in> set (clients b)" using v by force
    then show "snd x = NoEvents \<and> (fst x = control_sock b \<or> (\<exists>r. (fst x, Some r) \<in> set (clients b) \<and>
        cur_time e < time_last_packet (objects b r) + int (unat (alive (objects b r))) + 5))"
    proof cases
      case 2
      then obtain r where "p = Some r" using inv by (auto simp: broker_inv_def clients_inv_def)
      then show ?thesis using 2 time x env(2) by force
    qed (use x env(2) in force)
  qed
  moreover have "?v = map (\<lambda>fd. (fd, NoEvents)) (map fst v)" using env(2) by (simp add: case_prod_unfold comp_def)
  ultimately show ?thesis using n env(1) by (simp add: wait_step_def Let_def del: map_map split del: if_split)
qed

section \<open>A connection accepted between two passes\<close>

lemma started_step_polls:
  "clients b \<noteq> [] \<Longrightarrow> length (clients b) < 2 ^ 31 \<Longrightarrow>
    started_step b = (map (\<lambda>c. (fst c, NoEvents)) (clients b) @ [(control_sock b, NoEvents)], SetState wait_state b, True)"
proof -
  assume c: "clients b \<noteq> []" "length (clients b) < 2 ^ 31"
  then have "unat (GetClientCount b) \<noteq> unat (0 :: u32)"
    using unat_of_nat32 [of "length (clients b)"] by (simp add: GetClientCount_def)
  then have "GetClientCount b \<noteq> 0" by metis
  then show ?thesis by (simp add: started_step_def)
qed

lemma main_step_accepts:
  assumes "0 < fd" and "fd \<notin> fst ` set (clients b)" and "state b = wait_state"
  shows "clients (main_step fd i t b) = (fd, Some (next_object b)) # clients b \<and>
    state (main_step fd i t b) = wait_state \<and> server_threads (main_step fd i t b) = server_threads b"
proof -
  have "kv_find fst fd (clients b) = None" using assms(2) by (simp add: kv_find_None_iff)
  then show ?thesis
    using assms by (simp add: main_step_def AddClient_def Let_def control_command_def un_insert_def GetState_def)
qed

lemma wait_step_overrun:
  assumes "length (clients b) < 2 ^ 31" and "length v \<le> length (clients b)"
  shows "wait_step e v b = Inl OobRead"
  using assms unat_GetClientCount [OF assms(1)] by (simp add: wait_step_def)

lemma accept_overrun:
  assumes "\<not> crashed s" and "serving s" and "state (broker s) = started"
    and "clients (broker s) \<noteq> []" and "Suc (length (clients (broker s))) < 2 ^ 31"
    and "0 < fd" and "fd \<notin> fst ` set (clients (broker s))"
  shows "\<exists>s1 s2. pstep s s1 \<and> pstep s1 s2 \<and> fd \<in> fst ` set (clients (broker s2)) \<and>
    \<not> crashed s2 \<and> (\<forall>e. server_step e (vec_fds s2) (broker s2) = Inl OobRead)"
proof -
  let ?b = "broker s"
  define v where "v = map (\<lambda>c. (fst c, NoEvents)) (clients ?b) @ [(control_sock ?b, NoEvents)]"
  define b1 where "b1 = SetState wait_state ?b"
  define s1 where "s1 = s\<lparr>broker := b1, vec_fds := v, serving := True\<rparr>"
  define b2 where "b2 = main_step fd [] 0 b1"
  define s2 where "s2 = s1\<lparr>broker := b2\<rparr>"
  have "server_step e (vec_fds s) ?b = Inr (v, b1, True)" for e
    using assms(3-5) started_step_polls [of ?b] by (simp add: server_step_def v_def b1_def)
  then have step1: "pstep s s1" unfolding s1_def using assms(1,2) by (intro pstep.serve)
  have b1: "state b1 = wait_state" "clients b1 = clients ?b" by (simp_all add: b1_def SetState_def)
  have b2: "clients b2 = (fd, Some (next_object b1)) # clients ?b" "state b2 = wait_state"
      "server_threads b2 = server_threads b1"
    using main_step_accepts [of fd b1 "[]" 0] b1 assms(6,7) by (simp_all add: b2_def)
  have "pstep s1 (s1\<lparr>broker := b2, serving := serving s1 \<or> server_threads b2 \<noteq> server_threads (broker s1),
      vec_fds := (if server_threads b2 \<noteq> server_threads (broker s1) then [] else vec_fds s1)\<rparr>)"
    using assms(1) by (intro pstep.main [where fd = fd and i = "[]" and t = 0]) (simp_all add: s1_def b2_def)
  then have step2: "pstep s1 s2" using b2(3) by (cases s) (simp add: s2_def s1_def)
  have "wait_step e v b2 = Inl OobRead" for e
    using assms(5) b2(1) by (intro wait_step_overrun) (simp_all add: v_def)
  then have "server_step e (vec_fds s2) (broker s2) = Inl OobRead" for e
    using b2(2) by (simp add: s2_def s1_def server_step_def)
  then show ?thesis
    using step1 step2 assms(1) b2(1) by (intro exI [of _ s1] exI [of _ s2]) (simp add: s2_def s1_def)
qed

end
