(* ===== verification/Interleaving.thy ===== *)
theory Interleaving
  imports Passes
begin

text \<open>
  The program at the grain of the loop bodies of its threads. The server thread stops between
  reading the number of clients and the return of \<open>poll\<close>, before each entry of the poll set and
  before each descriptor it closes; there the main thread may add a client, a sender thread take a
  command and the QoS thread run. Passes that are not interrupted are the steps of \<open>Server\<close>.
\<close>

section \<open>Where the server thread is\<close>

text \<open>
  \<open>At_entry t i n dels\<close> is before entry \<open>i\<close> of the \<open>n\<close> that were polled, with the time read at the
  start of the pass and the descriptors to delete; \<open>At_close\<close> has those still to be closed.
\<close>

datatype server_pc =
    At_switch
  | At_poll nat
  | At_entry int nat nat "int list"
  | At_close "int list"

record threads = program +
  pc :: server_pc

text \<open>The body of the loop over the entries. The flag says that the loop is left.\<close>

definition entry_step ::
    "env \<Rightarrow> nat \<Rightarrow> pollfd list \<Rightarrow> int list \<Rightarrow> Broker \<Rightarrow> (pollfd list \<times> int list \<times> Broker \<times> bool) res" where
  "entry_step e i v dels b =
     (let (fd, ev) = v ! i; v = (if ev = Pollin then v[i := (fd, NoEvents)] else v)
      in if ev = Pollin \<and> fd = control_sock b then
           (if is_add (ctl_in e) then Inr (v, dels, SetState started b, True) else Inr (v, dels, b, False))
         else if ev = NoEvents \<and> fd = control_sock b then Inr (v, dels, b, False)
         else rbind (serve_entry e fd ev b) (\<lambda>(del, b).
              Inr (v, if del then dels @ [fd] else dels, b, False)))"

text \<open>What \<open>poll\<close> does to the poll set.\<close>

definition poll_result :: "env \<Rightarrow> nat \<Rightarrow> pollfd list \<Rightarrow> pollfd list" where
  "poll_result e n v =
     (if poll_failed e then v else map (\<lambda>(fd, _). (fd, polled e fd)) (take n v) @ drop n v)"

inductive fstep :: "threads \<Rightarrow> threads \<Rightarrow> bool" where
  main: "\<not> crashed s \<Longrightarrow> b' = main_step fd i t (broker s) \<Longrightarrow>
    new = (server_threads b' \<noteq> server_threads (broker s)) \<Longrightarrow>
    fstep s (s\<lparr>broker := b', vec_fds := (if new then [] else vec_fds s), serving := serving s \<or> new,
      pc := (if new then At_switch else pc s)\<rparr>)"
| build: "\<not> crashed s \<Longrightarrow> serving s \<Longrightarrow> pc s = At_switch \<Longrightarrow> state (broker s) = started \<Longrightarrow>
    started_step (broker s) = (v, b', go) \<Longrightarrow>
    fstep s (s\<lparr>broker := b', vec_fds := v, serving := go\<rparr>)"
| call_poll: "\<not> crashed s \<Longrightarrow> serving s \<Longrightarrow> pc s = At_switch \<Longrightarrow> state (broker s) = wait_state \<Longrightarrow>
    fstep s (s\<lparr>pc := At_poll (unat (GetClientCount (broker s) + 1))\<rparr>)"
| return_poll: "\<not> crashed s \<Longrightarrow> serving s \<Longrightarrow> pc s = At_poll n \<Longrightarrow> n \<le> length (vec_fds s) \<Longrightarrow>
    fstep s (s\<lparr>broker := (if poll_failed e then SetState started (broker s) else broker s),
      vec_fds := poll_result e n (vec_fds s), pc := At_entry (cur_time e) 0 n []\<rparr>)"
| overrun: "\<not> crashed s \<Longrightarrow> serving s \<Longrightarrow> pc s = At_poll n \<Longrightarrow> length (vec_fds s) < n \<Longrightarrow>
    fstep s (s\<lparr>crashed := True\<rparr>)"
| entry: "\<not> crashed s \<Longrightarrow> serving s \<Longrightarrow> pc s = At_entry (cur_time e) i n dels \<Longrightarrow> i < n \<Longrightarrow>
    entry_step e i (vec_fds s) dels (broker s) = Inr (v, dels', b', leave) \<Longrightarrow>
    fstep s (s\<lparr>broker := b', vec_fds := v, pc := At_entry (cur_time e) (if leave then n else Suc i) n dels'\<rparr>)"
| entry_fault: "\<not> crashed s \<Longrightarrow> serving s \<Longrightarrow> pc s = At_entry (cur_time e) i n dels \<Longrightarrow> i < n \<Longrightarrow>
    entry_step e i (vec_fds s) dels (broker s) = Inl f \<Longrightarrow> fstep s (s\<lparr>crashed := True\<rparr>)"
| entries_done: "\<not> crashed s \<Longrightarrow> serving s \<Longrightarrow> pc s = At_entry t n n dels \<Longrightarrow>
    fstep s (s\<lparr>broker := (if dels \<noteq> [] then SetState started (broker s) else broker s), pc := At_close dels\<rparr>)"
| close: "\<not> crashed s \<Longrightarrow> serving s \<Longrightarrow> pc s = At_close (fd # fds) \<Longrightarrow>
    clients_at fd (broker s) = (Some r, b') \<Longrightarrow>
    fstep s (s\<lparr>broker := CloseConnection fd b', pc := At_close fds\<rparr>)"
| close_fault: "\<not> crashed s \<Longrightarrow> serving s \<Longrightarrow> pc s = At_close (fd # fds) \<Longrightarrow>
    clients_at fd (broker s) = (None, b') \<Longrightarrow> fstep s (s\<lparr>crashed := True\<rparr>)"
| closed: "\<not> crashed s \<Longrightarrow> serving s \<Longrightarrow> pc s = At_close [] \<Longrightarrow> fstep s (s\<lparr>pc := At_switch\<rparr>)"
| qos: "\<not> crashed s \<Longrightarrow> qos_step (broker s) = Inr b' \<Longrightarrow> fstep s (s\<lparr>broker := b'\<rparr>)"
| qos_fault: "\<not> crashed s \<Longrightarrow> qos_step (broker s) = Inl f \<Longrightarrow> fstep s (s\<lparr>crashed := True\<rparr>)"
| sender: "\<not> crashed s \<Longrightarrow> Execute_pop (commands (broker s)) = Some (c, cs) \<Longrightarrow>
    fstep s (s\<lparr>broker := (broker s)\<lparr>commands := cs\<rparr>\<rparr>)"

definition start_threads :: "Broker \<Rightarrow> threads" where
  "start_threads b = \<lparr>broker = b, vec_fds = [], serving = False, crashed = False, pc = At_switch\<rparr>"

section \<open>The invariant\<close>

lemma entry_step_evolves:
  assumes step: "entry_step e i v dels b = Inr (v', dels', b', leave)" and inv: "broker_inv b"
  shows "evolves b b'" and "length v' = length v"
proof -
  obtain fd ev where v: "v ! i = (fd, ev)" by (cases "v ! i")
  have serve: "evolves b b1" if "serve_entry e fd ev b = Inr (del, b1)" for del b1
    using that serve_data_evolves serve_closed_evolves serve_quiet_evolves inv
    by (cases ev) (auto simp: serve_entry_def)
  show "length v' = length v" using step by (auto simp: entry_step_def v Let_def rbind_eq_Inr split: if_splits)
  show "evolves b b'"
    using step inv by (auto simp: entry_step_def v Let_def rbind_eq_Inr split: if_splits intro: serve evo)
qed

text \<open>
  A server thread runs exactly when the broker is not in its first state, so there is never more
  than one; the entries still to be handled are in the poll set.
\<close>

fun entries_ok :: "pollfd list \<Rightarrow> server_pc \<Rightarrow> bool" where
  "entries_ok v (At_entry t i n dels) \<longleftrightarrow> i \<le> n \<and> n \<le> length v"
| "entries_ok v _ \<longleftrightarrow> True"

definition threads_inv :: "threads \<Rightarrow> bool" where
  "threads_inv s \<longleftrightarrow> broker_inv (broker s) \<and> (serving s \<longleftrightarrow> state (broker s) \<noteq> init) \<and>
     (\<not> serving s \<longrightarrow> pc s = At_switch) \<and> entries_ok (vec_fds s) (pc s)"

lemma main_step_thread:
  "server_threads (main_step fd i t b) \<noteq> server_threads b \<longleftrightarrow> state (main_step fd i t b) \<noteq> state b"
  "state b \<noteq> init \<Longrightarrow> state (main_step fd i t b) = state b"
  "state (main_step fd i t b) = state b \<or> state (main_step fd i t b) = started"
  by (simp_all add: main_step_def AddClient_def Let_def control_command_def GetState_def Start_def)

lemma length_poll_result [simp]: "n \<le> length v \<Longrightarrow> length (poll_result e n v) = length v"
  by (simp add: poll_result_def)

lemma started_step_state:
  "started_step b = (v, b', go) \<Longrightarrow> state b' = (if go then wait_state else init)"
  by (auto simp: started_step_def Let_def SetState_def split: if_splits option.splits prod.splits)

lemma state_SetState: "state (SetState t b) = t"
  by (simp add: SetState_def)

lemma fstep_inv: "fstep s s' \<Longrightarrow> threads_inv s \<Longrightarrow> threads_inv s'"
proof (induction rule: fstep.induct)
  case (main s b' fd i t new)
  then have inv: "broker_inv b'" by (simp add: threads_inv_def main_step_inv)
  show ?case
    using main main_step_thread [where fd = fd and i = i and t = t and b = "broker s"] inv
    by (auto simp: threads_inv_def)
next
  case (build s v b' go)
  then have "broker_inv b'" using started_step_inv [of "broker s"] by (simp add: threads_inv_def)
  moreover have "state b' = (if go then wait_state else init)" by (rule started_step_state) fact
  ultimately show ?case using build by (auto simp: threads_inv_def)
next
  case (entry s e i n dels v dels' b' leave)
  have "evolves (broker s) b'" "length v = length (vec_fds s)"
    using entry_step_evolves entry.hyps(5) entry.prems by (auto simp: threads_inv_def)
  then show ?case using entry by (auto simp: threads_inv_def evolves_def)
next
  case (close s fd fds r b')
  have "b' = broker s" using close.hyps(4) clients_at_deref [of fd "broker s"] by simp
  moreover have "evolves (broker s) (CloseConnection fd (broker s))"
    using close.prems by (auto simp: threads_inv_def intro: evo)
  ultimately show ?case using close by (auto simp: threads_inv_def evolves_def)
next
  case (qos s b')
  then show ?case by (auto simp: threads_inv_def qos_step_idle)
next
  case (sender s c cs)
  then show ?case by (auto simp: threads_inv_def broker_inv_def clients_inv_def storage_inv_def)
qed (auto simp: threads_inv_def SetState_inv state_SetState split: if_splits)

lemma threads_reachable_inv:
  "fstep\<^sup>*\<^sup>* (start_threads b) s \<Longrightarrow> broker_inv b \<Longrightarrow> state b = init \<Longrightarrow> threads_inv s"
proof (induction rule: rtranclp_induct)
  case base
  then show ?case by (simp add: threads_inv_def start_threads_def)
qed (rule fstep_inv)

section \<open>Uninterrupted passes\<close>

text \<open>
  From an entry on, with nothing else running, the entries are handled as the loop of \<open>Server\<close> does;
  \<open>s\<close> is the state before the entry.
\<close>

lemma entry_step_loop:
  assumes "i < n" and "n \<le> length v" and cur: "v ! i = (fd, ev)"
    and loop: "wait_loop e (take (n - i) (drop i v)) dels b = r"
  shows "case entry_step e i v dels b of
      Inl f \<Rightarrow> r = Inl f
    | Inr (v1, dels1, b1, leave) \<Rightarrow>
        if leave then r = Inr (take (n - i) (drop i v1), dels1, b1) \<and> take i v1 = take i v \<and> drop n v1 = drop n v
        else take i v1 = take i v \<and> drop n v1 = drop n v \<and> drop (Suc i) v1 = drop (Suc i) v \<and>
          r = rbind (wait_loop e (take (n - Suc i) (drop (Suc i) v)) dels1 b1)
            (\<lambda>(vs, dels, b). Inr (v1 ! i # vs, dels, b))"
proof -
  have split: "take (n - i) (drop i v) = (fd, ev) # take (n - Suc i) (drop (Suc i) v)"
  proof -
    have "drop i v = (fd, ev) # drop (Suc i) v" using assms(1,2) cur Cons_nth_drop_Suc [of i v] by simp
    moreover have "n - i = Suc (n - Suc i)" using assms(1) by simp
    ultimately show ?thesis by (simp only: take_Suc_Cons)
  qed
  have len: "i < length v" using assms by simp
  have upd: "take (n - i) (drop i (v[i := x])) = x # take (n - Suc i) (drop (Suc i) v)"
    "drop (Suc i) (v[i := x]) = drop (Suc i) v" "drop n (v[i := x]) = drop n v" for x
  proof -
    have "drop i (v[i := x]) = x # drop (Suc i) v"
      using len Cons_nth_drop_Suc [of i "v[i := x]"] by simp
    moreover have "n - i = Suc (n - Suc i)" using assms(1) by simp
    ultimately show "take (n - i) (drop i (v[i := x])) = x # take (n - Suc i) (drop (Suc i) v)"
      by (simp only: take_Suc_Cons)
  qed (use assms(1) in simp_all)
  show ?thesis
  proof (cases "ev \<noteq> OtherEvents \<and> fd = control_sock b")
    case True
    then show ?thesis
      unfolding loop [symmetric] split using len cur by (cases ev) (auto simp: entry_step_def upd Let_def)
  next
    case False
    then have "r = rbind (serve_entry e fd ev b) (\<lambda>(del, b).
        rbind (wait_loop e (take (n - Suc i) (drop (Suc i) v)) (if del then dels @ [fd] else dels) b) (\<lambda>(vs, dels, b).
        Inr ((fd, if ev = Pollin then NoEvents else ev) # vs, dels, b)))"
      unfolding loop [symmetric] split by (cases ev) (simp_all add: serve_entry_def)
    moreover have "entry_step e i v dels b = rbind (serve_entry e fd ev b) (\<lambda>(del, b).
        Inr (if ev = Pollin then v[i := (fd, NoEvents)] else v, if del then dels @ [fd] else dels, b, False))"
      using False cur by (cases ev) (simp_all add: entry_step_def)
    ultimately show ?thesis
      using len cur upd by (cases "serve_entry e fd ev b") (auto simp del: if_split split del: if_split split: if_split)
  qed
qed

text \<open>A run that ends in \<open>s'\<close>, or in a fault.\<close>

definition runs :: "threads \<Rightarrow> threads res \<Rightarrow> bool" where
  "runs s r \<longleftrightarrow> (case r of Inl f \<Rightarrow> \<exists>s'. fstep\<^sup>*\<^sup>* s s' \<and> crashed s' | Inr s' \<Rightarrow> fstep\<^sup>*\<^sup>* s s')"

lemma runs_simps [simp]:
  "runs s (Inl f) \<longleftrightarrow> (\<exists>s'. fstep\<^sup>*\<^sup>* s s' \<and> crashed s')" "runs s (Inr s') \<longleftrightarrow> fstep\<^sup>*\<^sup>* s s'"
  by (simp_all add: runs_def)

lemma runs_step: "fstep s s1 \<Longrightarrow> runs s1 r \<Longrightarrow> runs s r"
  by (cases r) (auto intro: converse_rtranclp_into_rtranclp)

lemma runs_then:
  "runs s (rbind m (\<lambda>x. Inr (k x))) \<Longrightarrow> (\<And>x. m = Inr x \<Longrightarrow> runs (k x) (f x)) \<Longrightarrow> runs s (rbind m f)"
  by (cases m) (auto simp: runs_def split: sum.splits intro: rtranclp_trans)

lemma crash_runs: "fstep s (s\<lparr>crashed := True\<rparr>) \<Longrightarrow> runs s (Inl f)"
  by (auto intro!: exI [of _ "s\<lparr>crashed := True\<rparr>"])

lemma entries_run:
  assumes "\<not> crashed s" and "serving s" and "pc s = At_entry (cur_time e) i n dels" and "i \<le> n" and "n \<le> length (vec_fds s)"
  shows "runs s (rbind (wait_loop e (take (n - i) (drop i (vec_fds s))) dels (broker s)) (\<lambda>(vs, dels, b).
    Inr (s\<lparr>broker := b, vec_fds := take i (vec_fds s) @ vs @ drop n (vec_fds s), pc := At_entry (cur_time e) n n dels\<rparr>)))"
  using assms
proof (induction "n - i" arbitrary: s i dels)
  case 0
  then have "i = n" by simp
  then show ?case using 0 by (cases s) simp
next
  case (Suc k)
  let ?v = "vec_fds s"
  have less: "i < n" using Suc.hyps(2) by simp
  obtain fd ev where cur: "?v ! i = (fd, ev)" by (cases "?v ! i")
  note step = entry_step_loop [OF less Suc.prems(5) cur refl, of e dels "broker s"]
  show ?case
  proof (cases "entry_step e i ?v dels (broker s)")
    case (Inl f)
    have "fstep s (s\<lparr>crashed := True\<rparr>)"
      by (rule fstep.entry_fault [OF Suc.prems(1-3) less Inl])
    then show ?thesis using step Inl by (simp add: crash_runs del: runs_simps)
  next
    case (Inr x)
    obtain v1 dels1 b1 leave where x: "x = (v1, dels1, b1, leave)" by (cases x)
    define s1 where "s1 = s\<lparr>broker := b1, vec_fds := v1, pc := At_entry (cur_time e) (if leave then n else Suc i) n dels1\<rparr>"
    have s1: "fstep s s1" unfolding s1_def by (rule fstep.entry [OF Suc.prems(1-3) less Inr [unfolded x]])
    have len: "length v1 = length ?v"
      using Inr x by (auto simp: entry_step_def Let_def cur rbind_eq_Inr split: if_splits)
    show ?thesis
    proof (cases leave)
      case True
      then have l: "wait_loop e (take (n - i) (drop i ?v)) dels (broker s) = Inr (take (n - i) (drop i v1), dels1, b1)"
          and v1: "take i v1 = take i ?v" "drop n v1 = drop n ?v"
        using step Inr x by simp_all
      have "take i ?v @ take (n - i) (drop i v1) @ drop n ?v = v1"
      proof -
        have "take (n - i) (drop i v1) @ drop n v1 = drop i v1"
          using append_take_drop_id [of "n - i" "drop i v1"] less by simp
        then show ?thesis using v1 by (metis append_take_drop_id)
      qed
      then show ?thesis using s1 True by (simp add: l s1_def r_into_rtranclp)
    next
      case False
      then have l: "wait_loop e (take (n - i) (drop i ?v)) dels (broker s) =
          rbind (wait_loop e (take (n - Suc i) (drop (Suc i) v1)) dels1 b1) (\<lambda>(vs, dels, b). Inr (v1 ! i # vs, dels, b))"
          and v1: "take i v1 = take i ?v" "drop n v1 = drop n ?v"
        using step Inr x by simp_all
      have "take (Suc i) v1 = take i ?v @ [v1 ! i]"
        using v1(1) less Suc.prems(5) len by (simp add: take_Suc_conv_app_nth)
      moreover have "runs s1 (rbind (wait_loop e (take (n - Suc i) (drop (Suc i) (vec_fds s1))) dels1 (broker s1)) (\<lambda>(vs, dels, b).
          Inr (s1\<lparr>broker := b, vec_fds := take (Suc i) (vec_fds s1) @ vs @ drop n (vec_fds s1),
            pc := At_entry (cur_time e) n n dels\<rparr>)))"
        using Suc.prems less len False Suc.hyps(2) by (intro Suc.hyps(1)) (simp_all add: s1_def)
      ultimately have "runs s1 (rbind (wait_loop e (take (n - i) (drop i ?v)) dels (broker s)) (\<lambda>(vs, dels, b).
          Inr (s\<lparr>broker := b, vec_fds := take i ?v @ vs @ drop n ?v, pc := At_entry (cur_time e) n n dels\<rparr>)))"
        unfolding l using v1(2)
        by (cases "wait_loop e (take (n - Suc i) (drop (Suc i) v1)) dels1 b1") (auto simp: s1_def)
      then show ?thesis by (rule runs_step [OF s1])
    qed
  qed
qed

lemma close_run:
  assumes "\<not> crashed s" and "serving s" and "pc s = At_close fds"
  shows "runs s (rbind (close_loop fds (broker s)) (\<lambda>b. Inr (s\<lparr>broker := b, pc := At_switch\<rparr>)))"
  using assms
proof (induction fds arbitrary: s)
  case Nil
  have "fstep s (s\<lparr>pc := At_switch\<rparr>)" by (rule fstep.closed) (use Nil in simp_all)
  moreover have "s\<lparr>broker := broker s, pc := At_switch\<rparr> = s\<lparr>pc := At_switch\<rparr>" by simp
  ultimately show ?case by (simp add: r_into_rtranclp)
next
  case (Cons fd fds)
  obtain p b where at: "clients_at fd (broker s) = (p, b)" by (cases "clients_at fd (broker s)")
  show ?case
  proof (cases p)
    case None
    have "fstep s (s\<lparr>crashed := True\<rparr>)" by (rule fstep.close_fault [OF Cons.prems at [unfolded None]])
    then show ?thesis using at None by (simp add: crash_runs del: runs_simps)
  next
    case (Some r)
    define s1 where "s1 = s\<lparr>broker := CloseConnection fd b, pc := At_close fds\<rparr>"
    have s1: "fstep s s1" unfolding s1_def by (rule fstep.close [OF Cons.prems at [unfolded Some]])
    have "b = broker s" using at Some clients_at_deref [of fd "broker s"] by simp
    moreover have "runs s1 (rbind (close_loop fds (broker s1)) (\<lambda>b. Inr (s1\<lparr>broker := b, pc := At_switch\<rparr>)))"
      using Cons.prems by (intro Cons.IH) (simp_all add: s1_def)
    ultimately show ?thesis using runs_step [OF s1] at Some by (simp add: s1_def del: runs_simps)
  qed
qed

lemma wait_step_run:
  assumes s: "\<not> crashed s" "serving s" "pc s = At_switch" and st: "state (broker s) = wait_state"
  shows "runs s (rbind (wait_step e (vec_fds s) (broker s)) (\<lambda>(v, b). Inr (s\<lparr>broker := b, vec_fds := v\<rparr>)))"
proof -
  let ?b = "broker s" and ?v = "vec_fds s"
  define n where "n = unat (GetClientCount ?b + 1)"
  define s1 where "s1 = s\<lparr>pc := At_poll n\<rparr>"
  have s1: "fstep s s1" unfolding s1_def n_def by (rule fstep.call_poll) (use s st in simp_all)
  have pc1: "\<not> crashed s1" "serving s1" "pc s1 = At_poll n" using s by (simp_all add: s1_def)
  show ?thesis
  proof (cases "length ?v < n")
    case True
    have "fstep s1 (s1\<lparr>crashed := True\<rparr>)" by (rule fstep.overrun [OF pc1]) (simp add: s1_def True)
    moreover have "wait_step e ?v ?b = Inl OobRead" using True by (simp add: wait_step_def n_def)
    ultimately show ?thesis using runs_step [OF s1 crash_runs] by (simp del: runs_simps)
  next
    case False
    define b0 where "b0 = (if poll_failed e then SetState started ?b else ?b)"
    define v0 where "v0 = poll_result e n ?v"
    define s2 where "s2 = s1\<lparr>broker := b0, vec_fds := v0, pc := At_entry (cur_time e) 0 n []\<rparr>"
    have "s2 = s1\<lparr>broker := (if poll_failed e then SetState started (broker s1) else broker s1),
        vec_fds := poll_result e n (vec_fds s1), pc := At_entry (cur_time e) 0 n []\<rparr>"
      by (simp add: s2_def b0_def v0_def s1_def)
    then have s2: "fstep s1 s2" using fstep.return_poll [OF pc1, of e] False by (simp only:) (simp add: s1_def)
    have take: "take n v0 = (if poll_failed e then take n ?v else map (\<lambda>(fd, _). (fd, polled e fd)) (take n ?v))"
      "drop n v0 = drop n ?v" "length v0 = length ?v"
      using False by (simp_all add: v0_def poll_result_def)
    define fin where "fin = (\<lambda>(vs, dels, b). rbind (if dels \<noteq> [] then close_loop dels (SetState started b) else Inr b)
      (\<lambda>b. Inr (vs @ drop n ?v, b)))"
    have pass: "wait_step e ?v ?b = rbind (wait_loop e (take n v0) [] b0) fin"
      using False by (simp only: wait_step_def Let_def n_def [symmetric] b0_def [symmetric] fin_def [symmetric]
          take if_False)
    define s3 where "s3 = (\<lambda>(vs, dels, b). s2\<lparr>broker := b, vec_fds := vs @ drop n ?v,
      pc := At_entry (cur_time e) n n dels\<rparr>)"
    have "runs s2 (rbind (wait_loop e (take n v0) [] b0) (\<lambda>x. Inr (s3 x)))"
      using entries_run [of s2 e 0 n "[]"] s False take
      by (simp add: s2_def s1_def s3_def case_prod_unfold del: runs_simps)
    then have "runs s2 (rbind (wait_loop e (take n v0) [] b0) (\<lambda>x. rbind (fin x) (\<lambda>(v, b).
        Inr (s\<lparr>broker := b, vec_fds := v\<rparr>))))"
    proof (rule runs_then)
      fix x assume "wait_loop e (take n v0) [] b0 = Inr x"
      obtain vs dels b where x: "x = (vs, dels, b)" by (cases x)
      let ?c = "if dels \<noteq> [] then SetState started b else b"
      define s4 where "s4 = s3 x\<lparr>broker := ?c, pc := At_close dels\<rparr>"
      have s3: "\<not> crashed (s3 x)" "serving (s3 x)" "pc (s3 x) = At_entry (cur_time e) n n dels" "broker (s3 x) = b"
        using s by (simp_all add: s3_def x s2_def s1_def)
      have "s4 = (s3 x)\<lparr>broker := (if dels \<noteq> [] then SetState started (broker (s3 x)) else broker (s3 x)),
          pc := At_close dels\<rparr>"
        by (simp only: s4_def s3(4))
      then have s4: "fstep (s3 x) s4" by (simp only:) (rule fstep.entries_done [OF s3(1-3)])
      have "runs s4 (rbind (close_loop dels (broker s4)) (\<lambda>b. Inr (s4\<lparr>broker := b, pc := At_switch\<rparr>)))"
        by (rule close_run) (use s3 in \<open>simp_all add: s4_def\<close>)
      moreover have "s4\<lparr>broker := b', pc := At_switch\<rparr> = s\<lparr>broker := b', vec_fds := vs @ drop n ?v\<rparr>" for b'
        using s(3) by (simp add: s4_def s3_def x s2_def s1_def)
      moreover have "close_loop dels (broker s4) = (if dels \<noteq> [] then close_loop dels (SetState started b) else Inr b)"
        by (simp add: s4_def)
      ultimately have "runs s4 (rbind (fin x) (\<lambda>(v, b). Inr (s\<lparr>broker := b, vec_fds := v\<rparr>)))"
        by (simp add: fin_def x rbind_assoc del: runs_simps)
      then show "runs (s3 x) (rbind (fin x) (\<lambda>(v, b). Inr (s\<lparr>broker := b, vec_fds := v\<rparr>)))"
        by (rule runs_step [OF s4])
    qed
    then have "runs s2 (rbind (wait_step e ?v ?b) (\<lambda>(v, b). Inr (s\<lparr>broker := b, vec_fds := v\<rparr>)))"
      by (simp add: pass rbind_assoc del: runs_simps)
    then show ?thesis by (rule runs_step [OF s1 runs_step [OF s2]])
  qed
qed

section \<open>The coarser program\<close>

definition threads_of :: "program \<Rightarrow> threads" where
  "threads_of p = \<lparr>broker = broker p, vec_fds = vec_fds p, serving = serving p, crashed = crashed p, pc = At_switch\<rparr>"

lemma threads_of_simps [simp]:
  "broker (threads_of p) = broker p" "vec_fds (threads_of p) = vec_fds p" "serving (threads_of p) = serving p"
  "crashed (threads_of p) = crashed p" "pc (threads_of p) = At_switch"
  by (simp_all add: threads_of_def)

definition same_outcome :: "program \<Rightarrow> threads \<Rightarrow> bool" where
  "same_outcome p s \<longleftrightarrow> crashed s = crashed p \<and> (\<not> crashed p \<longrightarrow> s = threads_of p)"

lemma server_step_run:
  assumes p: "\<not> crashed p" "serving p"
  shows "runs (threads_of p) (rbind (server_step e (vec_fds p) (broker p))
    (\<lambda>(v, b, go). Inr (threads_of (p\<lparr>broker := b, vec_fds := v, serving := go\<rparr>))))"
proof (cases "state (broker p)")
  case init
  have "threads_of (p\<lparr>broker := broker p, vec_fds := vec_fds p, serving := True\<rparr>) = threads_of p"
    using p by (simp add: threads_of_def)
  then show ?thesis using init by (simp add: server_step_def)
next
  case started
  obtain v b go where st: "started_step (broker p) = (v, b, go)" by (cases "started_step (broker p)")
  have "fstep (threads_of p) ((threads_of p)\<lparr>broker := b, vec_fds := v, serving := go\<rparr>)"
    by (rule fstep.build [OF _ _ _ _ st [folded threads_of_simps(1)]]) (use p started in simp_all)
  then show ?thesis using st started by (simp add: server_step_def threads_of_def r_into_rtranclp)
next
  case wait_state
  have "runs (threads_of p) (rbind (wait_step e (vec_fds p) (broker p))
      (\<lambda>(v, b). Inr ((threads_of p)\<lparr>broker := b, vec_fds := v\<rparr>)))"
    using wait_step_run [of "threads_of p" e] p wait_state by (simp del: runs_simps)
  moreover have "(threads_of p)\<lparr>broker := b, vec_fds := v\<rparr> =
      threads_of (p\<lparr>broker := b, vec_fds := v, serving := True\<rparr>)" for b v
    using p by (simp add: threads_of_def)
  ultimately show ?thesis using wait_state
    by (simp add: server_step_def rbind_assoc case_prod_unfold del: runs_simps)
qed

lemma pstep_run: "pstep p p' \<Longrightarrow> \<exists>s. fstep\<^sup>*\<^sup>* (threads_of p) s \<and> same_outcome p' s"
proof (induction rule: pstep.induct)
  case (main p b' fd i t)
  let ?new = "server_threads b' \<noteq> server_threads (broker p)"
  let ?p = "p\<lparr>broker := b', serving := serving p \<or> ?new, vec_fds := (if ?new then [] else vec_fds p)\<rparr>"
  have "fstep (threads_of p) ((threads_of p)\<lparr>broker := b', vec_fds := (if ?new then [] else vec_fds (threads_of p)),
      serving := serving (threads_of p) \<or> ?new, pc := (if ?new then At_switch else pc (threads_of p))\<rparr>)"
    by (rule fstep.main [where fd = fd and i = i and t = t]) (use main in simp_all)
  also have "(threads_of p)\<lparr>broker := b', vec_fds := (if ?new then [] else vec_fds (threads_of p)),
      serving := serving (threads_of p) \<or> ?new, pc := (if ?new then At_switch else pc (threads_of p))\<rparr> = threads_of ?p"
    by (simp add: threads_of_def)
  finally have "fstep (threads_of p) (threads_of ?p)" .
  then show ?case by (auto simp: same_outcome_def intro: r_into_rtranclp)
next
  case (serve p e v b' go)
  then show ?case using server_step_run [of p e] by (auto simp: same_outcome_def)
next
  case (serve_fault p e f)
  then show ?case using server_step_run [of p e] by (auto simp: same_outcome_def)
next
  case (qos p b')
  then have "fstep (threads_of p) ((threads_of p)\<lparr>broker := b'\<rparr>)" by (intro fstep.qos) simp_all
  then show ?case by (auto simp: same_outcome_def threads_of_def intro: r_into_rtranclp)
next
  case (qos_fault p f)
  then have "fstep (threads_of p) ((threads_of p)\<lparr>crashed := True\<rparr>)" by (intro fstep.qos_fault) simp_all
  then show ?case by (auto simp: same_outcome_def intro!: exI [of _ "(threads_of p)\<lparr>crashed := True\<rparr>"] r_into_rtranclp)
next
  case (sender p c cs)
  then have "fstep (threads_of p) ((threads_of p)\<lparr>broker := (broker p)\<lparr>commands := cs\<rparr>\<rparr>)"
    using fstep.sender [of "threads_of p" c cs] by simp
  then show ?case by (auto simp: same_outcome_def threads_of_def intro: r_into_rtranclp)
qed

lemma pstep_alive: "pstep p p' \<Longrightarrow> \<not> crashed p"
  by (induction rule: pstep.induct) simp_all

lemma program_runs: "pstep\<^sup>*\<^sup>* (start_program b) p \<Longrightarrow> \<exists>s. fstep\<^sup>*\<^sup>* (start_threads b) s \<and> same_outcome p s"
proof (induction rule: rtranclp_induct)
  case base
  have "same_outcome (start_program b) (start_threads b)"
    by (simp add: same_outcome_def threads_of_def start_program_def start_threads_def)
  then show ?case by blast
next
  case (step p p')
  then obtain s where "fstep\<^sup>*\<^sup>* (start_threads b) s" "same_outcome p s" by blast
  moreover have "\<not> crashed p" using step.hyps(2) by (rule pstep_alive)
  ultimately have "fstep\<^sup>*\<^sup>* (start_threads b) (threads_of p)" by (simp add: same_outcome_def)
  then show ?case using pstep_run [OF step.hyps(2)] by (auto intro: rtranclp_trans)
qed

end
