(* ===== verification/Descriptors.thy ===== *)
theory Descriptors
  imports Interleaving
begin

text \<open>
  The descriptors the server thread looks up. It indexes the map of clients with the descriptors of
  its poll set and dereferences what it finds. As long as no packet makes the broker close another
  connection, each of them is the control socket or belongs to a client, and the descriptors it
  gives up are closed once.
\<close>

section \<open>Runs without takeover\<close>

definition fds_of :: "Broker \<Rightarrow> int set" where
  "fds_of b = fst ` set (clients b)"

text \<open>
  Steps of the program in which the turn of an entry of the poll set removes no client, and after
  which the control socket is not the descriptor of a client.
\<close>

definition no_takeover :: "threads \<Rightarrow> threads \<Rightarrow> bool" where
  "no_takeover s s' \<longleftrightarrow> fstep s s' \<and> control_sock (broker s') \<notin> fds_of (broker s') \<and>
     (case pc s of At_entry t i n dels \<Rightarrow> fds_of (broker s) \<subseteq> fds_of (broker s') | _ \<Rightarrow> True)"

lemma no_takeover_fsteps: "no_takeover\<^sup>*\<^sup>* s s' \<Longrightarrow> fstep\<^sup>*\<^sup>* s s'"
  by (induction rule: rtranclp_induct) (auto simp: no_takeover_def intro: rtranclp.rtrancl_into_rtrancl)

definition is_connected :: "Broker \<Rightarrow> int \<Rightarrow> bool" where
  "is_connected b fd \<longleftrightarrow> fst (clients_at fd b) \<noteq> None"

text \<open>The look-ups the server thread has before it, from the point where it is.\<close>

fun lookups_ok :: "Broker \<Rightarrow> pollfd list \<Rightarrow> server_pc \<Rightarrow> bool" where
  "lookups_ok b v (At_entry t i n dels) \<longleftrightarrow>
     list_all (\<lambda>(fd, _). fd = control_sock b \<or> is_connected b fd) (take (n - i) (drop i v))"
| "lookups_ok b v (At_close fds) \<longleftrightarrow> distinct fds \<and> list_all (is_connected b) fds"
| "lookups_ok b v _ \<longleftrightarrow> True"

lemma is_connected_iff: "broker_inv b \<Longrightarrow> is_connected b fd \<longleftrightarrow> fd \<in> fds_of b"
proof
  assume inv: "broker_inv b"
  { assume "is_connected b fd"
    then obtain r where "clients_at fd b = (Some r, snd (clients_at fd b))"
      by (cases "clients_at fd b") (auto simp: is_connected_def)
    then have "(fd, Some r) \<in> set (clients b)" using clients_at_deref by blast
    then show "fd \<in> fds_of b" by (force simp: fds_of_def) }
  { assume "fd \<in> fds_of b"
    then obtain p where mem: "(fd, p) \<in> set (clients b)" by (auto simp: fds_of_def)
    then obtain r where "p = Some r" using inv by (force simp: broker_inv_def clients_inv_def)
    moreover have "clients_at fd b = (p, b)"
      using inv mem by (intro clients_at_present) (simp_all add: broker_inv_def)
    ultimately show "is_connected b fd" by (simp add: is_connected_def) }
qed

section \<open>The invariant of the poll set\<close>

definition poll_set_ok :: "Broker \<Rightarrow> pollfd list \<Rightarrow> bool" where
  "poll_set_ok b v \<longleftrightarrow> distinct (map fst v) \<and> fst ` set v \<subseteq> insert (control_sock b) (fds_of b)"

fun polled_inv :: "Broker \<Rightarrow> pollfd list \<Rightarrow> server_pc \<Rightarrow> bool" where
  "polled_inv b v At_switch \<longleftrightarrow> (state b = wait_state \<longrightarrow> poll_set_ok b v)"
| "polled_inv b v (At_poll n) \<longleftrightarrow> poll_set_ok b v"
| "polled_inv b v (At_entry t i n dels) \<longleftrightarrow> poll_set_ok b v \<and> distinct dels \<and>
     set dels \<subseteq> fst ` set (take i v) \<and> set dels \<subseteq> fds_of b"
| "polled_inv b v (At_close fds) \<longleftrightarrow> distinct fds \<and> set fds \<subseteq> fds_of b \<and>
     (state b \<noteq> started \<longrightarrow> fds = [] \<and> poll_set_ok b v)"

lemma polled_inv_mono:
  assumes "polled_inv b v p" and "fds_of b \<subseteq> fds_of b'" and "control_sock b' = control_sock b"
    and "state b' = state b \<or> state b' = started"
  shows "polled_inv b' v p"
  using assms by (cases p) (auto simp: poll_set_ok_def)

lemma polled_inv_lookups:
  assumes "polled_inv b v p" and "broker_inv b"
  shows "lookups_ok b v p"
proof (cases p)
  case (At_entry t i n dels)
  have "set (take (n - i) (drop i v)) \<subseteq> set v" by (meson in_set_dropD in_set_takeD subsetI)
  then show ?thesis using assms At_entry
    by (fastforce simp: list_all_iff is_connected_iff poll_set_ok_def)
qed (use assms in \<open>auto simp: list_all_iff is_connected_iff\<close>)

lemma serve_entry_connected:
  assumes "serve_entry e fd ev b = Inr (del, b')" and "broker_inv b"
  shows "fd \<in> fds_of b"
proof -
  obtain p b0 where at: "clients_at fd b = (p, b0)" by (cases "clients_at fd b")
  have "p \<noteq> None" using assms(1) at
    by (cases p; cases ev) (auto simp: serve_entry_def serve_data_def serve_closed_def serve_quiet_def)
  then show ?thesis using is_connected_iff [OF assms(2), of fd] at by (simp add: is_connected_def)
qed

lemma entry_step_dels:
  assumes "entry_step e i v dels b = Inr (v', dels', b', leave)" and "broker_inv b" and "i < length v"
  shows "map fst v' = map fst v" and "dels' = dels \<or> dels' = dels @ [fst (v ! i)] \<and> fst (v ! i) \<in> fds_of b"
proof -
  obtain fd ev where v: "v ! i = (fd, ev)" by (cases "v ! i")
  have "map fst (v[i := (fd, NoEvents)]) = map fst v"
    using assms(3) v by (simp add: map_update list_update_same_conv)
  then show "map fst v' = map fst v"
    using assms(1) by (auto simp: entry_step_def v Let_def rbind_eq_Inr split: if_splits)
  show "dels' = dels \<or> dels' = dels @ [fst (v ! i)] \<and> fst (v ! i) \<in> fds_of b"
    using assms(1) serve_entry_connected [OF _ assms(2)]
    by (auto simp: entry_step_def v Let_def rbind_eq_Inr split: if_splits)
qed

section \<open>Every step keeps it\<close>

lemma started_step_polled:
  assumes "started_step b = (v, b', go)" and "broker_inv b" and "control_sock b \<notin> fds_of b"
  shows "polled_inv b' v At_switch"
proof -
  have "distinct (map fst (clients b))" using assms(2) by (simp add: broker_inv_def clients_inv_def un_ok_def)
  moreover have "map (fst \<circ> (\<lambda>c :: int \<times> nat option. (fst c, NoEvents))) = map fst" by (simp add: comp_def)
  ultimately show ?thesis using assms(1,3)
    by (auto simp: started_step_def Let_def SetState_def poll_set_ok_def fds_of_def split: if_splits option.splits prod.splits)
qed

lemma fst_poll_result: "n \<le> length v \<Longrightarrow> map fst (poll_result e n v) = map fst v"
proof -
  have "map fst (poll_result e n v) = map fst (take n v @ drop n v)"
    by (simp add: poll_result_def case_prod_unfold comp_def del: append_take_drop_id)
      (simp flip: map_append)
  then show ?thesis by simp
qed

lemma poll_set_ok_fds:
  assumes "map fst v' = map fst v" and "control_sock b' = control_sock b" and "fds_of b \<subseteq> fds_of b'"
  shows "poll_set_ok b v \<Longrightarrow> poll_set_ok b' v'"
proof -
  have "fst ` set v' = fst ` set v" using assms(1) by (metis list.set_map)
  then show "poll_set_ok b v \<Longrightarrow> poll_set_ok b' v'" using assms by (auto simp: poll_set_ok_def)
qed

lemma entry_step_polled:
  assumes step: "entry_step e i v dels b = Inr (v', dels', b', leave)" and inv: "broker_inv b"
    and i: "i < n" "n \<le> length v" and keep: "fds_of b \<subseteq> fds_of b'"
    and pre: "polled_inv b v (At_entry t i n dels)"
  shows "polled_inv b' v' (At_entry t (if leave then n else Suc i) n dels')"
proof -
  note fsts = entry_step_dels [OF step inv, of] and ev = entry_step_evolves [OF step inv]
  have len: "i < length v" using i by simp
  have take: "fst ` set (take j v') = fst ` set (take j v)" for j
    using fsts(1) [OF len] by (metis list.set_map take_map)
  have cur: "fst (v ! i) \<in> fst ` set (take (Suc i) v)" using len by (simp add: take_Suc_conv_app_nth)
  have new: "fst (v ! i) \<notin> fst ` set (take i v)"
  proof
    assume "fst (v ! i) \<in> fst ` set (take i v)"
    then obtain j where "j < i" "map fst v ! j = map fst v ! i"
      using len by (auto simp: in_set_conv_nth)
    then show False using pre len nth_eq_iff_index_eq [of "map fst v" j i] by (simp add: poll_set_ok_def)
  qed
  have mono: "fst ` set (take i v) \<subseteq> fst ` set (take (Suc i) v)" "fst ` set (take (Suc i) v) \<subseteq> fst ` set (take n v)"
    using i by (intro image_mono set_take_subset_set_take; simp)+
  have "poll_set_ok b' v'"
    using poll_set_ok_fds [OF fsts(1) [OF len] _ keep] ev(1) pre by (simp add: evolves_def)
  moreover have "distinct dels' \<and> set dels' \<subseteq> fst ` set (take (Suc i) v) \<and> set dels' \<subseteq> fds_of b'"
    using fsts(2) [OF len]
  proof
    assume "dels' = dels"
    then show ?thesis using pre mono(1) keep by (simp only: polled_inv.simps) (blast intro: subset_trans)
  next
    assume "dels' = dels @ [fst (v ! i)] \<and> fst (v ! i) \<in> fds_of b"
    then show ?thesis using pre mono(1) keep cur new by simp (blast intro: subset_trans)
  qed
  ultimately show ?thesis using mono(2) by (auto simp only: take polled_inv.simps split: if_split)
qed

lemma main_step_fds: "fds_of b \<subseteq> fds_of (main_step fd i t b)"
  by (auto simp: main_step_def AddClient_def fds_of_def un_insert_def Let_def control_command_def Start_def SetState_def)

lemma main_step_control: "control_sock (main_step fd i t b) = control_sock b"
  by (simp add: main_step_def AddClient_def Let_def control_command_def Start_def SetState_def)

lemma no_takeover_polled:
  assumes "no_takeover s s'" and "threads_inv s" and "control_sock (broker s) \<notin> fds_of (broker s)"
    and "polled_inv (broker s) (vec_fds s) (pc s)"
  shows "polled_inv (broker s') (vec_fds s') (pc s')"
proof -
  have "fstep s s'" using assms(1) by (simp add: no_takeover_def)
  then show ?thesis using assms
  proof (induction rule: fstep.induct)
    case (main s b' fd i t new)
    note st = main_step_thread [where fd = fd and i = i and t = t and b = "broker s", folded main(2)]
    show ?case
    proof (cases new)
      case True
      then have "state b' = started" using st main(3) by auto
      then show ?thesis using True by simp
    next
      case False
      then have "state b' = state (broker s)" using st(1) main(3) by simp
      with polled_inv_mono [OF main.prems(4), of b'] show ?thesis
        using main_step_fds [of "broker s" fd i t] main_step_control [of fd i t "broker s"] main(2) False by simp
    qed
  next
    case (build s v b' go)
    then show ?case using started_step_polled by (simp add: threads_inv_def)
  next
    case (entry s e i n dels v dels' b' leave)
    then show ?case
      using entry_step_polled [OF entry.hyps(5) _ entry.hyps(4)] by (simp add: threads_inv_def no_takeover_def)
  next
    case (close s fd fds r b')
    have b': "b' = broker s" using close.hyps(4) clients_at_deref [of fd "broker s"] by simp
    then have "fds_of (CloseConnection fd b') = fds_of (broker s) - {fd}"
      by (auto simp: fds_of_def DelClient_clients kv_erase_def)
    moreover have "state (CloseConnection fd b') = started"
      using close b' by (simp add: CloseConnection_def DelClient_def DelSubscribedClient_def Let_def)
    ultimately show ?case using close by auto
  next
    case (return_poll s n e)
    then have "poll_set_ok (broker s) (poll_result e n (vec_fds s))"
      using poll_set_ok_fds [OF fst_poll_result refl order_refl] by simp
    then show ?case by (simp add: poll_set_ok_def fds_of_def SetState_def)
  next
    case (sender s c cs)
    then have "polled_inv ((broker s)\<lparr>commands := cs\<rparr>) (vec_fds s) (pc s)"
      by (intro polled_inv_mono [OF sender.prems(4)]) (simp_all add: fds_of_def)
    then show ?case by simp
  qed (auto simp: SetState_def fds_of_def poll_set_ok_def qos_step_idle threads_inv_def)
qed

lemma no_takeover_reachable:
  assumes "no_takeover\<^sup>*\<^sup>* (start_threads b) s" and "broker_inv b" and "state b = init" and "clients b = []"
  shows "threads_inv s" and "control_sock (broker s) \<notin> fds_of (broker s)" and "polled_inv (broker s) (vec_fds s) (pc s)"
proof -
  have "threads_inv s \<and> control_sock (broker s) \<notin> fds_of (broker s) \<and> polled_inv (broker s) (vec_fds s) (pc s)"
    using assms
  proof (induction rule: rtranclp_induct)
    case base
    then show ?case using assms(2-4) by (simp add: start_threads_def threads_inv_def fds_of_def)
  next
    case (step s s')
    then have "fstep s s'" "control_sock (broker s') \<notin> fds_of (broker s')" by (simp_all add: no_takeover_def)
    with step show ?case using fstep_inv no_takeover_polled by blast
  qed
  then show "threads_inv s" "control_sock (broker s) \<notin> fds_of (broker s)" "polled_inv (broker s) (vec_fds s) (pc s)"
    by simp_all
qed

lemma no_takeover_lookups:
  assumes "no_takeover\<^sup>*\<^sup>* (start_threads b) s" and "broker_inv b" and "state b = init" and "clients b = []"
  shows "lookups_ok (broker s) (vec_fds s) (pc s)"
  using polled_inv_lookups no_takeover_reachable [OF assms] by (simp add: threads_inv_def)

end
