(* ===== verification/Exchanges.thy ===== *)
theory Exchanges
  imports Serving
begin

text \<open>
  Packets that belong together: the two halves of a publication at QoS 2, its repetition, and a
  subscription followed by a publication of another client.
\<close>

section \<open>Publications at QoS 2\<close>

text \<open>What the messages kept for a client are after the first half, and after the second.\<close>

lemma held_published:
  assumes inv: "broker_inv b" and q: "QoS fh = qos_code QoS_2" and c: "c = client_id (objects b r)"
  shows "held c (published fh v m fd r b) =
    new_MqttTopic (qos_code QoS_2) (pu_packet_id v) (topic_name v) (Some m) # held c b"
proof -
  have ne: "qos_code QoS_2 \<noteq> qos_code QoS_1" by simp
  define b1 where "b1 = (store_if fh v m b)\<lparr>commands := commands (store_if fh v m b) @
      [ack_cmd fd (packet_type_byte PUBREC) (pu_packet_id v)]\<rparr>"
  have "storage_inv b1" using store_if_inv [OF inv] by (simp add: b1_def broker_inv_def storage_inv_def)
  moreover have "published fh v m fd r b = AddQoSTopic c
      (new_MqttTopic (qos_code QoS_2) (pu_packet_id v) (topic_name v) (Some m)) b1"
    using ne by (simp only: published_def Let_def q if_True if_False simp_thms b1_def store_if_simps c)
  moreover have "held c b1 = held c b" by (simp add: b1_def held_def)
  ultimately show ?thesis by (simp add: held_AddQoSTopic)
qed

lemma published_qos2_simps:
  assumes "QoS fh = qos_code QoS_2"
  shows "objects (published fh v m fd r b) = objects b" "clients (published fh v m fd r b) = clients b"
    "subscribed_clients (published fh v m fd r b) = subscribed_clients b"
    "commands (published fh v m fd r b) =
      commands b @ [ack_cmd fd (packet_type_byte PUBREC) (pu_packet_id v)]"
  using assms by (simp_all add: published_def AddQoSTopic_def Let_def)

lemma DelQosEvent_none: "postponed_events b = [] \<Longrightarrow> DelQosEvent c i b = b"
  by (simp add: DelQosEvent_def)

text \<open>The second half with a message kept under the identifier, and without one.\<close>

lemma released_kept:
  assumes inv: "broker_inv b" and c: "c = client_id (objects b r)"
    and found: "find (\<lambda>t. t_id t = i) (held c b) = Some t" and m: "t_data t = Some m"
  shows "commands (released i fd r b) = commands b @ ack_cmd fd (packet_type_byte PUBCOMP) i #
      List.map_filter (delivery (objects b) (t_name t) m) (subscribed_clients b)"
    and "objects (released i fd r b) = bump (t_name t) (subscribed_clients b) (objects b)"
    and "clients (released i fd r b) = clients b"
    and "subscribed_clients (released i fd r b) = subscribed_clients b"
    and "held c (released i fd r b) = remove_first (\<lambda>t. t_id t = i) (held c b)"
proof -
  define b1 where "b1 = b\<lparr>commands := commands b @ [ack_cmd fd (packet_type_byte PUBCOMP) i]\<rparr>"
  have b1: "DelQosEvent c i b1 = b1" "held c b1 = held c b"
    using inv by (simp_all add: b1_def broker_inv_def held_def DelQosEvent_none)
  define b2 where "b2 = delivered (t_name t) m b1"
  have rel: "released i fd r b = DelQoSTopic c i b2"
    using found m by (simp add: released_def c [symmetric] b1_def [symmetric] b1 Let_def b2_def)
  have b2: "storage_inv b2" "held c b2 = held c b"
    using inv by (simp_all add: b2_def b1_def delivered_def broker_inv_def storage_inv_def held_def)
  show "held c (released i fd r b) = remove_first (\<lambda>t. t_id t = i) (held c b)"
    using held_DelQoSTopic [OF b2(1)] b2(2) by (simp add: rel)
qed (use found m inv in \<open>simp_all add: released_def c [symmetric] Let_def broker_inv_def held_def
    DelQosEvent_none delivered_def DelQoSTopic_def\<close>)

lemma released_none:
  assumes inv: "broker_inv b" and "find (\<lambda>t. t_id t = i) (held (client_id (objects b r)) b) = None"
  shows "released i fd r b = b\<lparr>commands := commands b @ [ack_cmd fd (packet_type_byte PUBCOMP) i]\<rparr>"
  using assms by (simp add: released_def Let_def broker_inv_def held_def DelQosEvent_none)

lemma client_id_bump [simp]: "client_id (bump nm es objs r) = client_id (objs r)"
  by (simp add: bump_def GenPacketID_def)

lemma PubRel_inv:
  assumes "MqttPubRelPacketHandler fh dat fd b = Inr (e, b')" and inv: "broker_inv b"
    and mem: "(fd, Some r) \<in> set (clients b)"
  shows "broker_inv b'"
proof -
  have "clients_at fd b = (Some r, b)" using inv mem by (intro clients_at_present) (simp_all add: broker_inv_def)
  then show ?thesis using PubRel_evolves [OF assms(1) inv] evolves_inv by blast
qed

lemma Publish_inv:
  assumes "MqttPublishPacketHandler fh dat fd b = Inr (e, b')" and inv: "broker_inv b"
    and mem: "(fd, Some r) \<in> set (clients b)"
  shows "broker_inv b'"
proof -
  have "clients_at fd b = (Some r, b)" using inv mem by (intro clients_at_present) (simp_all add: broker_inv_def)
  then show ?thesis using Publish_evolves [OF assms(1) inv] evolves_inv by blast
qed

text \<open>One publication, released twice: delivered once.\<close>

lemma qos2_exchange:
  assumes inv: "broker_inv b" and mem: "(fd, Some r) \<in> set (clients b)"
    and ok: "publish_packet_ok fh v m buf" and q: "QoS fh = qos_code QoS_2"
    and rdy: "all_ready (topic_name v) b" and c: "c = client_id (objects b r)"
    and fresh: "\<forall>t\<in>set (held c b). t_id t \<noteq> pu_packet_id v"
  shows "\<exists>b1 b2 b3. MqttPublishPacketHandler fh buf fd b = Inr (mqtt_ok, b1) \<and>
    MqttPubRelPacketHandler fh1 (be16 (pu_packet_id v) @ xs) fd b1 = Inr (mqtt_ok, b2) \<and>
    MqttPubRelPacketHandler fh2 (be16 (pu_packet_id v) @ ys) fd b2 = Inr (mqtt_ok, b3) \<and>
    held c b3 = held c b \<and>
    commands b3 = commands b @ [ack_cmd fd (packet_type_byte PUBREC) (pu_packet_id v),
        ack_cmd fd (packet_type_byte PUBCOMP) (pu_packet_id v)] @
      List.map_filter (delivery (objects b) (topic_name v) m) (subscribed_clients b) @
      [ack_cmd fd (packet_type_byte PUBCOMP) (pu_packet_id v)]"
proof -
  let ?i = "pu_packet_id v" and ?P = "\<lambda>t. t_id t = pu_packet_id v"
  define t where "t = new_MqttTopic (qos_code QoS_2) ?i (topic_name v) (Some m)"
  have t: "t_id t = ?i" "t_name t = topic_name v" "t_data t = Some m" by (simp_all add: t_def)
  define b1 where "b1 = published fh v m fd r b"
  have pub: "MqttPublishPacketHandler fh buf fd b = Inr (mqtt_ok, b1)"
    unfolding b1_def by (rule Publish_published [OF inv mem ok rdy])
  have b1: "broker_inv b1" "(fd, Some r) \<in> set (clients b1)" "objects b1 = objects b"
      "subscribed_clients b1 = subscribed_clients b" "held c b1 = t # held c b"
      "commands b1 = commands b @ [ack_cmd fd (packet_type_byte PUBREC) ?i]"
    using Publish_inv [OF pub inv mem] mem published_qos2_simps [OF q] held_published [OF inv q c]
    by (simp_all add: b1_def t_def)
  have found: "find ?P (held (client_id (objects b1 r)) b1) = Some t"
    using b1 t by (simp add: c [symmetric])
  have len: "length (topic_name v) < 2 ^ 16" "length m < 2 ^ 16" using ok by (simp_all add: publish_packet_ok_def)
  define b2 where "b2 = released ?i fd r b1"
  have rel: "MqttPubRelPacketHandler fh1 (be16 ?i @ xs) fd b1 = Inr (mqtt_ok, b2)"
    unfolding b2_def
    by (rule PubRel_released [OF b1(1,2)]) (use found t rdy b1 len in \<open>simp add: all_ready_def\<close>)
  have b2: "broker_inv b2" "(fd, Some r) \<in> set (clients b2)" "client_id (objects b2 r) = c" "held c b2 = held c b"
      "commands b2 = commands b @ [ack_cmd fd (packet_type_byte PUBREC) ?i, ack_cmd fd (packet_type_byte PUBCOMP) ?i] @
        List.map_filter (delivery (objects b) (topic_name v) m) (subscribed_clients b)"
    using PubRel_inv [OF rel b1(1,2)] released_kept [OF b1(1) refl found t(3), of fd] b1 t
    by (simp_all add: b2_def c)
  have none: "find ?P (held (client_id (objects b2 r)) b2) = None"
    using fresh b2 by (auto simp: find_None_iff)
  have "MqttPubRelPacketHandler fh2 (be16 ?i @ ys) fd b2 = Inr (mqtt_ok, released ?i fd r b2)"
    by (rule PubRel_released [OF b2(1,2)]) (use none in simp)
  moreover have "released ?i fd r b2 = b2\<lparr>commands := commands b2 @ [ack_cmd fd (packet_type_byte PUBCOMP) ?i]\<rparr>"
    by (rule released_none [OF b2(1) none])
  ultimately show ?thesis
    using pub rel b2 by (intro exI [of _ b1] exI [of _ b2] exI [of _ "released ?i fd r b2"]) (simp add: held_def)
qed

text \<open>
  The same publication sent twice before it is released, as a client does that got no answer: it is
  kept twice, and each of two releases delivers it.
\<close>

lemma qos2_repeated:
  assumes inv: "broker_inv b" and mem: "(fd, Some r) \<in> set (clients b)"
    and ok: "publish_packet_ok fh v m buf" and q: "QoS fh = qos_code QoS_2"
    and rdy: "all_ready (topic_name v) b"
    and rdy': "all_ready (topic_name v) (delivered (topic_name v) m b)"
  shows "\<exists>b1 b2 b3 b4. MqttPublishPacketHandler fh buf fd b = Inr (mqtt_ok, b1) \<and>
    MqttPublishPacketHandler fh buf fd b1 = Inr (mqtt_ok, b2) \<and>
    MqttPubRelPacketHandler fh1 (be16 (pu_packet_id v) @ xs) fd b2 = Inr (mqtt_ok, b3) \<and>
    MqttPubRelPacketHandler fh2 (be16 (pu_packet_id v) @ ys) fd b3 = Inr (mqtt_ok, b4) \<and>
    commands b4 = commands b3 @ ack_cmd fd (packet_type_byte PUBCOMP) (pu_packet_id v) #
      List.map_filter (delivery (objects b3) (topic_name v) m) (subscribed_clients b) \<and>
    commands b3 = commands b2 @ ack_cmd fd (packet_type_byte PUBCOMP) (pu_packet_id v) #
      List.map_filter (delivery (objects b) (topic_name v) m) (subscribed_clients b)"
proof -
  let ?i = "pu_packet_id v" and ?nm = "topic_name v"
  define t where "t = new_MqttTopic (qos_code QoS_2) ?i ?nm (Some m)"
  have t: "t_id t = ?i" "t_name t = ?nm" "t_data t = Some m" by (simp_all add: t_def)
  have len: "length ?nm < 2 ^ 16" "length m < 2 ^ 16" using ok by (simp_all add: publish_packet_ok_def)
  define c where "c = client_id (objects b r)"
  define b1 where "b1 = published fh v m fd r b"
  define b2 where "b2 = published fh v m fd r b1"
  define b3 where "b3 = released ?i fd r b2"
  have pub: "MqttPublishPacketHandler fh buf fd b = Inr (mqtt_ok, b1)"
    unfolding b1_def by (rule Publish_published [OF inv mem ok rdy])
  have b1: "broker_inv b1" "(fd, Some r) \<in> set (clients b1)" "objects b1 = objects b"
      "subscribed_clients b1 = subscribed_clients b" "held c b1 = t # held c b"
    using Publish_inv [OF pub inv mem] mem published_qos2_simps [OF q] held_published [OF inv q c_def]
    by (simp_all add: b1_def t_def)
  have "all_ready ?nm b1" using rdy b1 by (simp add: all_ready_def)
  then have again: "MqttPublishPacketHandler fh buf fd b1 = Inr (mqtt_ok, b2)"
    unfolding b2_def by (rule Publish_published [OF b1(1,2) ok])
  have c1: "c = client_id (objects b1 r)" by (simp add: c_def b1)
  have b2: "broker_inv b2" "(fd, Some r) \<in> set (clients b2)" "objects b2 = objects b"
      "subscribed_clients b2 = subscribed_clients b" "held c b2 = t # t # held c b"
    using Publish_inv [OF again b1(1,2)] b1 published_qos2_simps [OF q] held_published [OF b1(1) q c1]
    by (simp_all add: b2_def t_def)
  have c2: "c = client_id (objects b2 r)" by (simp add: c_def b2)
  have found: "find (\<lambda>t. t_id t = ?i) (held c b2) = Some t" using b2 t by simp
  have rel: "MqttPubRelPacketHandler fh1 (be16 ?i @ xs) fd b2 = Inr (mqtt_ok, b3)"
    unfolding b3_def
    by (rule PubRel_released [OF b2(1,2)]) (use found t rdy b2 len in \<open>simp add: all_ready_def c_def [symmetric]\<close>)
  have b3: "broker_inv b3" "(fd, Some r) \<in> set (clients b3)" "objects b3 = bump ?nm (subscribed_clients b) (objects b)"
      "subscribed_clients b3 = subscribed_clients b" "held c b3 = t # held c b"
      "commands b3 = commands b2 @ ack_cmd fd (packet_type_byte PUBCOMP) ?i #
        List.map_filter (delivery (objects b) ?nm m) (subscribed_clients b)"
    using PubRel_inv [OF rel b2(1,2)] released_kept [OF b2(1) c2 found t(3), of fd] b2 t
    by (simp_all add: b3_def)
  have c3: "c = client_id (objects b3 r)" by (simp add: c_def b3)
  have found3: "find (\<lambda>t. t_id t = ?i) (held c b3) = Some t" using b3 t by simp
  have "all_ready ?nm b3" using rdy' b3 by (simp add: all_ready_def delivered_def)
  then have "MqttPubRelPacketHandler fh2 (be16 ?i @ ys) fd b3 = Inr (mqtt_ok, released ?i fd r b3)"
    by (intro PubRel_released [OF b3(1,2)]) (use found3 t len in \<open>simp add: c3 [symmetric]\<close>)
  then show ?thesis
    using pub again rel b3 released_kept(1) [OF b3(1) c3 found3 t(3), of fd] t
    by (intro exI [of _ b1] exI [of _ b2] exI [of _ b3] exI [of _ "released ?i fd r b3"]) simp
qed

section \<open>Subscriptions and publications\<close>

text \<open>A client that is subscribed gets what matches one of its filters.\<close>

lemma delivery_matches:
  assumes "(flt, opts) \<in> set (subscribed_topics (objs r))" and "sub_matches flt nm"
  shows "\<exists>q i. delivery objs nm m (fd, r) = Some (publish_cmd fd q i nm m)"
proof -
  have "find (\<lambda>e. sub_matches (fst e) nm) (subscribed_topics (objs r)) \<noteq> None"
    using assms by (auto simp: find_None_iff)
  then show ?thesis unfolding delivery_def sub_opts_def Let_def fst_conv snd_conv by (auto simp del: of_nat_numeral) blast+
qed

lemma delivered_to:
  assumes "(fd, r) \<in> set (subscribed_clients b)" and "(flt, opts) \<in> set (subscribed_topics (objects b r))"
    and "sub_matches flt nm"
  shows "\<exists>q i. publish_cmd fd q i nm m \<in> set (commands (delivered nm m b))"
proof -
  obtain q i where "delivery (objects b) nm m (fd, r) = Some (publish_cmd fd q i nm m)"
    using delivery_matches [of flt opts "objects b" r nm m fd] assms by blast
  then show ?thesis using assms(1) by (force simp: delivered_def List.map_filter_def)
qed

lemma published_to:
  assumes "(fd, r) \<in> set (subscribed_clients b)" and "(flt, opts) \<in> set (subscribed_topics (objects b r))"
    and "sub_matches flt (topic_name v)" and "QoS fh \<noteq> qos_code QoS_2"
  shows "\<exists>q i. publish_cmd fd q i (topic_name v) m \<in> set (commands (published fh v m fd' r' b))"
proof (cases "QoS fh = qos_code QoS_1")
  case True
  then show ?thesis unfolding published_def Let_def if_P [OF True]
    by (intro delivered_to [of _ r _ flt opts]) (use assms in simp_all)
next
  case False
  then show ?thesis unfolding published_def Let_def if_not_P [OF False] if_not_P [OF assms(4)]
    by (intro delivered_to [of _ r _ flt opts]) (use assms in simp_all)
qed

lemma retained_cmd_subs:
  "subscribed_topics (objects (retained_cmd fd r opts t b) s) = subscribed_topics (objects b s)"
  by (simp add: retained_cmd_def Let_def upd_obj_def GenPacketID_def)

lemma retained_run_subs:
  "subscribed_topics (objects (retained_run fd r ss b) s) = subscribed_topics (objects b s)"
  by (induction ss arbitrary: b) (auto simp: retained_cmd_subs)

lemma retained_run_clients: "clients (retained_run fd r ss b) = clients b"
  by (induction ss arbitrary: b) (auto simp: retained_cmd_def Let_def upd_obj_def)

text \<open>After SUBSCRIBE every filter of the packet is a subscription of a subscribed client.\<close>

lemma subscribed_has:
  assumes inv: "broker_inv b" and mem: "(fd, Some r) \<in> set (clients b)" and flt: "flt \<in> fst ` set ts"
  shows "\<exists>opts. (flt, opts) \<in> set (subscribed_topics (objects (subscribed v ts ms fd r b) r))"
    and "broker_inv (subscribed v ts ms fd r b) \<Longrightarrow> (fd, r) \<in> set (subscribed_clients (subscribed v ts ms fd r b))"
proof -
  have "CFind flt (objects (subscribe_all r ts b) r) \<noteq> None"
    using CFind_subscribe_all [OF broker_invD(3) [OF inv], of flt r ts] flt
    by (auto simp: find_None_iff split: option.splits)
  then obtain e where "CFind flt (objects (subscribe_all r ts b) r) = Some e" by blast
  then have "e \<in> set (subscribed_topics (objects (subscribe_all r ts b) r)) \<and> fst e = flt"
    by (auto simp: CFind_def dest: kv_find_SomeD)
  then show "\<exists>opts. (flt, opts) \<in> set (subscribed_topics (objects (subscribed v ts ms fd r b) r))"
    by (cases e) (auto simp: subscribed_def AddSubscribedClient_def Let_def retained_run_subs)
next
  let ?b = "subscribed v ts ms fd r b"
  assume sub: "broker_inv ?b"
  have "fd \<in> fst ` set (un_insert fst (fd, r) es)" for es :: "(int \<times> nat) list"
    by (cases "fd \<in> fst ` set es") (simp_all add: un_insert_def kv_find_None_iff)
  then have "fd \<in> fst ` set (subscribed_clients ?b)"
    by (simp add: subscribed_def AddSubscribedClient_def Let_def)
  then obtain r' where r': "(fd, r') \<in> set (subscribed_clients ?b)" by auto
  have "clients ?b = clients b"
    by (simp add: subscribed_def AddSubscribedClient_def Let_def retained_run_clients)
  then have "(fd, Some r') \<in> set (clients b)" using sub r' by (auto simp: broker_inv_def clients_inv_def)
  moreover have "distinct (map fst (clients b))" using inv by (simp add: broker_inv_def clients_inv_def un_ok_def)
  ultimately have "r' = r" using mem by (auto dest: eq_key_imp_eq_value)
  then show "(fd, r) \<in> set (subscribed_clients ?b)" using r' by simp
qed

lemma Subscribe_inv:
  assumes "MqttSubscribePacketHandler fh dat fd b = Inr (e, b')" and inv: "broker_inv b"
    and mem: "(fd, Some r) \<in> set (clients b)"
  shows "broker_inv b'"
proof -
  have "clients_at fd b = (Some r, b)" using inv mem by (intro clients_at_present) (simp_all add: broker_inv_def)
  then show ?thesis using Subscribe_evolves [OF assms(1) inv _ mem] evolves_inv by blast
qed

text \<open>A subscription followed by a publication that matches it.\<close>

lemma subscribe_publish:
  assumes inv: "broker_inv b" and mem: "(fd, Some r) \<in> set (clients b)" "(fd', Some r') \<in> set (clients b)"
    and sub: "subscribe_packet_ok fh v ts buf"
    and ms: "\<forall>(nm, opts)\<in>set ts. GetMatchedTopics nm b = Inr (ms nm) \<and> (\<forall>t\<in>set (ms nm). sendable t)"
    and gen: "room r (length (retained_sends ms ts)) b"
    and pub: "publish_packet_ok fh' v' m buf'" "QoS fh' \<noteq> qos_code QoS_2"
    and rdy: "all_ready (topic_name v') (subscribed v ts ms fd r b)"
    and flt: "flt \<in> fst ` set ts" "sub_matches flt (topic_name v')"
  shows "\<exists>b1 b2 q i. MqttSubscribePacketHandler fh buf fd b = Inr (mqtt_ok, b1) \<and>
    MqttPublishPacketHandler fh' buf' fd' b1 = Inr (mqtt_ok, b2) \<and>
    publish_cmd fd q i (topic_name v') m \<in> set (commands b2)"
proof -
  let ?b = "subscribed v ts ms fd r b"
  have run: "MqttSubscribePacketHandler fh buf fd b = Inr (mqtt_ok, ?b)"
    by (rule Subscribe_subscribed [OF inv mem(1) sub ms gen])
  have inv': "broker_inv ?b" by (rule Subscribe_inv [OF run inv mem(1)])
  have "(fd', Some r') \<in> set (clients ?b)"
    using mem(2) by (simp add: subscribed_def AddSubscribedClient_def Let_def retained_run_clients)
  then have "MqttPublishPacketHandler fh' buf' fd' ?b = Inr (mqtt_ok, published fh' v' m fd' r' ?b)"
    by (rule Publish_published [OF inv' _ pub(1) rdy])
  moreover obtain opts where "(flt, opts) \<in> set (subscribed_topics (objects ?b r))"
    using subscribed_has(1) [OF inv mem(1) flt(1)] by blast
  then have "\<exists>q i. publish_cmd fd q i (topic_name v') m \<in> set (commands (published fh' v' m fd' r' ?b))"
    by (rule published_to [OF subscribed_has(2) [OF inv mem(1) flt(1) inv'] _ flt(2) pub(2)])
  ultimately show ?thesis using run by blast
qed

section \<open>A retained publication, then a subscription\<close>

lemma retained_run_commands: "set (commands b) \<subseteq> set (commands (retained_run fd r sends b))"
proof (induction sends arbitrary: b)
  case (Cons s sends)
  have "set (commands b) \<subseteq> set (commands (retained_cmd fd r (fst s) (snd s) b))"
    by (auto simp: retained_cmd_def Let_def upd_obj_def)
  with Cons show ?case by (cases s) auto
qed simp

lemma retained_run_sends:
  "(opts, t) \<in> set sends \<Longrightarrow>
    \<exists>i. publish_cmd fd opts i (t_name t) (the (t_data t)) \<in> set (commands (retained_run fd r sends b))"
proof (induction sends arbitrary: b)
  case (Cons s sends)
  show ?case
  proof (cases "s = (opts, t)")
    case True
    have "\<exists>i. publish_cmd fd opts i (t_name t) (the (t_data t)) \<in> set (commands (retained_cmd fd r opts t b))"
      by (auto simp: retained_cmd_def Let_def upd_obj_def)
    then show ?thesis using retained_run_commands [of "retained_cmd fd r opts t b" fd r sends] True by auto
  next
    case False
    then show ?thesis using Cons by (cases s) auto
  qed
qed simp

text \<open>
  A filter the search can be asked for: it has levels, is not one of the two filters for everything,
  and does not run past the levels of a stored name.
\<close>

definition searchable :: "bytes \<Rightarrow> Broker \<Rightarrow> bool" where
  "searchable flt b \<longleftrightarrow> tokenize flt is_sep \<noteq> [] \<and> flt \<noteq> hash_tok \<and> flt \<noteq> slash_hash \<and>
     (\<forall>t\<in>set (topics b). hash_tok \<notin> set (tokenize (t_name t) is_sep) \<and>
       \<not> overruns (tokenize flt is_sep) (tokenize (t_name t) is_sep))"

definition matched_by :: "Broker \<Rightarrow> bytes \<Rightarrow> MqttTopic list" where
  "matched_by b flt = filter (\<lambda>t. level_match (tokenize flt is_sep) (tokenize (t_name t) is_sep)) (topics b)"

lemma GetMatchedTopics_searchable:
  "broker_inv b \<Longrightarrow> searchable flt b \<Longrightarrow> GetMatchedTopics flt b = Inr (matched_by b flt)"
  unfolding matched_by_def by (rule GetMatchedTopics_filter) (simp_all add: broker_inv_def searchable_def)

lemma published_topics: "topics (published fh v m fd r b) = topics (store_if fh v m b)"
  by (simp add: published_def delivered_def AddQoSTopic_def Let_def)

lemma published_clients: "clients (published fh v m fd r b) = clients b"
  by (simp add: published_def delivered_def AddQoSTopic_def Let_def)

lemma published_retained:
  assumes inv: "broker_inv b" and "isRETAIN fh"
  shows "new_MqttTopic (QoS fh) (pu_packet_id v) (topic_name v) (Some m) \<in> set (topics (published fh v m fd r b))"
proof -
  let ?t = "new_MqttTopic (QoS fh) (pu_packet_id v) (topic_name v) (Some m)"
  have "kv_find t_name (topic_name v) (topics (StoreTopic ?t b)) = Some ?t"
    using inv by (simp add: find_StoreTopic broker_inv_def)
  moreover have "store_if fh v m b = StoreTopic ?t b"
    using assms(2) by (simp add: store_if_def StoreTopicValue_StoreTopic)
  ultimately show ?thesis unfolding published_topics by (auto dest: kv_find_SomeD)
qed

lemma publish_subscribe:
  assumes inv: "broker_inv b" and mem: "(fd, Some r) \<in> set (clients b)" "(fd', Some r') \<in> set (clients b)"
    and pub: "publish_packet_ok fh v m buf" "isRETAIN fh" and rdy: "all_ready (topic_name v) b"
    and sub: "subscribe_packet_ok fh' u ts buf'"
    and srch: "\<forall>flt\<in>fst ` set ts. searchable flt (published fh v m fd r b)"
    and ok: "\<forall>t\<in>set (topics (published fh v m fd r b)). sendable t"
    and gen: "room r' (length (retained_sends (matched_by (published fh v m fd r b)) ts)) (published fh v m fd r b)"
    and flt: "(flt, opts) \<in> set ts" "level_match (tokenize flt is_sep) (tokenize (topic_name v) is_sep)"
  shows "\<exists>b1 b2 i. MqttPublishPacketHandler fh buf fd b = Inr (mqtt_ok, b1) \<and>
    MqttSubscribePacketHandler fh' buf' fd' b1 = Inr (mqtt_ok, b2) \<and>
    publish_cmd fd' opts i (topic_name v) m \<in> set (commands b2)"
proof -
  define b1 where "b1 = published fh v m fd r b"
  let ?t = "new_MqttTopic (QoS fh) (pu_packet_id v) (topic_name v) (Some m)"
  have run: "MqttPublishPacketHandler fh buf fd b = Inr (mqtt_ok, b1)"
    unfolding b1_def by (rule Publish_published [OF inv mem(1) pub(1) rdy])
  have inv1: "broker_inv b1" by (rule Publish_inv [OF run inv mem(1)])
  have mem1: "(fd', Some r') \<in> set (clients b1)" using mem(2) by (simp add: b1_def published_clients)
  have ms: "\<forall>(nm, opts)\<in>set ts. GetMatchedTopics nm b1 = Inr (matched_by b1 nm) \<and> (\<forall>t\<in>set (matched_by b1 nm). sendable t)"
    using GetMatchedTopics_searchable [OF inv1] srch ok by (force simp: b1_def matched_by_def)
  have sub2: "MqttSubscribePacketHandler fh' buf' fd' b1 = Inr (mqtt_ok, subscribed u ts (matched_by b1) fd' r' b1)"
    by (rule Subscribe_subscribed [OF inv1 mem1 sub ms gen [folded b1_def]])
  have "?t \<in> set (matched_by b1 flt)"
    using published_retained [OF inv pub(2)] flt(2) by (simp add: matched_by_def b1_def)
  then have "(opts, ?t) \<in> set (retained_sends (matched_by b1) ts)"
    using flt(1) by (force simp: retained_sends_def)
  then obtain i where "publish_cmd fd' opts i (topic_name v) m \<in>
      set (commands (subscribed u ts (matched_by b1) fd' r' b1))"
    using retained_run_sends [of opts ?t "retained_sends (matched_by b1) ts" fd' r']
    by (fastforce simp: subscribed_def AddSubscribedClient_def Let_def)
  then show ?thesis using run sub2 by blast
qed

section \<open>A PUBLISH through the server thread\<close>

lemma Publish_served:
  assumes "broker_inv b" and "(fd, Some r) \<in> set (clients b)" and "arrives e fd t body"
    and "drop_bit 4 t = 3" and "publish_packet_ok (header t body) v m body" and "all_ready (topic_name v) b"
  shows "serve_data e fd b = Inr (False,
    published (header t body) v m fd r (upd_obj r (SetPacketLastTime (cur_time e)) b))"
proof -
  let ?b = "upd_obj r (SetPacketLastTime (cur_time e)) b"
  have "broker_inv ?b" by (rule upd_obj_inv [OF assms(1)]) (simp add: client_inv_def SetPacketLastTime_def)
  moreover have "(fd, Some r) \<in> set (clients ?b)" using assms(2) by (simp add: upd_obj_def)
  moreover have "all_ready (topic_name v) ?b"
    using assms(6) by (auto simp: all_ready_def ready_def upd_obj_def SetPacketLastTime_def)
  ultimately have "MqttPublishPacketHandler (header t body) body fd ?b =
      Inr (mqtt_ok, published (header t body) v m fd r ?b)"
    using assms(5) by (intro Publish_published)
  moreover have "HandlePacket (rand_vals e) (header t body) body fd ?b =
      run_handler Publish_Handler (rand_vals e) (header t body) body fd ?b"
    by (rule HandlePacket_type) (simp add: assms(4))
  ultimately show ?thesis by (simp add: serve_data_arrives [OF assms(1-3)])
qed

end
