(* ===== verification/Machine.thy ===== *)
theory Machine
  imports Exchanges
begin

text \<open>
  What the broker promises, without its objects, containers and bytes: an abstract machine whose
  state is a session for each connection, the retained messages, the messages that wait for their
  release and the queue of what was answered. It leaves open which of several matching
  subscriptions sets the quality of service of a delivery, and in which order the sessions get a
  message. \<open>Simulation\<close> shows that the broker implements it.
\<close>

section \<open>State\<close>

record session =
  s_id :: bytes
  s_greeted :: bool
  s_subs :: "bytes \<rightharpoonup> u8"
  s_next :: u16
  s_will :: "(bytes \<times> bytes) option"

definition new_session :: session where
  "new_session = \<lparr>s_id = [], s_greeted = False, s_subs = Map.empty, s_next = 1, s_will = None\<rparr>"

text \<open>Acknowledgements, with the first byte of their packet; the grants of a SUBSCRIBE; which of the
  filters of an UNSUBSCRIBE were there; a message with its quality of service and identifier.\<close>

datatype answer =
    Ack u8 u16
  | Welcome bool
  | Granted u16 nat
  | Removed u16 "bool list"
  | Pong
  | Message u8 u16 bytes bytes
  | Bye

record machine =
  m_sessions :: "int \<rightharpoonup> session"
  m_retained :: "bytes \<rightharpoonup> bytes"
  m_kept :: "bytes \<Rightarrow> (u16 \<times> bytes \<times> bytes) list"
  m_out :: "(int \<times> answer) list"

definition new_machine :: machine where
  "new_machine = \<lparr>m_sessions = Map.empty, m_retained = Map.empty, m_kept = (\<lambda>_. []), m_out = []\<rparr>"

definition session :: "int \<Rightarrow> machine \<Rightarrow> session" where
  "session fd a = the (m_sessions a fd)"

definition put :: "int \<Rightarrow> session \<Rightarrow> machine \<Rightarrow> machine" where
  "put fd s a = a\<lparr>m_sessions := (m_sessions a)(fd \<mapsto> s)\<rparr>"

definition drop_session :: "int \<Rightarrow> machine \<Rightarrow> machine" where
  "drop_session fd a = a\<lparr>m_sessions := (m_sessions a)(fd := None)\<rparr>"

definition say :: "int \<Rightarrow> answer \<Rightarrow> machine \<Rightarrow> machine" where
  "say fd x a = a\<lparr>m_out := m_out a @ [(fd, x)]\<rparr>"

section \<open>Delivery\<close>

definition wants :: "session \<Rightarrow> bytes \<Rightarrow> u8 set" where
  "wants s nm = {opts AND 3 | opts. \<exists>flt. s_subs s flt = Some opts \<and> sub_matches flt nm}"

definition use_id :: "u8 \<Rightarrow> session \<Rightarrow> u16" where
  "use_id q s = (if q = 0 then 0 else s_next s)"

definition spend :: "u8 \<Rightarrow> session \<Rightarrow> session" where
  "spend q s = (if q = 0 then s else s\<lparr>s_next := s_next s + 1\<rparr>)"

text \<open>Each session with a matching subscription gets the message once.\<close>

definition deliver :: "bytes \<Rightarrow> bytes \<Rightarrow> machine \<Rightarrow> machine \<Rightarrow> bool" where
  "deliver nm m a a' \<longleftrightarrow>
     (\<exists>ds. distinct (map fst ds) \<and>
       fst ` set ds = {fd \<in> dom (m_sessions a). wants (session fd a) nm \<noteq> {}} \<and>
       (\<forall>(fd, q)\<in>set ds. q \<in> wants (session fd a) nm) \<and>
       a' = a\<lparr>m_sessions := (\<lambda>fd. case map_of ds fd of
                None \<Rightarrow> m_sessions a fd | Some q \<Rightarrow> map_option (spend q) (m_sessions a fd)),
              m_out := m_out a @
                map (\<lambda>(fd, q). (fd, Message q (use_id q (session fd a)) nm m)) ds\<rparr>)"

text \<open>The retained messages for the filters of a SUBSCRIBE, filter by filter, in any order of names.\<close>

definition replays :: "(bytes \<rightharpoonup> bytes) \<Rightarrow> bytes \<times> u8 \<Rightarrow> (u8 \<times> bytes) list \<Rightarrow> bool" where
  "replays ret = (\<lambda>(flt, opts) ps. \<exists>nms. ps = map (Pair opts) nms \<and> distinct nms \<and>
     set nms = {nm \<in> dom ret. level_match (tokenize flt is_sep) (tokenize nm is_sep)})"

definition send_one :: "int \<Rightarrow> u8 \<times> bytes \<Rightarrow> machine \<Rightarrow> machine" where
  "send_one fd = (\<lambda>(q, nm) a. put fd (spend q (session fd a))
     (say fd (Message q (use_id q (session fd a)) nm (the (m_retained a nm))) a))"

definition replay :: "int \<Rightarrow> (bytes \<times> u8) list \<Rightarrow> machine \<Rightarrow> machine \<Rightarrow> bool" where
  "replay fd ts a a' \<longleftrightarrow>
     (\<exists>pss. list_all2 (replays (m_retained a)) ts pss \<and> a' = fold (send_one fd) (concat pss) a)"

section \<open>Packets\<close>

datatype packet =
    Connect bytes bool "(bytes \<times> bytes) option"
  | Publish u8 bool u16 bytes bytes
  | Puback u16
  | Pubrec u16
  | Pubrel u16
  | Pubcomp u16
  | Subscribe u16 "(bytes \<times> u8) list"
  | Unsubscribe u16 "bytes list"
  | Pingreq
  | Disconnect

text \<open>A subscription that is already there keeps its options.\<close>

definition subscribe_to :: "(bytes \<times> u8) list \<Rightarrow> session \<Rightarrow> session" where
  "subscribe_to ts s = s\<lparr>s_subs := map_of ts ++ s_subs s\<rparr>"

fun removals :: "bytes list \<Rightarrow> (bytes \<rightharpoonup> u8) \<Rightarrow> bool list" where
  "removals [] \<sigma> = []"
| "removals (flt # flts) \<sigma> = (flt \<in> dom \<sigma>) # removals flts (\<sigma>(flt := None))"

definition keep :: "bytes \<Rightarrow> u16 \<times> bytes \<times> bytes \<Rightarrow> machine \<Rightarrow> machine" where
  "keep c x a = a\<lparr>m_kept := (m_kept a)(c := x # m_kept a c)\<rparr>"

definition forget :: "bytes \<Rightarrow> u16 \<Rightarrow> machine \<Rightarrow> machine" where
  "forget c i a = a\<lparr>m_kept := (m_kept a)(c := remove_first (\<lambda>x. fst x = i) (m_kept a c))\<rparr>"

definition retain :: "bytes \<Rightarrow> bytes \<Rightarrow> machine \<Rightarrow> machine" where
  "retain nm m a = a\<lparr>m_retained := (m_retained a)(nm \<mapsto> m)\<rparr>"

abbreviation ack :: "mqtt_pack_type \<Rightarrow> u16 \<Rightarrow> answer" where
  "ack t \<equiv> Ack (packet_type_byte t)"

fun gets :: "int \<Rightarrow> packet \<Rightarrow> machine \<Rightarrow> machine \<Rightarrow> bool" where
  "gets fd (Connect cid clean w) a a' \<longleftrightarrow>
     a' = say fd (Welcome clean) (put fd ((session fd a)\<lparr>s_id := cid, s_greeted := True, s_will := w\<rparr>) a)"
| "gets fd (Publish q ret i nm m) a a' \<longleftrightarrow>
     (let a = (if ret then retain nm m a else a)
      in if q = 1 then deliver nm m (say fd (ack PUBACK i) a) a'
         else if q = 2 then a' = keep (s_id (session fd a)) (i, nm, m) (say fd (ack PUBREC i) a)
         else deliver nm m a a')"
| "gets fd (Puback i) a a' \<longleftrightarrow> a' = a"
| "gets fd (Pubrec i) a a' \<longleftrightarrow> a' = say fd (Ack (packet_type_byte PUBREL OR 2) i) a"
| "gets fd (Pubrel i) a a' \<longleftrightarrow>
     (let c = s_id (session fd a); a = say fd (ack PUBCOMP i) a
      in case find (\<lambda>x. fst x = i) (m_kept a c) of
           None \<Rightarrow> a' = a
         | Some (_, nm, m) \<Rightarrow> \<exists>a1. deliver nm m a a1 \<and> a' = forget c i a1)"
| "gets fd (Pubcomp i) a a' \<longleftrightarrow> a' = a"
| "gets fd (Subscribe i ts) a a' \<longleftrightarrow>
     replay fd ts (say fd (Granted i (length ts)) (put fd (subscribe_to ts (session fd a)) a)) a'"
| "gets fd (Unsubscribe i flts) a a' \<longleftrightarrow>
     a' = say fd (Removed i (removals flts (s_subs (session fd a))))
       (put fd ((session fd a)\<lparr>s_subs := s_subs (session fd a) |` (- set flts)\<rparr>) a)"
| "gets fd Pingreq a a' \<longleftrightarrow> a' = say fd Pong a"
| "gets fd Disconnect a a' \<longleftrightarrow> a' = drop_session fd a"

section \<open>Steps\<close>

text \<open>A connection is opened, sends a packet, is hung up, or is looked at while it is quiet and may have
  been so for too long.\<close>

datatype act = Opens int | Gets int packet | Hangs int | Idles int

definition send_will :: "int \<Rightarrow> machine \<Rightarrow> machine \<Rightarrow> bool" where
  "send_will fd a a' \<longleftrightarrow>
     (case s_will (session fd a) of None \<Rightarrow> a' = a | Some (nm, m) \<Rightarrow> deliver nm m a a')"

definition last_will :: "int \<Rightarrow> machine \<Rightarrow> machine \<Rightarrow> bool" where
  "last_will fd a a' \<longleftrightarrow> (\<exists>a1. send_will fd a a1 \<and> a' = drop_session fd a1)"

fun step :: "act \<Rightarrow> machine \<Rightarrow> machine \<Rightarrow> bool" where
  "step (Opens fd) a a' \<longleftrightarrow> a' = put fd new_session a"
| "step (Gets fd p) a a' \<longleftrightarrow> gets fd p a a'"
| "step (Hangs fd) a a' \<longleftrightarrow> last_will fd a a'"
| "step (Idles fd) a a' \<longleftrightarrow> a' = a \<or> last_will fd (say fd Bye a) a'"

text \<open>
  When the broker can follow. No identifier has wrapped to 0, no filter is a proper prefix of a
  published name, a filter of a SUBSCRIBE is not read past the retained names, and is not one of the
  two spellings of everything, there are identifiers for all retained messages, and a client connects once under an identifier nobody
  else has.
\<close>

definition deliverable :: "bytes \<Rightarrow> machine \<Rightarrow> bool" where
  "deliverable nm a \<longleftrightarrow>
     (\<forall>s\<in>ran (m_sessions a). s_next s \<noteq> 0 \<and> (\<forall>flt\<in>dom (s_subs s). sub_safe flt nm))"

definition replayable :: "bytes \<Rightarrow> machine \<Rightarrow> bool" where
  "replayable flt a \<longleftrightarrow> tokenize flt is_sep \<noteq> [] \<and> flt \<noteq> hash_tok \<and> flt \<noteq> slash_hash \<and>
     (\<forall>nm\<in>dom (m_retained a). hash_tok \<notin> set (tokenize nm is_sep) \<and>
        \<not> overruns (tokenize flt is_sep) (tokenize nm is_sep))"

fun packet_accepted :: "int \<Rightarrow> packet \<Rightarrow> machine \<Rightarrow> bool" where
  "packet_accepted fd (Connect cid clean w) a \<longleftrightarrow>
     cid \<noteq> [] \<and> \<not> s_greeted (session fd a) \<and> (\<forall>s\<in>ran (m_sessions a). s_id s \<noteq> cid)"
| "packet_accepted fd (Publish q ret i nm m) a \<longleftrightarrow> deliverable nm a"
| "packet_accepted fd (Pubrel i) a \<longleftrightarrow>
     (\<forall>(j, nm, m)\<in>set (m_kept a (s_id (session fd a))). j = i \<longrightarrow> deliverable nm a)"
| "packet_accepted fd (Subscribe i ts) a \<longleftrightarrow> (\<forall>flt\<in>fst ` set ts. replayable flt a) \<and>
     s_next (session fd a) \<noteq> 0 \<and>
     unat (s_next (session fd a)) + length ts * card (dom (m_retained a)) \<le> 2 ^ 16"
| "packet_accepted fd _ a \<longleftrightarrow> True"

definition will_accepted :: "int \<Rightarrow> machine \<Rightarrow> bool" where
  "will_accepted fd a \<longleftrightarrow> (\<forall>nm m. s_will (session fd a) = Some (nm, m) \<longrightarrow> deliverable nm a)"

text \<open>What the outside has to respect, and the connection an act needs.\<close>

fun offered :: "act \<Rightarrow> machine \<Rightarrow> bool" where
  "offered (Opens fd) a \<longleftrightarrow> 0 < fd \<and> fd \<notin> dom (m_sessions a)"
| "offered (Gets fd p) a \<longleftrightarrow> packet_accepted fd p a"
| "offered (Hangs fd) a \<longleftrightarrow> will_accepted fd a"
| "offered (Idles fd) a \<longleftrightarrow> will_accepted fd a"

primrec act_fd :: "act \<Rightarrow> int" where
  "act_fd (Opens fd) = fd"
| "act_fd (Gets fd p) = fd"
| "act_fd (Hangs fd) = fd"
| "act_fd (Idles fd) = fd"

fun accepted_act :: "act \<Rightarrow> machine \<Rightarrow> bool" where
  "accepted_act (Opens fd) a \<longleftrightarrow> 0 < fd \<and> fd \<notin> dom (m_sessions a)"
| "accepted_act (Gets fd p) a \<longleftrightarrow> fd \<in> dom (m_sessions a) \<and> packet_accepted fd p a"
| "accepted_act (Hangs fd) a \<longleftrightarrow> fd \<in> dom (m_sessions a) \<and> will_accepted fd a"
| "accepted_act (Idles fd) a \<longleftrightarrow> fd \<in> dom (m_sessions a) \<and> will_accepted fd a"

text \<open>A sequence of acts, and when every choice of the machine can be followed through it.\<close>

fun steps :: "act list \<Rightarrow> machine \<Rightarrow> machine \<Rightarrow> bool" where
  "steps [] a a' \<longleftrightarrow> a' = a"
| "steps (x # xs) a a' \<longleftrightarrow> (\<exists>a1. step x a a1 \<and> steps xs a1 a')"

fun accepted_acts :: "act list \<Rightarrow> machine \<Rightarrow> bool" where
  "accepted_acts [] a \<longleftrightarrow> True"
| "accepted_acts (x # xs) a \<longleftrightarrow> accepted_act x a \<and> (\<forall>a'. step x a a' \<longrightarrow> accepted_acts xs a')"

section \<open>Closing later\<close>

text \<open>
  A step drops the session of a connection that is given up at once. The server thread does so only
  at the end of its pass, after all other entries. \<open>serves\<close> is an act without the dropping; its flag
  says whether the connection is given up.
\<close>

fun serves :: "act \<Rightarrow> machine \<Rightarrow> machine \<Rightarrow> bool \<Rightarrow> bool" where
  "serves (Opens fd) a a' del \<longleftrightarrow> \<not> del \<and> a' = put fd new_session a"
| "serves (Gets fd p) a a' del \<longleftrightarrow> (if p = Disconnect then del \<and> a' = a else \<not> del \<and> gets fd p a a')"
| "serves (Hangs fd) a a' del \<longleftrightarrow> del \<and> send_will fd a a'"
| "serves (Idles fd) a a' del \<longleftrightarrow> (if del then send_will fd (say fd Bye a) a' else a' = a)"

lemma serves_step: "serves x a a' del \<Longrightarrow> step x a (if del then drop_session (act_fd x) a' else a')"
  by (cases x) (auto simp: last_will_def split: if_splits)

text \<open>
  The machine with the connections that are given up and not closed yet, oldest first: it does an act,
  drops the session of the first of them, or gets rid of the first answer, which is sent.
\<close>

datatype move = Does act | Drops int | Sends

type_synonym service = "machine \<times> int list"

fun moves :: "move \<Rightarrow> service \<Rightarrow> service \<Rightarrow> bool" where
  "moves (Does x) (a, gone) (a', gone') \<longleftrightarrow>
     (\<exists>del. serves x a a' del \<and> gone' = (if del then gone @ [act_fd x] else gone))"
| "moves (Drops fd) (a, gone) (a', gone') \<longleftrightarrow> gone = fd # gone' \<and> a' = drop_session fd a"
| "moves Sends (a, gone) (a', gone') \<longleftrightarrow>
     m_out a \<noteq> [] \<and> a' = a\<lparr>m_out := tl (m_out a)\<rparr> \<and> gone' = gone"

fun run :: "move list \<Rightarrow> service \<Rightarrow> service \<Rightarrow> bool" where
  "run [] u u' \<longleftrightarrow> u' = u"
| "run (x # xs) u u' \<longleftrightarrow> (\<exists>u1. moves x u u1 \<and> run xs u1 u')"

fun offered_move :: "move \<Rightarrow> service \<Rightarrow> bool" where
  "offered_move (Does x) u \<longleftrightarrow> offered x (fst u)"
| "offered_move _ u \<longleftrightarrow> True"

fun offered_run :: "move list \<Rightarrow> service \<Rightarrow> bool" where
  "offered_run [] u \<longleftrightarrow> True"
| "offered_run (x # xs) u \<longleftrightarrow> offered_move x u \<and> (\<forall>u'. moves x u u' \<longrightarrow> offered_run xs u')"

lemma run_append: "run (xs @ ys) u u' \<longleftrightarrow> (\<exists>u1. run xs u u1 \<and> run ys u1 u')"
  by (induction xs arbitrary: u) auto

lemma offered_append:
  "offered_run (xs @ ys) u \<longleftrightarrow> offered_run xs u \<and> (\<forall>u'. run xs u u' \<longrightarrow> offered_run ys u')"
proof (induction xs arbitrary: u)
  case (Cons x xs)
  then show ?case by (simp del: split_paired_All split_paired_Ex) blast
qed simp

end
