(* ===== verification/Simulation.thy ===== *)
theory Simulation
  imports Machine Descriptors
begin

text \<open>
  The broker implements the abstract machine of \<open>Machine\<close>: the relation between their states, one
  lemma for each operation of the machine, and the simulation of whole sequences of events.
\<close>

section \<open>The relation\<close>

fun answer_cmd :: "int \<times> answer \<Rightarrow> FdWriteCommand" where
  "answer_cmd (fd, Ack t i) = ack_cmd fd t i"
| "answer_cmd (fd, Welcome clean) = packet_cmd fd (packet_type_byte CONNACK)
     [if clean then 0 else 1, 0, 11, 0x25, 1, 0x27, 0, 0, 0xFF, 0xFF, 0x28, 1, 0x2A, 0]"
| "answer_cmd (fd, Granted i n) =
     packet_cmd fd (packet_type_byte SUBACK) (be16 i @ [0] @ replicate n (rc granted_quos_2))"
| "answer_cmd (fd, Removed i bs) = packet_cmd fd (packet_type_byte UNSUBACK)
     (be16 i @ [0] @ map (\<lambda>x. if x then rc success else rc no_subscription_existed) bs)"
| "answer_cmd (fd, Pong) = new_FdWriteCommand fd (2, Some [0xD0, 0])"
| "answer_cmd (fd, Message q i nm m) = publish_cmd fd q i nm m"
| "answer_cmd (fd, Bye) = disconnect_cmd fd"

definition will_of :: "Client \<Rightarrow> (bytes \<times> bytes) option" where
  "will_of c = (if isWillFlag c then Some (t_name (will_topic c), the (t_data (will_topic c))) else None)"

text \<open>The flag says whether the client is among the subscribed ones.\<close>

definition shows_session :: "bool \<Rightarrow> Client \<Rightarrow> session \<Rightarrow> bool" where
  "shows_session listed c s \<longleftrightarrow> s_id s = client_id c \<and> s_subs s = map_of (subscribed_topics c) \<and>
     s_next s = packet_id_gen c \<and> s_will s = will_of c \<and>
     (subscribed_topics c \<noteq> [] \<longrightarrow> listed) \<and> (isWillFlag c \<longrightarrow> sendable (will_topic c)) \<and>
     (\<not> s_greeted s \<longrightarrow> conn_properties c = [] \<and> will_properties c = [] \<and> \<not> isRandomID c)"

definition listed :: "Broker \<Rightarrow> int \<Rightarrow> bool" where
  "listed b fd \<longleftrightarrow> fd \<in> fst ` set (subscribed_clients b)"

definition sessions_shown :: "machine \<Rightarrow> Broker \<Rightarrow> bool" where
  "sessions_shown a b \<longleftrightarrow> dom (m_sessions a) = fds_of b \<and> (\<forall>fd\<in>fds_of b. 0 < fd) \<and>
     (\<forall>fd r. (fd, Some r) \<in> set (clients b) \<longrightarrow> shows_session (listed b fd) (objects b r) (session fd a))"

definition kept_of :: "MqttTopic \<Rightarrow> u16 \<times> bytes \<times> bytes" where
  "kept_of t = (t_id t, t_name t, the (t_data t))"

definition storage_shown :: "machine \<Rightarrow> Broker \<Rightarrow> bool" where
  "storage_shown a b \<longleftrightarrow>
     m_retained a = (\<lambda>nm. map_option (\<lambda>t. the (t_data t)) (kv_find t_name nm (topics b))) \<and>
     (\<forall>t\<in>set (topics b). sendable t) \<and>
     m_kept a = (\<lambda>c. map kept_of (held c b)) \<and> (\<forall>c. \<forall>t\<in>set (held c b). sendable t)"

definition shown :: "machine \<Rightarrow> Broker \<Rightarrow> bool" where
  "shown a b \<longleftrightarrow> broker_inv b \<and> sessions_shown a b \<and> storage_shown a b \<and>
     commands b = map answer_cmd (m_out a)"

section \<open>The machine and the broker, operation by operation\<close>

lemma shown_inv: "shown a b \<Longrightarrow> broker_inv b"
  by (simp add: shown_def)

lemma shown_session:
  assumes "shown a b" and "fd \<in> dom (m_sessions a)"
  obtains r where "(fd, Some r) \<in> set (clients b)" "m_sessions a fd = Some (session fd a)"
    "shows_session (listed b fd) (objects b r) (session fd a)"
proof -
  obtain s where s: "m_sessions a fd = Some s" using assms(2) by blast
  have "fd \<in> fds_of b" using assms by (simp add: shown_def sessions_shown_def)
  then obtain p where mem: "(fd, p) \<in> set (clients b)" by (auto simp: fds_of_def)
  then obtain r where "p = Some r"
    using assms(1) by (fastforce simp: shown_def broker_inv_def clients_inv_def)
  with mem have r: "(fd, Some r) \<in> set (clients b)" by simp
  then have "shows_session (listed b fd) (objects b r) (session fd a)"
    using assms(1) by (simp add: shown_def sessions_shown_def)
  then show thesis using that [OF r] s by (simp add: session_def)
qed

lemma client_unique:
  assumes "broker_inv b" and "(fd, Some r) \<in> set (clients b)"
  shows "(fd, Some s) \<in> set (clients b) \<longleftrightarrow> s = r" and "(fd', Some r) \<in> set (clients b) \<longleftrightarrow> fd' = fd"
proof -
  have "distinct (map fst (clients b))" "distinct (map snd (clients b))"
    using assms(1) by (simp_all add: broker_inv_def clients_inv_def un_ok_def)
  note dist = this
  show "(fd, Some s) \<in> set (clients b) \<longleftrightarrow> s = r"
    using eq_key_imp_eq_value [OF dist(1) assms(2), of "Some s"] assms(2) by auto
  have "inj_on snd (set (clients b))" using dist(2) by (simp add: distinct_map)
  then show "(fd', Some r) \<in> set (clients b) \<longleftrightarrow> fd' = fd"
    using assms(2) inj_onD [of snd _ "(fd', Some r)" "(fd, Some r)"] by auto
qed

lemma shown_say:
  "shown a b \<Longrightarrow> shown (say fd x a) (b\<lparr>commands := commands b @ [answer_cmd (fd, x)]\<rparr>)"
  by (auto simp: shown_def say_def add_command_inv sessions_shown_def storage_shown_def fds_of_def listed_def
      session_def held_def)

text \<open>A client changes and its session with it.\<close>

lemma shown_put:
  assumes "shown a b" and mem: "(fd, Some r) \<in> set (clients b)"
    and "client_inv (objects b r) \<Longrightarrow> client_inv (f (objects b r))"
    and "shows_session (listed b fd) (f (objects b r)) s"
  shows "shown (put fd s a) (upd_obj r f b)"
proof -
  have inv: "broker_inv b" using assms(1) by (rule shown_inv)
  have "broker_inv (upd_obj r f b)" using inv assms(3) by (rule upd_obj_inv)
  moreover have "fd \<in> fds_of b" using mem by (force simp: fds_of_def)
  ultimately show ?thesis
    using assms client_unique [OF inv mem]
    by (auto simp: shown_def sessions_shown_def storage_shown_def put_def upd_obj_def fds_of_def listed_def
        session_def held_def)
qed

lemma put_session: "fd \<in> dom (m_sessions a) \<Longrightarrow> put fd (session fd a) a = a"
  by (cases a) (auto simp: put_def session_def)

section \<open>Delivery\<close>

lemma fst_clients_unique: "broker_inv b \<Longrightarrow> (fd, p) \<in> set (clients b) \<Longrightarrow> (fd, q) \<in> set (clients b) \<Longrightarrow> p = q"
  by (rule eq_key_imp_eq_value [of "clients b"]) (simp_all add: broker_inv_def clients_inv_def un_ok_def)

lemma wants_client:
  assumes "shows_session l c s" and "client_inv c"
  shows "wants s nm = (\<lambda>e. snd e AND 3) ` {e \<in> set (subscribed_topics c). sub_matches (fst e) nm}"
proof -
  have "distinct (map fst (subscribed_topics c))" using assms(2) by (simp add: client_inv_def un_ok_def)
  then have "s_subs s flt = Some opts \<longleftrightarrow> (flt, opts) \<in> set (subscribed_topics c)" for flt opts
    using assms(1) by (simp add: shows_session_def)
  then show ?thesis by (force simp: wants_def)
qed

lemma find_Some_in: "find P xs = Some x \<Longrightarrow> x \<in> set xs \<and> P x"
  by (induction xs) (auto split: if_splits)

lemma sub_opts_wants:
  assumes "shows_session l c s" and "client_inv c"
  shows "sub_opts c nm = Some opts \<Longrightarrow> opts AND 3 \<in> wants s nm"
    and "sub_opts c nm = None \<longleftrightarrow> wants s nm = {}"
  using wants_client [OF assms, of nm]
  by (force simp: sub_opts_def dest!: find_Some_in, auto simp: sub_opts_def find_None_iff)

lemma deliverable_ready:
  assumes "shown a b" and "deliverable nm a"
  shows "all_ready nm b"
  unfolding all_ready_def
proof
  fix e assume "e \<in> set (subscribed_clients b)"
  then have mem: "(fst e, Some (snd e)) \<in> set (clients b)"
    using assms(1) by (auto simp: shown_def broker_inv_def clients_inv_def)
  then have "fst e \<in> dom (m_sessions a)" using assms(1) by (force simp: shown_def sessions_shown_def fds_of_def)
  then obtain r where r: "(fst e, Some r) \<in> set (clients b)" "m_sessions a (fst e) = Some (session (fst e) a)"
    "shows_session (listed b (fst e)) (objects b r) (session (fst e) a)"
    by (rule shown_session [OF assms(1)])
  then have "r = snd e" using mem client_unique(1) [OF shown_inv [OF assms(1)] mem] by simp
  moreover have "session (fst e) a \<in> ran (m_sessions a)" using r(2) by (rule ranI)
  ultimately show "ready nm (objects b (snd e))"
    using assms(2) r(3) by (force simp: deliverable_def ready_def shows_session_def dom_map_of_conv_image_fst)
qed

lemma set_map_filter_eq: "set (List.map_filter f xs) = {y. \<exists>x\<in>set xs. f x = Some y}"
  by (induction xs) (auto simp: map_filter_simps split: option.splits)

lemma map_filter_fst:
  assumes "\<And>x y. f x = Some y \<Longrightarrow> fst y = fst x" and "distinct (map fst xs)"
  shows "distinct (map fst (List.map_filter f xs))"
    and "map_of (List.map_filter f xs) k = Option.bind (map_of xs k) (\<lambda>v. map_option snd (f (k, v)))"
proof -
  have sub: "fst ` set (List.map_filter f ys) \<subseteq> fst ` set ys" for ys
    using assms(1) by (auto simp: set_map_filter_eq) (metis fst_conv image_eqI)
  show "distinct (map fst (List.map_filter f xs))"
    using assms(2)
  proof (induction xs)
    case (Cons x xs)
    show ?case
    proof (cases "f x")
      case (Some y)
      have "fst y \<notin> fst ` set (List.map_filter f xs)" using sub [of xs] Cons.prems assms(1) [OF Some] by auto
      then show ?thesis using Cons Some by (simp add: map_filter_simps)
    qed (use Cons in \<open>simp add: map_filter_simps\<close>)
  qed (simp add: map_filter_simps)
  show "map_of (List.map_filter f xs) k = Option.bind (map_of xs k) (\<lambda>v. map_option snd (f (k, v)))"
    using assms(2)
  proof (induction xs)
    case (Cons x xs)
    obtain l v where x: "x = (l, v)" by (cases x)
    have "map_of (List.map_filter f xs) l = None"
      using sub [of xs] Cons.prems x by (auto simp: map_of_eq_None_iff)
    then show ?case
      using Cons assms(1) [of x] x by (cases "f x") (auto simp: map_filter_simps)
  qed (simp add: map_filter_simps)
qed

text \<open>The choice of the broker: the first matching subscription, in the order of its containers.\<close>

definition chosen :: "Broker \<Rightarrow> bytes \<Rightarrow> int \<times> nat \<Rightarrow> (int \<times> u8) option" where
  "chosen b nm e = map_option (\<lambda>opts. (fst e, opts AND 3)) (sub_opts (objects b (snd e)) nm)"

definition choices :: "Broker \<Rightarrow> bytes \<Rightarrow> (int \<times> u8) list" where
  "choices b nm = List.map_filter (chosen b nm) (subscribed_clients b)"

lemma delivered_simps [simp]:
  "clients (delivered nm m b) = clients b" "subscribed_clients (delivered nm m b) = subscribed_clients b"
  "topics (delivered nm m b) = topics b" "qos_2_topics (delivered nm m b) = qos_2_topics b"
  by (simp_all add: delivered_def)

lemma delivered_inv: "broker_inv b \<Longrightarrow> broker_inv (delivered nm m b)"
  by (auto simp: broker_inv_def clients_inv_def storage_inv_def delivered_def bump_def client_inv_def GenPacketID_def)

lemma subscribed_iff:
  assumes "broker_inv b" and "(fd, Some r) \<in> set (clients b)"
  shows "(fd, s) \<in> set (subscribed_clients b) \<longleftrightarrow> listed b fd \<and> s = r"
    and "map_of (subscribed_clients b) fd = (if listed b fd then Some r else None)"
proof -
  have *: "(fd, Some t) \<in> set (clients b)" if "(fd, t) \<in> set (subscribed_clients b)" for t
    using that assms(1) by (auto simp: broker_inv_def clients_inv_def)
  then show 1: "(fd, s) \<in> set (subscribed_clients b) \<longleftrightarrow> listed b fd \<and> s = r" for s
    using client_unique(1) [OF assms] by (force simp: listed_def)
  have "distinct (map fst (subscribed_clients b))" using assms(1) by (simp add: broker_inv_def clients_inv_def un_ok_def)
  then show "map_of (subscribed_clients b) fd = (if listed b fd then Some r else None)"
    using 1 by (auto simp: map_of_eq_None_iff listed_def)
qed

lemma choices_map:
  assumes "broker_inv b"
  shows "distinct (map fst (choices b nm))"
    and "(fd, Some r) \<in> set (clients b) \<Longrightarrow> map_of (choices b nm) fd =
      (if listed b fd then map_option (\<lambda>opts. opts AND 3) (sub_opts (objects b r) nm) else None)"
    and "fst ` set (choices b nm) \<subseteq> fds_of b"
proof -
  have dist: "distinct (map fst (subscribed_clients b))"
    using assms by (simp add: broker_inv_def clients_inv_def un_ok_def)
  have key: "fst y = fst x" if "chosen b nm x = Some y" for x y using that by (auto simp: chosen_def)
  show "distinct (map fst (choices b nm))"
    unfolding choices_def by (rule map_filter_fst(1) [OF key dist])
  have "map_of (choices b nm) fd = Option.bind (map_of (subscribed_clients b) fd) (\<lambda>r. map_option snd (chosen b nm (fd, r)))"
    unfolding choices_def by (rule map_filter_fst(2) [OF key dist])
  then show "(fd, Some r) \<in> set (clients b) \<Longrightarrow> map_of (choices b nm) fd =
      (if listed b fd then map_option (\<lambda>opts. opts AND 3) (sub_opts (objects b r) nm) else None)"
    using subscribed_iff(2) [OF assms] by (simp add: chosen_def option.map_comp comp_def)
  show "fst ` set (choices b nm) \<subseteq> fds_of b"
    using assms by (force simp: choices_def set_map_filter_eq chosen_def fds_of_def broker_inv_def clients_inv_def)
qed

lemma bump_listed:
  assumes "broker_inv b" and "(fd, Some r) \<in> set (clients b)"
  shows "bump nm (subscribed_clients b) (objects b) r =
    (case map_of (choices b nm) fd of None \<Rightarrow> objects b r
     | Some q \<Rightarrow> if q = 0 then objects b r else snd (GenPacketID (objects b r)))"
proof -
  have "r \<in> snd ` set (subscribed_clients b) \<longleftrightarrow> listed b fd"
  proof
    assume "r \<in> snd ` set (subscribed_clients b)"
    then obtain fd' where "(fd', r) \<in> set (subscribed_clients b)" by auto
    moreover then have "(fd', Some r) \<in> set (clients b)" using assms(1) by (auto simp: broker_inv_def clients_inv_def)
    ultimately show "listed b fd" using client_unique(2) [OF assms] by (force simp: listed_def)
  qed (use subscribed_iff(1) [OF assms, of r] in force)
  then show ?thesis
    using choices_map(2) [OF assms] by (auto simp: bump_def takes_id_def split: option.splits)
qed

lemma delivery_answer:
  assumes "shown a b" and "e \<in> set (subscribed_clients b)"
  shows "delivery (objects b) nm m e =
    map_option (\<lambda>(fd, q). answer_cmd (fd, Message q (use_id q (session fd a)) nm m)) (chosen b nm e)"
proof -
  have "(fst e, Some (snd e)) \<in> set (clients b)"
    using assms by (auto simp: shown_def broker_inv_def clients_inv_def)
  then have "s_next (session (fst e) a) = packet_id_gen (objects b (snd e))"
    using assms(1) by (auto simp: shown_def sessions_shown_def shows_session_def)
  then show ?thesis
    by (auto simp: delivery_def chosen_def use_id_def Let_def split: option.splits)
qed

lemma map_filter_map_option:
  "(\<And>x. x \<in> set xs \<Longrightarrow> f x = map_option g (h x)) \<Longrightarrow> List.map_filter f xs = map g (List.map_filter h xs)"
  by (induction xs) (auto simp: map_filter_simps split: option.splits)

lemma dom_case_map_option:
  "dom (\<lambda>k. case f k of None \<Rightarrow> g k | Some q \<Rightarrow> map_option (h q) (g k)) = dom g"
proof -
  have "((case f k of None \<Rightarrow> g k | Some q \<Rightarrow> map_option (h q) (g k)) = None) = (g k = None)" for k
    by (cases "f k") simp_all
  then show ?thesis by (simp add: dom_def)
qed

lemma shown_deliver:
  assumes sh: "shown a b"
  shows "\<exists>a'. deliver nm m a a' \<and> shown a' (delivered nm m b)"
proof -
  have inv: "broker_inv b" using sh by (rule shown_inv)
  define ds where "ds = choices b nm"
  define a' where "a' = a\<lparr>m_sessions := (\<lambda>fd. case map_of ds fd of
      None \<Rightarrow> m_sessions a fd | Some q \<Rightarrow> map_option (spend q) (m_sessions a fd)),
    m_out := m_out a @ map (\<lambda>(fd, q). (fd, Message q (use_id q (session fd a)) nm m)) ds\<rparr>"
  have dom: "dom (m_sessions a) = fds_of b" using sh by (simp add: shown_def sessions_shown_def)
  have client: "\<exists>r. (fd, Some r) \<in> set (clients b) \<and> shows_session (listed b fd) (objects b r) (session fd a)"
    if "fd \<in> fds_of b" for fd using shown_session [OF sh] that dom by blast
  have one: "q \<in> wants (session fd a) nm" if q: "map_of ds fd = Some q" and fd: "fd \<in> fds_of b" for fd q
  proof -
    obtain r where r: "(fd, Some r) \<in> set (clients b)" "shows_session (listed b fd) (objects b r) (session fd a)"
      using client [OF fd] by blast
    then obtain opts where "sub_opts (objects b r) nm = Some opts" "q = opts AND 3"
      using q choices_map(2) [OF inv r(1), of nm] by (auto simp: ds_def split: if_splits)
    then show ?thesis using sub_opts_wants(1) [OF r(2) broker_invD(3) [OF inv]] by simp
  qed
  have all: "map_of ds fd \<noteq> None" if w: "wants (session fd a) nm \<noteq> {}" and fd: "fd \<in> fds_of b" for fd
  proof -
    obtain r where r: "(fd, Some r) \<in> set (clients b)" "shows_session (listed b fd) (objects b r) (session fd a)"
      using client [OF fd] by blast
    have some: "sub_opts (objects b r) nm \<noteq> None"
      using sub_opts_wants(2) [OF r(2) broker_invD(3) [OF inv]] w by simp
    then have "subscribed_topics (objects b r) \<noteq> []" by (auto simp: sub_opts_def)
    then have "listed b fd" using r(2) by (simp add: shows_session_def)
    then show ?thesis using choices_map(2) [OF inv r(1), of nm] some by (auto simp: ds_def)
  qed
  have dist: "distinct (map fst ds)" unfolding ds_def by (rule choices_map(1) [OF inv])
  have sub: "fst ` set ds \<subseteq> fds_of b" unfolding ds_def by (rule choices_map(3) [OF inv])
  have "fst ` set ds = {fd \<in> dom (m_sessions a). wants (session fd a) nm \<noteq> {}}"
  proof (intro equalityI subsetI)
    fix fd assume fd: "fd \<in> fst ` set ds"
    then obtain q where "map_of ds fd = Some q" by (metis map_of_eq_None_iff option.exhaust)
    then show "fd \<in> {fd \<in> dom (m_sessions a). wants (session fd a) nm \<noteq> {}}"
      using one [of fd q] sub fd dom by (simp only: mem_Collect_eq) blast
  next
    fix fd assume "fd \<in> {fd \<in> dom (m_sessions a). wants (session fd a) nm \<noteq> {}}"
    then show "fd \<in> fst ` set ds" using all dom by (auto simp: map_of_eq_None_iff)
  qed
  moreover have "\<forall>(fd, q)\<in>set ds. q \<in> wants (session fd a) nm"
    using one dist sub by (force simp: map_of_is_SomeI)
  ultimately have "deliver nm m a a'" using dist unfolding deliver_def a'_def by blast
  moreover have "shown a' (delivered nm m b)"
  proof -
    have "List.map_filter (delivery (objects b) nm m) (subscribed_clients b) =
        map (\<lambda>(fd, q). answer_cmd (fd, Message q (use_id q (session fd a)) nm m)) ds"
      unfolding ds_def choices_def by (rule map_filter_map_option) (rule delivery_answer [OF sh])
    then have "commands (delivered nm m b) = map answer_cmd (m_out a')"
      using sh by (simp add: delivered_def a'_def shown_def case_prod_unfold)
    moreover have "sessions_shown a' (delivered nm m b)"
      unfolding sessions_shown_def
    proof (intro conjI allI impI)
      show "dom (m_sessions a') = fds_of (delivered nm m b)"
        using dom by (simp add: a'_def fds_of_def dom_case_map_option)
      show "\<forall>fd\<in>fds_of (delivered nm m b). 0 < fd" using sh by (simp add: shown_def sessions_shown_def fds_of_def)
      fix fd r assume "(fd, Some r) \<in> set (clients (delivered nm m b))"
      then have mem: "(fd, Some r) \<in> set (clients b)" by simp
      then have fd: "fd \<in> fds_of b" by (force simp: fds_of_def)
      have old: "shows_session (listed b fd) (objects b r) (session fd a)"
        using sh mem by (simp add: shown_def sessions_shown_def)
      obtain s where s: "m_sessions a fd = Some s" using fd dom by auto
      show "shows_session (listed (delivered nm m b) fd) (objects (delivered nm m b) r) (session fd a')"
      proof (cases "map_of ds fd")
        case None
        then have "session fd a' = session fd a" by (simp add: a'_def session_def)
        then show ?thesis using old bump_listed [OF inv mem, of nm] None
          by (simp add: delivered_def listed_def ds_def)
      next
        case (Some q)
        then have "session fd a' = spend q (session fd a)" using s by (simp add: a'_def session_def)
        then show ?thesis using old bump_listed [OF inv mem, of nm] Some
          by (simp add: delivered_def listed_def ds_def shows_session_def spend_def GenPacketID_def will_of_def
              isWillFlag_def isRandomID_def)
      qed
    qed
    moreover have "storage_shown a' (delivered nm m b)"
      using sh by (simp add: shown_def storage_shown_def a'_def held_def)
    ultimately show ?thesis using inv by (simp add: shown_def delivered_inv)
  qed
  ultimately show ?thesis by blast
qed

lemma deliver_keeps:
  assumes "deliver nm m a a'"
  shows "m_kept a' = m_kept a" and "m_retained a' = m_retained a" and "dom (m_sessions a') = dom (m_sessions a)"
    and "session fd a' = session fd a \<or> session fd a' = (session fd a)\<lparr>s_next := s_next (session fd a) + 1\<rparr>"
proof -
  obtain ds where ds: "fst ` set ds \<subseteq> dom (m_sessions a)"
    and a': "a' = a\<lparr>m_sessions := (\<lambda>fd. case map_of ds fd of
        None \<Rightarrow> m_sessions a fd | Some q \<Rightarrow> map_option (spend q) (m_sessions a fd)),
      m_out := m_out a @ map (\<lambda>(fd, q). (fd, Message q (use_id q (session fd a)) nm m)) ds\<rparr>"
    using assms unfolding deliver_def by blast
  show "m_kept a' = m_kept a" "m_retained a' = m_retained a" by (simp_all add: a')
  show "dom (m_sessions a') = dom (m_sessions a)" by (simp add: a' dom_case_map_option)
  show "session fd a' = session fd a \<or> session fd a' = (session fd a)\<lparr>s_next := s_next (session fd a) + 1\<rparr>"
  proof (cases "map_of ds fd")
    case (Some q)
    then have "fd \<in> dom (m_sessions a)" using ds by (force dest: map_of_SomeD)
    then show ?thesis using Some by (auto simp: a' session_def spend_def)
  qed (simp add: a' session_def)
qed

lemma deliver_id: "deliver nm m a a' \<Longrightarrow> s_id (session fd a') = s_id (session fd a)"
  using deliver_keeps(4) [of nm m a a' fd] by auto

section \<open>Storage and sessions\<close>

lemma shown_storage:
  assumes "shown a b" and "broker_inv b'" and "storage_shown a' b'"
    and "m_sessions a' = m_sessions a" and "m_out a' = m_out a" and "clients b' = clients b"
    and "subscribed_clients b' = subscribed_clients b" and "objects b' = objects b" and "commands b' = commands b"
  shows "shown a' b'"
  using assms by (simp add: shown_def sessions_shown_def fds_of_def listed_def session_def)

lemma shown_retain:
  assumes "shown a b" and "sendable (new_MqttTopic q i nm (Some m))"
  shows "shown (retain nm m a) (StoreTopicValue q i nm (Some m) b)"
proof (rule shown_storage [OF assms(1)])
  let ?t = "new_MqttTopic q i nm (Some m)"
  have inv: "storage_inv b" using assms(1) by (simp add: shown_def broker_inv_def)
  show "broker_inv (StoreTopicValue q i nm (Some m) b)"
    by (rule StoreTopicValue_broker_inv [OF shown_inv [OF assms(1)]])
  have "set (topics (StoreTopic ?t b)) \<subseteq> insert ?t (set (topics b))"
    using ord.set_replace [of t_name "topics b" ?t] inv by (auto simp: StoreTopic_def storage_inv_def)
  then show "storage_shown (retain nm m a) (StoreTopicValue q i nm (Some m) b)"
    using assms find_StoreTopic [OF inv, of _ ?t]
    by (auto simp: shown_def storage_shown_def retain_def StoreTopicValue_StoreTopic fun_eq_iff held_def)
      (auto simp: StoreTopic_def)
qed (simp_all add: retain_def StoreTopicValue_def Let_def)

lemma shown_keep:
  assumes "shown a b" and "sendable t"
  shows "shown (keep c (kept_of t) a) (AddQoSTopic c t b)"
proof (rule shown_storage [OF assms(1)])
  have inv: "storage_inv b" using assms(1) by (simp add: shown_def broker_inv_def)
  show "broker_inv (AddQoSTopic c t b)"
    using assms(1) AddQoSTopic_inv [OF inv]
    by (auto simp: shown_def broker_inv_def clients_inv_def AddQoSTopic_def)
  show "storage_shown (keep c (kept_of t) a) (AddQoSTopic c t b)"
    using assms held_AddQoSTopic [OF inv]
    by (auto simp: shown_def storage_shown_def keep_def fun_eq_iff) (simp_all add: AddQoSTopic_def)
qed (simp_all add: keep_def AddQoSTopic_def)

lemma remove_first_kept:
  "map kept_of (remove_first (\<lambda>t. t_id t = i) ts) = remove_first (\<lambda>x. fst x = i) (map kept_of ts)"
  using remove_first_map [of kept_of "\<lambda>x. fst x = i" ts] by (simp add: comp_def kept_of_def)

lemma set_remove_first: "set (remove_first P xs) \<subseteq> set xs"
  by (induction xs) auto

lemma shown_forget:
  assumes "shown a b"
  shows "shown (forget c i a) (DelQoSTopic c i b)"
proof (rule shown_storage [OF assms])
  have inv: "storage_inv b" using assms by (simp add: shown_def broker_inv_def)
  show "broker_inv (DelQoSTopic c i b)"
    using assms DelQoSTopic_inv [OF inv, of c i]
    by (auto simp: shown_def broker_inv_def clients_inv_def DelQoSTopic_def)
  show "storage_shown (forget c i a) (DelQoSTopic c i b)"
    using assms held_DelQoSTopic [OF inv]
    by (auto dest!: set_remove_first [THEN subsetD] simp: shown_def storage_shown_def forget_def fun_eq_iff remove_first_kept)
      (auto simp: DelQoSTopic_def)
qed (simp_all add: forget_def DelQoSTopic_def)

lemma shown_close:
  assumes "shown a b"
  shows "shown (drop_session fd a) (CloseConnection fd b)"
proof -
  have keys: "fds_of (CloseConnection fd b) = fds_of b - {fd}"
    by (auto simp: fds_of_def DelClient_clients)
  have same: "topics (CloseConnection fd b) = topics b" "qos_2_topics (CloseConnection fd b) = qos_2_topics b"
    "commands (CloseConnection fd b) = commands b" "objects (CloseConnection fd b) = objects b"
    by (simp_all add: CloseConnection_def DelClient_def DelSubscribedClient_def Let_def)
  have "listed (CloseConnection fd b) fd' = listed b fd'" if "fd' \<noteq> fd" for fd'
    using that by (force simp: listed_def DelClient_clients)
  then show ?thesis
    using assms CloseConnection_inv
    by (auto simp: shown_def sessions_shown_def storage_shown_def drop_session_def keys same held_def session_def
        DelClient_clients)
qed

end
