(* ===== verification/Machine_Packets.thy ===== *)
theory Machine_Packets
  imports Simulation
begin

text \<open>The handler of each packet simulates what the abstract machine does with it.\<close>

section \<open>Packets and bytes\<close>

text \<open>A packet whose first byte is \<open>t\<close>. What the broker does not look at is left open: properties, the
  credentials of a CONNECT, the rest of an acknowledgement.\<close>

fun carries :: "u8 \<Rightarrow> bytes \<Rightarrow> packet \<Rightarrow> bool" where
  "carries t body (Connect cid clean w) \<longleftrightarrow> drop_bit 4 t = pack_code CONNECT \<and>
     (\<exists>p. connect_packet_ok p \<and> body = connect_body p \<and> cp_id p = cid \<and>
       (clean \<longleftrightarrow> conn_flags (cp_vh p) AND 2 \<noteq> 0) \<and> w = map_option snd (cp_will p))"
| "carries t body (Publish q ret i nm m) \<longleftrightarrow> drop_bit 4 t = pack_code PUBLISH \<and>
     QoS (header t body) = q \<and> isRETAIN (header t body) = ret \<and>
     (\<exists>v. publish_packet_ok (header t body) v m body \<and> topic_name v = nm \<and> pu_packet_id v = i)"
| "carries t body (Puback i) \<longleftrightarrow> drop_bit 4 t = pack_code PUBACK \<and> (\<exists>ys. body = be16 i @ ys)"
| "carries t body (Pubrec i) \<longleftrightarrow> drop_bit 4 t = pack_code PUBREC \<and> (\<exists>ys. body = be16 i @ ys)"
| "carries t body (Pubrel i) \<longleftrightarrow> drop_bit 4 t = pack_code PUBREL \<and> (\<exists>ys. body = be16 i @ ys)"
| "carries t body (Pubcomp i) \<longleftrightarrow> drop_bit 4 t = pack_code PUBCOMP \<and> (\<exists>ys. body = be16 i @ ys)"
| "carries t body (Subscribe i ts) \<longleftrightarrow> drop_bit 4 t = pack_code SUBSCRIBE \<and>
     (\<exists>v. subscribe_packet_ok (header t body) v ts body \<and> sub_packet_id v = i)"
| "carries t body (Unsubscribe i flts) \<longleftrightarrow> drop_bit 4 t = pack_code UNSUBSCRIBE \<and>
     (\<exists>v. unsubscribe_packet_ok (header t body) v flts body \<and> us_packet_id v = i)"
| "carries t body Pingreq \<longleftrightarrow> drop_bit 4 t = pack_code PINGREQ"
| "carries t body Disconnect \<longleftrightarrow> drop_bit 4 t = pack_code DISCONNECT"

text \<open>What a handler that succeeds must show.\<close>

definition simulated :: "int \<Rightarrow> packet \<Rightarrow> machine \<Rightarrow> (mqtt_err \<times> Broker) res \<Rightarrow> bool" where
  "simulated fd p a res \<longleftrightarrow> (\<exists>b' a'. res = Inr (mqtt_ok, b') \<and> gets fd p a a' \<and> shown a' b')"

lemma simulatedI: "res = Inr (mqtt_ok, b') \<Longrightarrow> gets fd p a a' \<Longrightarrow> shown a' b' \<Longrightarrow> simulated fd p a res"
  by (auto simp: simulated_def)

section \<open>PUBLISH and PUBREL\<close>

lemma sendable_new: "length nm < 2 ^ 16 \<Longrightarrow> length m < 2 ^ 16 \<Longrightarrow> sendable (new_MqttTopic q i nm (Some m))"
  by (simp add: sendable_def)

lemma deliverable_say [simp]: "deliverable nm (say fd x a) = deliverable nm a"
  by (simp add: deliverable_def say_def)

lemma deliverable_retain [simp]: "deliverable nm (retain nm' m a) = deliverable nm a"
  by (simp add: deliverable_def retain_def)

lemma session_same [simp]:
  "session fd (say fd' x a) = session fd a" "session fd (retain nm m a) = session fd a"
  by (simp_all add: session_def say_def retain_def)

lemma Publish_simulated:
  assumes sh: "shown a b" and mem: "(fd, Some r) \<in> set (clients b)" and ok: "publish_packet_ok fh v m buf"
    and rdy: "deliverable (topic_name v) a"
  shows "simulated fd (Publish (QoS fh) (isRETAIN fh) (pu_packet_id v) (topic_name v) m) a
    (MqttPublishPacketHandler fh buf fd b)"
proof -
  let ?a = "if isRETAIN fh then retain (topic_name v) m a else a"
  let ?b = "store_if fh v m b"
  have small: "length (topic_name v) < 2 ^ 16" "length m < 2 ^ 16" using ok by (simp_all add: publish_packet_ok_def)
  have sh1: "shown ?a ?b" using sh small shown_retain by (simp add: store_if_def sendable_new)
  note pub = Publish_published [OF shown_inv [OF sh] mem ok deliverable_ready [OF sh rdy]]
  have id: "s_id (session fd a) = client_id (objects b r)"
    using sh mem by (auto simp: shown_def sessions_shown_def shows_session_def)
  consider "QoS fh = 1" | "QoS fh = 2" | "QoS fh \<noteq> 1" "QoS fh \<noteq> 2" by blast
  then show ?thesis
  proof cases
    case 1
    let ?b1 = "?b\<lparr>commands := commands ?b @ [answer_cmd (fd, ack PUBACK (pu_packet_id v))]\<rparr>"
    have "shown (say fd (ack PUBACK (pu_packet_id v)) ?a) ?b1" by (rule shown_say [OF sh1])
    then obtain a' where "deliver (topic_name v) m (say fd (ack PUBACK (pu_packet_id v)) ?a) a'"
      "shown a' (delivered (topic_name v) m ?b1)" using shown_deliver by blast
    then show ?thesis using pub 1 by (intro simulatedI) (simp_all add: published_def Let_def)
  next
    case 2
    let ?t = "new_MqttTopic 2 (pu_packet_id v) (topic_name v) (Some m)"
    have "shown (keep (client_id (objects b r)) (kept_of ?t) (say fd (ack PUBREC (pu_packet_id v)) ?a))
        (AddQoSTopic (client_id (objects b r)) ?t
          (?b\<lparr>commands := commands ?b @ [answer_cmd (fd, ack PUBREC (pu_packet_id v))]\<rparr>))"
      by (rule shown_keep [OF shown_say [OF sh1] sendable_new]) (use small in simp_all)
    then show ?thesis using pub 2 id
      by (intro simulatedI) (simp_all add: published_def Let_def kept_of_def if_distrib [of "session fd"])
  next
    case 3
    then obtain a' where "deliver (topic_name v) m ?a a'" "shown a' (delivered (topic_name v) m ?b)"
      using shown_deliver [OF sh1] by blast
    then show ?thesis using pub 3 by (intro simulatedI) (simp_all add: published_def Let_def)
  qed
qed

lemma find_kept: "find (\<lambda>x. fst x = i) (map kept_of ts) = map_option kept_of (find (\<lambda>t. t_id t = i) ts)"
  by (induction ts) (simp_all add: kept_of_def)

lemma PubRel_simulated:
  assumes sh: "shown a b" and mem: "(fd, Some r) \<in> set (clients b)" and ok: "packet_accepted fd (Pubrel i) a"
  shows "simulated fd (Pubrel i) a (MqttPubRelPacketHandler fh (be16 i @ ys) fd b)"
proof -
  let ?c = "client_id (objects b r)"
  have inv: "broker_inv b" using sh by (rule shown_inv)
  have id: "s_id (session fd a) = ?c"
    using sh mem by (auto simp: shown_def sessions_shown_def shows_session_def)
  have kept: "m_kept a ?c = map kept_of (held ?c b)" "\<forall>t\<in>set (held ?c b). sendable t"
    using sh by (simp_all add: shown_def storage_shown_def)
  have found: "all_ready (t_name t) b \<and> sendable t" if "find (\<lambda>t. t_id t = i) (held ?c b) = Some t" for t
  proof -
    have t: "t \<in> set (held ?c b)" "t_id t = i" using find_Some_in [OF that] by simp_all
    then have "(i, t_name t, the (t_data t)) \<in> set (m_kept a ?c)" unfolding kept(1) kept_of_def by force
    then have "deliverable (t_name t) a" using ok id by force
    then show ?thesis using deliverable_ready [OF sh] kept(2) t(1) by blast
  qed
  then have rel: "MqttPubRelPacketHandler fh (be16 i @ ys) fd b = Inr (mqtt_ok, released i fd r b)"
    by (intro PubRel_released [OF inv mem]) (auto simp: sendable_def)
  let ?a1 = "say fd (ack PUBCOMP i) a"
  let ?b1 = "b\<lparr>commands := commands b @ [answer_cmd (fd, ack PUBCOMP i)]\<rparr>"
  have sh1: "shown ?a1 ?b1" by (rule shown_say [OF sh])
  have held: "held ?c ?b1 = held ?c b" by (simp add: held_def)
  have quiet: "DelQosEvent ?c i ?b1 = ?b1" using inv by (intro DelQosEvent_none) (simp add: broker_inv_def)
  have out: "m_kept ?a1 ?c = map kept_of (held ?c b)" using kept(1) by (simp add: say_def)
  show ?thesis
  proof (cases "find (\<lambda>t. t_id t = i) (held ?c b)")
    case None
    then have "released i fd r b = ?b1" using quiet held by (simp add: released_def Let_def)
    moreover have "gets fd (Pubrel i) a ?a1" using None id out by (simp add: Let_def find_kept)
    ultimately show ?thesis using rel sh1 by (intro simulatedI) simp_all
  next
    case (Some t)
    obtain a2 where a2: "deliver (t_name t) (the (t_data t)) ?a1 a2"
      "shown a2 (delivered (t_name t) (the (t_data t)) ?b1)" using shown_deliver [OF sh1] by blast
    have "released i fd r b = DelQoSTopic ?c i (delivered (t_name t) (the (t_data t)) ?b1)"
      using Some quiet held by (simp add: released_def Let_def)
    moreover have "gets fd (Pubrel i) a (forget ?c i a2)"
      using Some id out a2(1) by (auto simp: Let_def find_kept kept_of_def)
    ultimately show ?thesis using rel shown_forget [OF a2(2)] by (intro simulatedI) simp_all
  qed
qed

section \<open>Acknowledgements and PINGREQ\<close>

lemma quiet_broker:
  assumes "broker_inv b"
  shows "DelQosEvent c i b = b" and "send_postponed fd c b = Inr b"
  using assms by (simp_all add: broker_inv_def DelQosEvent_none send_postponed_def CheckIfMoreMessages_def)

lemma PubAck_simulated:
  assumes "shown a b" and "(fd, Some r) \<in> set (clients b)"
  shows "simulated fd (Puback i) a (MqttPubAckPacketHandler fh (be16 i @ ys) fd b)"
proof (rule simulatedI [OF _ _ assms(1)])
  have inv: "broker_inv b" using assms(1) by (rule shown_inv)
  have "clients_at fd b = (Some r, b)"
    using inv assms(2) by (intro clients_at_present) (simp_all add: broker_inv_def)
  then show "MqttPubAckPacketHandler fh (be16 i @ ys) fd b = Inr (mqtt_ok, b)"
    by (simp add: MqttPubAckPacketHandler_def HandleMqttPuback_id quiet_broker [OF inv] Let_def)
qed simp

lemma PubComp_simulated:
  assumes "shown a b" and "(fd, Some r) \<in> set (clients b)"
  shows "simulated fd (Pubcomp i) a (MqttPubCompPacketHandler fh (be16 i @ ys) fd b)"
proof (rule simulatedI [OF _ _ assms(1)])
  have inv: "broker_inv b" using assms(1) by (rule shown_inv)
  have "clients_at fd b = (Some r, b)"
    using inv assms(2) by (intro clients_at_present) (simp_all add: broker_inv_def)
  then show "MqttPubCompPacketHandler fh (be16 i @ ys) fd b = Inr (mqtt_ok, b)"
    by (simp add: MqttPubCompPacketHandler_def HandleMqttPuback_id quiet_broker [OF inv])
qed simp

lemma PubRec_simulated:
  assumes "shown a b" and "(fd, Some r) \<in> set (clients b)"
  shows "simulated fd (Pubrec i) a (MqttPubRecPacketHandler fh (be16 i @ ys) fd b)"
proof (rule simulatedI [OF _ _ shown_say [OF assms(1)]])
  have inv: "broker_inv b" using assms(1) by (rule shown_inv)
  have at: "clients_at fd b = (Some r, b)"
    using inv assms(2) by (intro clients_at_present) (simp_all add: broker_inv_def)
  have v: "pa_packet_id (new_TypicalVH 0 0 []\<lparr>pa_packet_id := i, pa_chain := []\<rparr>) = i" by simp
  then show "MqttPubRecPacketHandler fh (be16 i @ ys) fd b = Inr (mqtt_ok,
      b\<lparr>commands := commands b @ [answer_cmd (fd, Ack (packet_type_byte PUBREL OR 2) i)]\<rparr>)"
    by (simp add: MqttPubRecPacketHandler_def HandleMqttPuback_id quiet_broker [OF inv] Let_def at v reply_typical
        del: rc.simps)
qed simp

lemma Ping_simulated:
  assumes "shown a b" and "(fd, Some r) \<in> set (clients b)"
  shows "simulated fd Pingreq a (MqttPingPacketHandler fh dat fd b)"
proof (rule simulatedI [OF _ _ shown_say [OF assms(1)]])
  show "MqttPingPacketHandler fh dat fd b =
      Inr (mqtt_ok, b\<lparr>commands := commands b @ [answer_cmd (fd, Pong)]\<rparr>)"
    using Ping_answer [OF shown_inv [OF assms(1)] assms(2)] by simp
qed simp

section \<open>UNSUBSCRIBE\<close>

lemma map_of_find: "map_of es k = map_option snd (kv_find fst k es)"
  by (induction es) auto

lemma map_of_kv_erase: "map_of (kv_erase fst k es) = (map_of es)(k := None)"
  by (simp add: fun_eq_iff map_of_find kv_find_erase)

lemma unsub_codes_removals:
  "unsub_codes flts c = map (\<lambda>x. if x then rc success else rc no_subscription_existed)
    (removals flts (map_of (subscribed_topics c)))"
proof (induction flts arbitrary: c)
  case Nil
  then show ?case by (simp add: unsub_codes_def)
next
  case (Cons flt flts)
  have "CFind flt c \<noteq> None \<longleftrightarrow> flt \<in> dom (map_of (subscribed_topics c))"
    by (auto simp: CFind_def map_of_find)
  moreover have "map_of (subscribed_topics (snd (DelSubscription flt c))) = (map_of (subscribed_topics c))(flt := None)"
    by (simp add: DelSubscription_def map_of_kv_erase)
  ultimately show ?case by (simp add: unsub_codes_Cons Cons.IH fun_upd_def del: rc.simps)
qed

definition unsubscribe_client :: "bytes list \<Rightarrow> Client \<Rightarrow> Client" where
  "unsubscribe_client flts c = fold (\<lambda>flt c. snd (DelSubscription flt c)) flts c"

lemma unsubscribed_from_client: "unsubscribed_from r flts b = upd_obj r (unsubscribe_client flts) b"
proof (induction flts arbitrary: b)
  case Nil
  then show ?case using upd_obj_id [of r b] by (simp add: unsubscribed_from_def unsubscribe_client_def [abs_def])
next
  case (Cons flt flts)
  then show ?case
    by (simp add: unsubscribed_from_def unsubscribe_client_def [abs_def] upd_obj_upd_obj)
qed

lemma unsubscribe_client_shows:
  assumes "shows_session l c s" and "client_inv c"
  shows "client_inv (unsubscribe_client flts c) \<and>
    shows_session l (unsubscribe_client flts c) (s\<lparr>s_subs := s_subs s |` (- set flts)\<rparr>)"
  using assms
proof (induction flts arbitrary: c s)
  case (Cons flt flts)
  let ?c = "snd (DelSubscription flt c)" and ?s = "s\<lparr>s_subs := (s_subs s)(flt := None)\<rparr>"
  have "shows_session l ?c ?s"
    using Cons.prems(1) by (auto simp: shows_session_def DelSubscription_def map_of_kv_erase will_of_def
        isWillFlag_def isRandomID_def)
  then have "client_inv (unsubscribe_client flts ?c) \<and>
      shows_session l (unsubscribe_client flts ?c) (?s\<lparr>s_subs := s_subs ?s |` (- set flts)\<rparr>)"
    using Cons.IH DelSubscription_inv [OF Cons.prems(2)] by blast
  moreover have "s_subs ?s |` (- set flts) = s_subs s |` (- set (flt # flts))"
    by (auto simp: restrict_map_def)
  ultimately show ?case by (simp add: unsubscribe_client_def)
qed (simp add: unsubscribe_client_def restrict_map_def)

lemma Unsubscribe_simulated:
  assumes sh: "shown a b" and mem: "(fd, Some r) \<in> set (clients b)"
    and ok: "unsubscribe_packet_ok fh v flts buf"
  shows "simulated fd (Unsubscribe (us_packet_id v) flts) a (MqttUnsubscribePacketHandler fh buf fd b)"
proof (rule simulatedI)
  let ?s = "(session fd a)\<lparr>s_subs := s_subs (session fd a) |` (- set flts)\<rparr>"
  let ?x = "Removed (us_packet_id v) (removals flts (s_subs (session fd a)))"
  let ?b = "upd_obj r (unsubscribe_client flts) b"
  have s: "shows_session (listed b fd) (objects b r) (session fd a)"
    using sh mem by (simp add: shown_def sessions_shown_def)
  have "shown (put fd ?s a) ?b"
    using unsubscribe_client_shows [OF s broker_invD(3) [OF shown_inv [OF sh]]] by (intro shown_put [OF sh mem]) simp_all
  then show "shown (say fd ?x (put fd ?s a)) (?b\<lparr>commands := commands ?b @ [answer_cmd (fd, ?x)]\<rparr>)"
    by (rule shown_say)
  have "s_subs (session fd a) = map_of (subscribed_topics (objects b r))" using s by (simp add: shows_session_def)
  then have "unsubscribed v flts fd r b = ?b\<lparr>commands := commands ?b @ [answer_cmd (fd, ?x)]\<rparr>"
    using unsub_codes_removals [of flts "objects b r"]
    by (simp add: unsubscribed_def unsubscribed_from_client upd_obj_def del: rc.simps)
  then show "MqttUnsubscribePacketHandler fh buf fd b =
      Inr (mqtt_ok, ?b\<lparr>commands := commands ?b @ [answer_cmd (fd, ?x)]\<rparr>)"
    using Unsubscribe_unsubscribed [OF shown_inv [OF sh] mem ok] by simp
qed simp

section \<open>SUBSCRIBE\<close>

lemma shown_list:
  assumes "shown a b" and "(fd, Some r) \<in> set (clients b)"
  shows "shown a (AddSubscribedClient fd r b)" and "listed (AddSubscribedClient fd r b) fd"
proof -
  have ok: "un_ok fst (subscribed_clients b)" using assms(1) by (simp add: shown_def broker_inv_def clients_inv_def)
  have "listed (AddSubscribedClient fd r b) fd' \<longleftrightarrow> fd' = fd \<or> listed b fd'" for fd'
    using un.set_ins [OF ok, of "(fd, r)"] by (auto simp: listed_def AddSubscribedClient_def split: if_splits)
  moreover have "clients (AddSubscribedClient fd r b) = clients b" "objects (AddSubscribedClient fd r b) = objects b"
    "commands (AddSubscribedClient fd r b) = commands b" "topics (AddSubscribedClient fd r b) = topics b"
    "qos_2_topics (AddSubscribedClient fd r b) = qos_2_topics b"
    by (simp_all add: AddSubscribedClient_def)
  ultimately show "shown a (AddSubscribedClient fd r b)" "listed (AddSubscribedClient fd r b) fd"
    using assms AddSubscribedClient_inv [OF shown_inv [OF assms(1)] assms(2)]
    by (auto simp: shown_def sessions_shown_def storage_shown_def fds_of_def held_def shows_session_def)
qed

definition subscribe_client :: "(bytes \<times> u8) list \<Rightarrow> Client \<Rightarrow> Client" where
  "subscribe_client ts c = fold (\<lambda>(flt, opts). AddSubscription flt opts) ts c"

lemma subscribe_all_client: "subscribe_all r ts b = upd_obj r (subscribe_client ts) b"
proof (induction ts arbitrary: b)
  case Nil
  then show ?case using upd_obj_id [of r b] by (simp add: subscribe_all_def subscribe_client_def [abs_def])
next
  case (Cons t ts)
  then show ?case
    by (simp add: subscribe_all_def subscribe_client_def [abs_def] upd_obj_upd_obj case_prod_unfold)
qed

lemma subscribe_client_shows:
  assumes "shows_session True c s" and "client_inv c"
  shows "client_inv (subscribe_client ts c) \<and> shows_session True (subscribe_client ts c) (subscribe_to ts s)"
  using assms
proof (induction ts arbitrary: c s)
  case (Cons t ts)
  obtain flt opts where t: "t = (flt, opts)" by (cases t)
  let ?c = "AddSubscription flt opts c" and ?s = "subscribe_to [(flt, opts)] s"
  have "map_of (subscribed_topics ?c) = map_of [(flt, opts)] ++ map_of (subscribed_topics c)"
    by (auto simp: AddSubscription_def un_insert_def fun_eq_iff map_add_def map_of_find split: option.splits)
  then have "shows_session True ?c ?s"
    using Cons.prems(1) by (auto simp: shows_session_def subscribe_to_def AddSubscription_def will_of_def
        isWillFlag_def isRandomID_def)
  then have "client_inv (subscribe_client ts ?c) \<and> shows_session True (subscribe_client ts ?c) (subscribe_to ts ?s)"
    using Cons.IH AddSubscription_inv [OF Cons.prems(2)] by blast
  moreover have "subscribe_to ts ?s = subscribe_to (t # ts) s"
    by (auto simp: subscribe_to_def t map_add_def fun_eq_iff split: option.splits)
  ultimately show ?case by (simp add: subscribe_client_def t)
qed (simp add: subscribe_client_def subscribe_to_def)

text \<open>One retained message.\<close>

lemma shown_send:
  assumes sh: "shown a b" and mem: "(fd, Some r) \<in> set (clients b)" and t: "t \<in> set (topics b)"
  shows "shown (send_one fd (opts, t_name t) a) (retained_cmd fd r opts t b)"
proof -
  let ?x = "Message opts (use_id opts (session fd a)) (t_name t) (the (m_retained a (t_name t)))"
  let ?b = "b\<lparr>commands := commands b @ [answer_cmd (fd, ?x)]\<rparr>"
  have s: "shows_session (listed b fd) (objects b r) (session fd a)"
    using sh mem by (simp add: shown_def sessions_shown_def)
  have "kv_find t_name (t_name t) (topics b) = Some t"
    using sh t ord.find_in [of t_name "topics b" t] by (simp add: shown_def broker_inv_def storage_inv_def)
  then have "m_retained a (t_name t) = Some (the (t_data t))" using sh by (simp add: shown_def storage_shown_def)
  then have cmd: "answer_cmd (fd, ?x) =
      publish_cmd fd opts (if opts = 0 then 0 else packet_id_gen (objects b r)) (t_name t) (the (t_data t))"
    using s by (simp add: use_id_def shows_session_def)
  have sh1: "shown (say fd ?x a) ?b" by (rule shown_say [OF sh])
  let ?f = "if opts = 0 then (\<lambda>c. c) else (\<lambda>c. snd (GenPacketID c))"
  have "shown (put fd (spend opts (session fd a)) (say fd ?x a)) (upd_obj r ?f ?b)"
  proof (rule shown_put [OF sh1])
    show "(fd, Some r) \<in> set (clients ?b)" using mem by simp
    show "client_inv (objects ?b r) \<Longrightarrow> client_inv (?f (objects ?b r))" by (simp add: client_inv_def GenPacketID_def)
    show "shows_session (listed ?b fd) (?f (objects ?b r)) (spend opts (session fd a))"
      using s by (simp add: shows_session_def spend_def GenPacketID_def will_of_def isWillFlag_def isRandomID_def listed_def)
  qed
  moreover have "upd_obj r ?f ?b = retained_cmd fd r opts t b"
    using cmd by (simp add: retained_cmd_def Let_def upd_obj_id)
  ultimately show ?thesis by (simp add: send_one_def)
qed

lemma shown_sends:
  assumes "shown a b" and "(fd, Some r) \<in> set (clients b)" and "\<forall>p\<in>set ps. snd p \<in> set (topics b)"
  shows "shown (fold (send_one fd) (map (\<lambda>(opts, t). (opts, t_name t)) ps) a) (retained_run fd r ps b)"
  using assms
proof (induction ps arbitrary: a b)
  case (Cons p ps)
  obtain opts t where p: "p = (opts, t)" by (cases p)
  have "shown (send_one fd (opts, t_name t) a) (retained_cmd fd r opts t b)"
    using Cons.prems p by (intro shown_send) simp_all
  then show ?case using Cons p by simp
qed simp

lemma AddSubscribedClient_run:
  "AddSubscribedClient fd r (retained_run fd r ps b) = retained_run fd r ps (AddSubscribedClient fd r b)"
proof (induction ps arbitrary: b)
  case (Cons p ps)
  obtain opts t where p: "p = (opts, t)" by (cases p)
  have "AddSubscribedClient fd r (retained_cmd fd r opts t b) = retained_cmd fd r opts t (AddSubscribedClient fd r b)"
    by (simp add: AddSubscribedClient_def retained_cmd_def Let_def upd_obj_def)
  then show ?case using Cons p by simp
qed simp

lemma dom_retained: "shown a b \<Longrightarrow> dom (m_retained a) = t_name ` set (topics b)"
  by (auto simp: shown_def storage_shown_def dom_def kv_find_None_iff image_iff dest: kv_find_SomeD)

lemma replays_matched:
  assumes "shown a b"
  shows "replays (m_retained a) (flt, opts) (map (\<lambda>t. (opts, t_name t)) (matched_by b flt))"
proof -
  have "distinct (map t_name (topics b))"
    using assms by (simp add: shown_def broker_inv_def storage_inv_def ord_ok_def strict_sorted_iff)
  then have "distinct (map t_name (matched_by b flt))" unfolding matched_by_def by (rule distinct_map_filter)
  moreover have "set (map t_name (matched_by b flt)) =
      {nm \<in> dom (m_retained a). level_match (tokenize flt is_sep) (tokenize nm is_sep)}"
    by (auto simp: dom_retained [OF assms] matched_by_def)
  ultimately show ?thesis unfolding replays_def by (auto intro!: exI [of _ "map t_name (matched_by b flt)"])
qed

lemma length_retained_sends: "length (retained_sends (matched_by b) ts) \<le> length ts * length (topics b)"
proof (induction ts)
  case (Cons t ts)
  have "length (matched_by b (fst t)) \<le> length (topics b)" by (simp add: matched_by_def)
  then show ?case using Cons by (simp add: retained_sends_def case_prod_unfold)
qed (simp add: retained_sends_def)

lemma Subscribe_simulated:
  assumes sh: "shown a b" and mem: "(fd, Some r) \<in> set (clients b)" and ok: "subscribe_packet_ok fh v ts buf"
    and acc: "packet_accepted fd (Subscribe (sub_packet_id v) ts) a"
  shows "simulated fd (Subscribe (sub_packet_id v) ts) a (MqttSubscribePacketHandler fh buf fd b)"
proof -
  have inv: "broker_inv b" using sh by (rule shown_inv)
  have s: "shows_session (listed b fd) (objects b r) (session fd a)"
    using sh mem by (simp add: shown_def sessions_shown_def)
  have names: "dom (m_retained a) = t_name ` set (topics b)" by (rule dom_retained [OF sh])
  have "distinct (map t_name (topics b))"
    using inv by (simp add: broker_inv_def storage_inv_def ord_ok_def strict_sorted_iff)
  then have card: "card (dom (m_retained a)) = length (topics b)"
    unfolding names by (metis distinct_card length_map set_map)
  have "searchable flt b" if "flt \<in> fst ` set ts" for flt
    using acc that names by (auto simp: searchable_def replayable_def)
  then have ms: "\<forall>(nm, opts)\<in>set ts. GetMatchedTopics nm b = Inr (matched_by b nm) \<and> (\<forall>t\<in>set (matched_by b nm). sendable t)"
    using GetMatchedTopics_searchable [OF inv] sh by (force simp: matched_by_def shown_def storage_shown_def)
  let ?ps = "retained_sends (matched_by b) ts"
  have gen: "s_next (session fd a) = packet_id_gen (objects b r)" using s by (simp add: shows_session_def)
  have "length ?ps \<le> length ts * card (dom (m_retained a))" using length_retained_sends [of b ts] by (simp add: card)
  then have room: "room r (length ?ps) b"
    using acc gen by (simp add: room_def unat_gt_0)
  let ?x = "Granted (sub_packet_id v) (length ts)"
  let ?b1 = "AddSubscribedClient fd r b"
  let ?b2 = "upd_obj r (subscribe_client ts) ?b1"
  let ?b3 = "?b2\<lparr>commands := commands ?b2 @ [answer_cmd (fd, ?x)]\<rparr>"
  let ?a3 = "say fd ?x (put fd (subscribe_to ts (session fd a)) a)"
  have mem1: "(fd, Some r) \<in> set (clients ?b1)" using mem by (simp add: AddSubscribedClient_def)
  have s1: "shows_session True (objects ?b1 r) (session fd a)"
    using s by (simp add: AddSubscribedClient_def shows_session_def)
  have "shown (put fd (subscribe_to ts (session fd a)) a) ?b2"
    using subscribe_client_shows [OF s1] broker_invD(3) [OF inv] shown_list(2) [OF sh mem]
    by (intro shown_put [OF shown_list(1) [OF sh mem] mem1]) (simp_all add: AddSubscribedClient_def)
  then have sh3: "shown ?a3 ?b3" by (rule shown_say)
  have tops: "topics ?b3 = topics b" "clients ?b3 = clients b" by (simp_all add: upd_obj_def AddSubscribedClient_def)
  have "\<forall>p\<in>set ?ps. snd p \<in> set (topics ?b3)"
    unfolding tops by (auto simp: retained_sends_def matched_by_def)
  then have shown: "shown (fold (send_one fd) (map (\<lambda>(opts, t). (opts, t_name t)) ?ps) ?a3) (retained_run fd r ?ps ?b3)"
    using mem tops by (intro shown_sends [OF sh3]) simp_all
  let ?pss = "map (\<lambda>(flt, opts). map (\<lambda>t. (opts, t_name t)) (matched_by b flt)) ts"
  have "concat ?pss = map (\<lambda>(opts, t). (opts, t_name t)) ?ps"
    by (simp add: retained_sends_def map_concat comp_def case_prod_unfold)
  moreover have "list_all2 (replays (m_retained ?a3)) ts ?pss"
    using replays_matched [OF sh, of "fst (ts ! i)" "snd (ts ! i)" for i]
    by (simp add: list_all2_conv_all_nth say_def put_def case_prod_unfold)
  ultimately have "replay fd ts ?a3 (fold (send_one fd) (map (\<lambda>(opts, t). (opts, t_name t)) ?ps) ?a3)"
    unfolding replay_def by metis
  moreover have "subscribed v ts (matched_by b) fd r b = retained_run fd r ?ps ?b3"
  proof -
    let ?b0 = "(upd_obj r (subscribe_client ts) b)\<lparr>commands := commands b @ [answer_cmd (fd, ?x)]\<rparr>"
    have "commands (upd_obj r f b) = commands b" for f by (simp add: upd_obj_def)
    then have "subscribed v ts (matched_by b) fd r b = AddSubscribedClient fd r (retained_run fd r ?ps ?b0)"
      by (simp add: subscribed_def subscribe_all_client Let_def)
    also have "\<dots> = retained_run fd r ?ps (AddSubscribedClient fd r ?b0)" by (rule AddSubscribedClient_run)
    also have "AddSubscribedClient fd r ?b0 = ?b3"
      by (cases b) (simp add: upd_obj_def AddSubscribedClient_def)
    finally show ?thesis .
  qed
  then have "MqttSubscribePacketHandler fh buf fd b = Inr (mqtt_ok, retained_run fd r ?ps ?b3)"
    using Subscribe_subscribed [OF inv mem ok ms room] by simp
  ultimately show ?thesis using shown by (intro simulatedI) simp_all
qed

section \<open>CONNECT\<close>

lemma id_owner_none:
  assumes "shown a b" and "\<forall>s\<in>ran (m_sessions a). s_id s \<noteq> cid"
    and same: "\<And>s. client_id (f (objects b s)) = client_id (objects b s)"
  shows "id_owner cid (upd_obj r f b) = None"
proof -
  have "\<forall>e\<in>set (clients b). client_id (objects (upd_obj r f b) (the (snd e))) \<noteq> cid"
  proof
    fix e assume e: "e \<in> set (clients b)"
    have "fst e \<in> dom (m_sessions a)" using assms(1) e by (auto simp: shown_def sessions_shown_def fds_of_def)
    then obtain s where s: "(fst e, Some s) \<in> set (clients b)" "m_sessions a (fst e) = Some (session (fst e) a)"
      "shows_session (listed b (fst e)) (objects b s) (session (fst e) a)"
      by (rule shown_session [OF assms(1)])
    have "snd e = Some s" using fst_clients_unique [OF shown_inv [OF assms(1)] _ s(1)] e by (metis prod.collapse)
    moreover have "s_id (session (fst e) a) \<noteq> cid" using assms(2) s(2) by (auto intro: ranI)
    ultimately show "client_id (objects (upd_obj r f b) (the (snd e))) \<noteq> cid"
      using s(3) same by (auto simp: shows_session_def upd_obj_def)
  qed
  moreover have "clients (upd_obj r f b) = clients b" by (simp add: upd_obj_def)
  ultimately show ?thesis by (fastforce simp: id_owner_def find_None_iff)
qed

lemma Connect_simulated:
  assumes sh: "shown a b" and mem: "(fd, Some r) \<in> set (clients b)" and ok: "connect_packet_ok p"
    and acc: "packet_accepted fd (Connect (cp_id p) clean w) a"
    and p: "clean \<longleftrightarrow> conn_flags (cp_vh p) AND 2 \<noteq> 0" "w = map_option snd (cp_will p)"
  shows "simulated fd (Connect (cp_id p) clean w) a (MqttConnectPacketHandler rnd fh (connect_body p) fd b)"
proof -
  let ?f = "\<lambda>c. connect_rest p (SetID (cp_id p) (connect_setup p c))"
  let ?s = "(session fd a)\<lparr>s_id := cp_id p, s_greeted := True, s_will := w\<rparr>"
  let ?b = "upd_obj r ?f b"
  have inv: "broker_inv b" using sh by (rule shown_inv)
  have s: "shows_session (listed b fd) (objects b r) (session fd a)"
    using sh mem by (simp add: shown_def sessions_shown_def)
  have fresh: "conn_properties (objects b r) = []" "will_properties (objects b r) = []" "\<not> isRandomID (objects b r)"
    using s acc by (simp_all add: shows_session_def)
  have fds: "\<forall>e\<in>set (clients b). fst e \<noteq> -1" using sh by (auto simp: shown_def sessions_shown_def fds_of_def)
  have fields: "client_id (?f c) = cp_id p" "subscribed_topics (?f c) = subscribed_topics c"
    "packet_id_gen (?f c) = packet_id_gen c" "flags (?f c) = conn_flags (cp_vh p)"
    "id_was_random_generated (?f c) = id_was_random_generated c" "conn_properties (?f c) = cp_chain p"
    "will_properties (?f c) = (case cp_will p of None \<Rightarrow> will_properties c | Some (ch, _) \<Rightarrow> ch)"
    "cp_will p = Some (ch, nm, m) \<Longrightarrow> t_name (will_topic (?f c)) = nm \<and> t_data (will_topic (?f c)) = Some m"
    for c ch nm m
    by (auto simp: connect_rest_def set_auth_def set_will_def connect_setup_def SetID_def setUserName_def setPwd_def
        Let_def split: option.splits)
  have flag: "isWillFlag (?f c) \<longleftrightarrow> cp_will p \<noteq> None" for c
    using ok by (simp add: isWillFlag_def fields connect_packet_ok_def)
  have "shows_session (listed b fd) (?f (objects b r)) ?s"
    using s ok p(2) flag fields(8)
    by (cases "cp_will p") (auto simp: shows_session_def fields will_of_def sendable_def connect_packet_ok_def)
  moreover have "client_inv (?f (objects b r))" if "client_inv (objects b r)"
    using that ok
    by (auto simp: client_inv_def fields connect_packet_ok_def chain_readable_def split: option.splits)
  ultimately have sh1: "shown (put fd ?s a) ?b" by (intro shown_put [OF sh mem])
  have owner: "id_owner (cp_id p) (upd_obj r (connect_setup p) b) = None"
    using acc by (intro id_owner_none [OF sh]) (simp_all add: connect_setup_def)
  then have con: "connected rnd p r b = (mqtt_ok, ?b)"
    using acc by (simp add: connected_def upd_obj_upd_obj)
  have "isCleanFlag (objects ?b r) \<longleftrightarrow> clean" "\<not> isRandomID (objects ?b r)"
    using p(1) fresh(3) by (simp_all add: isCleanFlag_def isRandomID_def fields)
  then have "MqttConnectPacketHandler rnd fh (connect_body p) fd b =
      Inr (mqtt_ok, ?b\<lparr>commands := commands ?b @ [answer_cmd (fd, Welcome clean)]\<rparr>)"
    using Connect_connected [OF inv mem ok fresh(1,2) fds, of rnd fh] con by (simp add: connack_body_bytes)
  then show ?thesis by (intro simulatedI [OF _ _ shown_say [OF sh1]]) simp_all
qed

section \<open>Any packet\<close>

lemma packet_simulated:
  assumes sh: "shown a b" and fd: "fd \<in> dom (m_sessions a)" and car: "carries t body p"
    and acc: "packet_accepted fd p a" and p: "p \<noteq> Disconnect"
  shows "simulated fd p a (HandlePacket rnd (header t body) body fd b)"
proof -
  obtain r where mem: "(fd, Some r) \<in> set (clients b)" using shown_session [OF sh fd] by blast
  note run = HandlePacket_type [of t _ rnd body body fd b]
  note sim = Publish_simulated [OF sh mem] PubAck_simulated [OF sh mem] PubRec_simulated [OF sh mem]
    PubRel_simulated [OF sh mem] PubComp_simulated [OF sh mem] Subscribe_simulated [OF sh mem]
    Unsubscribe_simulated [OF sh mem] Ping_simulated [OF sh mem] Connect_simulated [OF sh mem]
  show ?thesis
  proof (cases p)
    case (Connect cid clean w)
    then obtain q where q: "connect_packet_ok q" "body = connect_body q" "cp_id q = cid"
        "clean \<longleftrightarrow> conn_flags (cp_vh q) AND 2 \<noteq> 0" "w = map_option snd (cp_will q)"
      and t: "drop_bit 4 t = pack_code CONNECT"
      using car by auto
    have "HandlePacket rnd (header t body) body fd b = MqttConnectPacketHandler rnd (header t body) body fd b"
      using run [of Connect_Handler] t by simp
    moreover have "simulated fd (Connect (cp_id q) clean w) a
        (MqttConnectPacketHandler rnd (header t body) (connect_body q) fd b)"
      by (rule sim(9) [OF q(1) _ q(4,5)]) (use acc Connect q(3) in simp)
    ultimately show ?thesis using Connect q(2,3) by simp
  next
    case (Publish q ret i nm m)
    then show ?thesis using car acc run [of Publish_Handler] sim(1) by auto
  next
    case (Puback i)
    then show ?thesis using car run [of PubAck_Handler] sim(2) by auto
  next
    case (Pubrec i)
    then show ?thesis using car run [of PubRec_Handler] sim(3) by auto
  next
    case (Pubrel i)
    then show ?thesis using car acc run [of PubRel_Handler] sim(4) by auto
  next
    case (Pubcomp i)
    then show ?thesis using car run [of PubComp_Handler] sim(5) by auto
  next
    case (Subscribe i ts)
    then show ?thesis using car acc run [of Subscribe_Handler] sim(6) by auto
  next
    case (Unsubscribe i flts)
    then show ?thesis using car run [of Unsubscribe_Handler] sim(7) by auto
  next
    case Pingreq
    then show ?thesis using car run [of Ping_Handler] sim(8) by auto
  qed (use p in simp)
qed

end
