(* ===== verification/Machine_Events.thy ===== *)
theory Machine_Events
  imports Machine_Packets
begin

text \<open>
  Single entries of the poll set, simulated by acts of the abstract machine, and events: a connection
  is accepted, a packet arrives, the peer hangs up, a descriptor is quiet, each taken alone. The last
  section has the passes of the server thread that give no descriptor up, as sequences of events.
\<close>

section \<open>Events\<close>

datatype event =
    Accept int bytes int
  | Data env int
  | Hang_Up int
  | Quiet env int

text \<open>What a pass of the server thread does with one descriptor when it has nothing else to do: one that is
  given up is closed. With more entries the closing waits for the end of the pass; \<open>Machine_Threads\<close>
  follows the threads in that.\<close>

definition give_up :: "int \<Rightarrow> (bool \<times> Broker) res \<Rightarrow> Broker res" where
  "give_up fd res = rbind res (\<lambda>(del, b). Inr (if del then CloseConnection fd b else b))"

fun handle :: "event \<Rightarrow> Broker \<Rightarrow> Broker res" where
  "handle (Accept fd i t) b = Inr (main_step fd i t b)"
| "handle (Data e fd) b = give_up fd (serve_data e fd b)"
| "handle (Hang_Up fd) b = give_up fd (serve_closed fd b)"
| "handle (Quiet e fd) b = give_up fd (serve_quiet e fd b)"

fun handle_all :: "event list \<Rightarrow> Broker \<Rightarrow> Broker res" where
  "handle_all [] b = Inr b"
| "handle_all (x # xs) b = rbind (handle x b) (handle_all xs)"

fun appears :: "event \<Rightarrow> act \<Rightarrow> bool" where
  "appears (Accept fd i t) x \<longleftrightarrow> x = Opens fd"
| "appears (Data e fd) x \<longleftrightarrow> (\<exists>t body p. arrives e fd t body \<and> carries t body p \<and> x = Gets fd p)"
| "appears (Hang_Up fd) x \<longleftrightarrow> x = Hangs fd"
| "appears (Quiet e fd) x \<longleftrightarrow> x = Idles fd"

definition follows :: "act \<Rightarrow> machine \<Rightarrow> Broker res \<Rightarrow> bool" where
  "follows x a res \<longleftrightarrow> (\<exists>b' a'. res = Inr b' \<and> step x a a' \<and> shown a' b')"

lemma followsI: "res = Inr b' \<Longrightarrow> step x a a' \<Longrightarrow> shown a' b' \<Longrightarrow> follows x a res"
  by (auto simp: follows_def)

section \<open>Opening\<close>

lemma shown_open:
  assumes sh: "shown a b" and fd: "0 < fd" "fd \<notin> dom (m_sessions a)"
  shows "shown (put fd new_session a) (main_step fd i t b)"
proof -
  let ?b = "main_step fd i t b"
  have inv: "broker_inv b" using sh by (rule shown_inv)
  have new: "fd \<notin> fds_of b" using sh fd(2) by (simp add: shown_def sessions_shown_def)
  then have none: "kv_find fst fd (clients b) = None" by (simp add: kv_find_None_iff fds_of_def)
  have b': "clients ?b = (fd, Some (next_object b)) # clients b" "subscribed_clients ?b = subscribed_clients b"
    "objects ?b = (objects b)(next_object b := new_Client i t)" "topics ?b = topics b"
    "qos_2_topics ?b = qos_2_topics b" "commands ?b = commands b"
    using fd none
    by (simp_all add: main_step_def AddClient_def Let_def un_insert_def control_command_def Start_def GetState_def)
  have absent: "(fd, p) \<notin> set (clients b)" for p using new by (force simp: fds_of_def)
  have old: "r < next_object b" if "(fd', Some r) \<in> set (clients b)" for fd' r
    using inv that by (fastforce simp: broker_inv_def clients_inv_def)
  have "\<not> listed b fd" using inv new by (force simp: listed_def fds_of_def broker_inv_def clients_inv_def)
  then have "shows_session (listed ?b fd) (new_Client i t) new_session"
    by (simp add: shows_session_def new_Client_def new_session_def will_of_def isWillFlag_def isRandomID_def)
  moreover have "broker_inv ?b" using inv by (rule main_step_inv)
  moreover have "\<forall>fd r. (fd, Some r) \<in> set (clients b) \<longrightarrow> shows_session (listed b fd) (objects b r) (session fd a)"
    using sh by (simp add: shown_def sessions_shown_def)
  ultimately show ?thesis
    using sh fd absent
    by (auto simp: shown_def sessions_shown_def storage_shown_def put_def b' fds_of_def listed_def session_def held_def
        dest: old)
qed

section \<open>The will\<close>

text \<open>The will of a client that is given up; delivery leaves its name and its message.\<close>

lemma will_simulated:
  assumes sh: "shown a b" and mem: "(fd, Some r) \<in> set (clients b)" and acc: "will_accepted fd a"
  shows "will_ready r b"
    and "will_published r b b' \<Longrightarrow> \<exists>a'. send_will fd a a' \<and> shown a' b'"
proof -
  have s: "s_will (session fd a) = will_of (objects b r)" "isWillFlag (objects b r) \<Longrightarrow> sendable (will_topic (objects b r))"
    using sh mem by (simp_all add: shown_def sessions_shown_def shows_session_def)
  let ?t = "will_topic (objects b r)"
  show "will_ready r b"
    using acc s deliverable_ready [OF sh, of "t_name ?t"] by (simp add: will_ready_def will_accepted_def will_of_def Let_def)
  assume pub: "will_published r b b'"
  show "\<exists>a'. send_will fd a a' \<and> shown a' b'"
  proof (cases "isWillFlag (objects b r)")
    case True
    let ?b = "delivered (t_name ?t) (the (t_data ?t)) b"
    obtain t where t: "t_name t = t_name ?t" "t_data t = t_data ?t" and b': "b' = upd_obj r (\<lambda>c. c\<lparr>will_topic := t\<rparr>) ?b"
      using pub True by (auto simp: will_published_def Let_def)
    obtain a1 where a1: "deliver (t_name ?t) (the (t_data ?t)) a a1" "shown a1 ?b"
      using shown_deliver [OF sh] by blast
    have mem1: "(fd, Some r) \<in> set (clients ?b)" using mem by (simp add: delivered_def)
    have fd: "fd \<in> dom (m_sessions a1)"
      using a1(2) mem1 by (force simp: shown_def sessions_shown_def fds_of_def)
    have same: "will_topic (objects ?b r) = ?t" by (simp add: delivered_def bump_def GenPacketID_def split: if_splits)
    have "shows_session (listed ?b fd) (objects ?b r) (session fd a1)"
      using a1(2) mem1 by (simp add: shown_def sessions_shown_def)
    then have "shown (put fd (session fd a1) a1) b'"
      unfolding b' using t same
      by (intro shown_put [OF a1(2) mem1])
        (simp_all add: client_inv_def shows_session_def will_of_def isWillFlag_def isRandomID_def sendable_def)
    then have "shown a1 b'" by (simp only: put_session [OF fd])
    then show ?thesis using True s(1) a1(1) by (auto simp: send_will_def will_of_def)
  next
    case False
    then show ?thesis using pub s(1) sh by (simp add: will_published_def send_will_def will_of_def)
  qed
qed

section \<open>One entry\<close>

text \<open>An entry of the poll set is served as the act says; a descriptor that is given up stays for now.\<close>

definition entry_serves :: "act \<Rightarrow> machine \<Rightarrow> (bool \<times> Broker) res \<Rightarrow> bool" where
  "entry_serves x a res \<longleftrightarrow> (\<exists>del b' a'. res = Inr (del, b') \<and> serves x a a' del \<and> shown a' b')"

lemma entry_servesI: "res = Inr (del, b') \<Longrightarrow> serves x a a' del \<Longrightarrow> shown a' b' \<Longrightarrow> entry_serves x a res"
  by (auto simp: entry_serves_def)

lemma Data_serves:
  assumes sh: "shown a b" and arr: "arrives e fd t body" and car: "carries t body p"
    and acc: "accepted_act (Gets fd p) a"
  shows "entry_serves (Gets fd p) a (serve_data e fd b)"
proof -
  have fd: "fd \<in> dom (m_sessions a)" using acc by simp
  then obtain r where mem: "(fd, Some r) \<in> set (clients b)"
      and s: "shows_session (listed b fd) (objects b r) (session fd a)"
    using shown_session [OF sh] by blast
  let ?b = "upd_obj r (SetPacketLastTime (cur_time e)) b"
  have "shown (put fd (session fd a) a) ?b"
    using s by (intro shown_put [OF sh mem])
      (simp_all add: client_inv_def SetPacketLastTime_def shows_session_def will_of_def isWillFlag_def isRandomID_def)
  then have sh1: "shown a ?b" by (simp add: put_session [OF fd])
  note serve = serve_data_arrives [OF shown_inv [OF sh] mem arr]
  show ?thesis
  proof (cases "p = Disconnect")
    case True
    have mem1: "(fd, Some r) \<in> set (clients ?b)" using mem by (simp add: upd_obj_def)
    have at: "clients_at fd ?b = (Some r, ?b)"
      using shown_inv [OF sh1] mem1 by (intro clients_at_present) (simp_all add: broker_inv_def)
    have "length body < 2 ^ 28" using arr by (simp add: arrives_def)
    then have "remaining_len (header t body) > 0 \<longleftrightarrow> body \<noteq> []"
      by (simp add: header_def word_less_nat_alt unat_of_nat32)
    then have "MqttDisconnectPacketHandler (header t body) body fd ?b = Inr (disconnect, ?b)"
      by (simp add: MqttDisconnectPacketHandler_def at rd8_def)
    moreover have "HandlePacket (rand_vals e) (header t body) body fd ?b =
        run_handler Disconnect_Handler (rand_vals e) (header t body) body fd ?b"
      by (rule HandlePacket_type) (use car True in simp)
    ultimately have "serve_data e fd b = Inr (True, ?b)"
      by (simp add: serve HandleError_def error_handlers_def)
    then show ?thesis using True by (intro entry_servesI [OF _ _ sh1]) simp_all
  next
    case False
    obtain b' a' where "HandlePacket (rand_vals e) (header t body) body fd ?b = Inr (mqtt_ok, b')"
      "gets fd p a a'" "shown a' b'"
      using packet_simulated [OF sh1 fd car _ False, of "rand_vals e"] acc by (auto simp: simulated_def)
    then show ?thesis using False by (intro entry_servesI) (simp_all add: serve)
  qed
qed

lemma Hang_Up_serves:
  assumes sh: "shown a b" and acc: "accepted_act (Hangs fd) a"
  shows "entry_serves (Hangs fd) a (serve_closed fd b)"
proof -
  obtain r where mem: "(fd, Some r) \<in> set (clients b)" using shown_session [OF sh] acc by auto
  have at: "clients_at fd b = (Some r, b)"
    using shown_inv [OF sh] mem by (intro clients_at_present) (simp_all add: broker_inv_def)
  have ok: "will_accepted fd a" using acc by simp
  obtain b' where b': "notify_will r b = Inr b'" "will_published r b b'"
    using notify_will_published [OF shown_inv [OF sh] will_simulated(1) [OF sh mem ok]] by blast
  then obtain a' where "send_will fd a a'" "shown a' b'"
    using will_simulated(2) [OF sh mem ok] by blast
  then show ?thesis using at b'(1) by (intro entry_servesI) (simp_all add: serve_closed_def)
qed

lemma Quiet_serves:
  assumes sh: "shown a b" and acc: "accepted_act (Idles fd) a"
  shows "entry_serves (Idles fd) a (serve_quiet e fd b)"
proof -
  obtain r where mem: "(fd, Some r) \<in> set (clients b)" using shown_session [OF sh] acc by auto
  have inv: "broker_inv b" using sh by (rule shown_inv)
  show ?thesis
  proof (cases "time_last_packet (objects b r) + int (unat (alive (objects b r))) + 5 \<le> cur_time e")
    case True
    let ?b = "b\<lparr>commands := commands b @ [answer_cmd (fd, Bye)]\<rparr>"
    have ok: "will_accepted fd a" using acc by simp
    obtain b' where b': "serve_quiet e fd b = Inr (True, b')" "will_published r ?b b'"
      using serve_quiet_timeout [OF inv mem True will_simulated(1) [OF sh mem ok]] by auto
    have "will_accepted fd (say fd Bye a)" using ok by (simp add: will_accepted_def)
    then obtain a' where "send_will fd (say fd Bye a) a'" "shown a' b'"
      using will_simulated(2) [OF shown_say [OF sh] _ _ b'(2)] mem by auto
    then show ?thesis by (intro entry_servesI [OF b'(1)]) simp_all
  next
    case False
    then have "serve_quiet e fd b = Inr (False, b)" by (intro serve_quiet_in_time [OF inv mem]) simp
    then show ?thesis by (rule entry_servesI [OF _ _ sh]) simp
  qed
qed

section \<open>The simulation\<close>

lemma entry_follows:
  assumes "entry_serves x a res"
  shows "follows x a (give_up (act_fd x) res)"
proof -
  obtain del b' a' where *: "res = Inr (del, b')" "serves x a a' del" "shown a' b'"
    using assms by (auto simp: entry_serves_def)
  show ?thesis
  proof (rule followsI)
    show "step x a (if del then drop_session (act_fd x) a' else a')" using *(2) by (rule serves_step)
    show "shown (if del then drop_session (act_fd x) a' else a') (if del then CloseConnection (act_fd x) b' else b')"
      using *(3) shown_close by simp
  qed (simp add: *(1) give_up_def)
qed

lemma event_follows:
  assumes "shown a b" and "appears v x" and "accepted_act x a"
  shows "follows x a (handle v b)"
proof (cases v)
  case (Accept fd i t)
  then have x: "x = Opens fd" "0 < fd" "fd \<notin> dom (m_sessions a)" using assms(2,3) by auto
  then show ?thesis unfolding Accept x(1)
    by (intro followsI [OF _ _ shown_open [OF assms(1)]]) simp_all
next
  case (Data e fd)
  then show ?thesis using assms entry_follows [OF Data_serves [OF assms(1)]] by auto
next
  case (Hang_Up fd)
  then show ?thesis using assms entry_follows [OF Hang_Up_serves [OF assms(1)]] by auto
next
  case (Quiet e fd)
  then show ?thesis using assms entry_follows [OF Quiet_serves [OF assms(1)]] by auto
qed

lemma events_follow:
  assumes "shown a b" and "list_all2 appears vs xs" and "accepted_acts xs a"
  shows "\<exists>b' a'. handle_all vs b = Inr b' \<and> steps xs a a' \<and> shown a' b'"
  using assms
proof (induction xs arbitrary: vs a b)
  case (Cons x xs)
  then obtain v ws where vs: "vs = v # ws" "appears v x" "list_all2 appears ws xs" by (auto simp: list_all2_Cons2)
  obtain b1 a1 where one: "handle v b = Inr b1" "step x a a1" "shown a1 b1"
    using event_follows [OF Cons.prems(1) vs(2)] Cons.prems(3) by (auto simp: follows_def)
  then obtain b' a' where "handle_all ws b1 = Inr b'" "steps xs a1 a'" "shown a' b'"
    using Cons.IH [OF one(3) vs(3)] Cons.prems(3) by auto
  then show ?case using vs(1) one by auto
qed simp

lemma shown_start:
  assumes "broker_inv b" and "clients b = []" and "topics b = []" and "qos_2_topics b = []" and "commands b = []"
  shows "shown new_machine b"
  using assms by (simp add: shown_def sessions_shown_def storage_shown_def fds_of_def new_machine_def held_def)

section \<open>Who is answered\<close>

text \<open>A message needs a matching subscription, before or after the act; all other answers go to the
  descriptor of the act.\<close>

fun solicited :: "act \<Rightarrow> machine \<Rightarrow> machine \<Rightarrow> int \<times> answer \<Rightarrow> bool" where
  "solicited x a a' (fd, Message q i nm m) \<longleftrightarrow>
     (\<exists>flt. flt \<in> dom (s_subs (session fd a)) \<union> dom (s_subs (session fd a')) \<and> sub_matches flt nm)"
| "solicited x a a' (fd, _) \<longleftrightarrow> fd = act_fd x"

text \<open>What a part of a step adds to the queue; \<open>a0\<close> is the state the step starts from.\<close>

definition adds :: "act \<Rightarrow> machine \<Rightarrow> machine \<Rightarrow> machine \<Rightarrow> bool" where
  "adds x a0 a a' \<longleftrightarrow> (\<exists>new. m_out a' = m_out a @ new \<and> list_all (solicited x a0 a') new)"

lemma adds_refl: "m_out a' = m_out a \<Longrightarrow> adds x a0 a a'"
  by (simp add: adds_def)

lemma solicited_cong:
  "(\<And>fd. s_subs (session fd a0) = s_subs (session fd a)) \<Longrightarrow> solicited x a0 a' y = solicited x a a' y"
  by (cases "(x, a0, a', y)" rule: solicited.cases) auto

lemma deliver_adds:
  assumes del: "deliver nm m a a1" and subs: "\<And>fd. s_subs (session fd a0) = s_subs (session fd a)"
    and out: "m_out a' = m_out a1"
  shows "adds x a0 a a'"
proof -
  obtain ds where ds: "\<forall>(fd, q)\<in>set ds. q \<in> wants (session fd a) nm"
    and a1: "m_out a1 = m_out a @ map (\<lambda>(fd, q). (fd, Message q (use_id q (session fd a)) nm m)) ds"
    using del unfolding deliver_def by auto
  have "solicited x a0 a' (fd, Message q i nm m)" if "(fd, q) \<in> set ds" for fd q i
    using ds that subs by (force simp: wants_def)
  then have "list_all (solicited x a0 a') (map (\<lambda>(fd, q). (fd, Message q (use_id q (session fd a)) nm m)) ds)"
    by (auto simp: list_all_iff)
  then show ?thesis using a1 out by (auto simp: adds_def)
qed

lemma say_adds: "adds x a0 (say fd y a) a' \<Longrightarrow> solicited x a0 a' (fd, y) \<Longrightarrow> adds x a0 a a'"
  by (auto simp: adds_def say_def)

lemma sends_subs:
  "s_subs (session fd' (fold (send_one fd) ps a)) = s_subs (session fd' a)"
  by (induction ps arbitrary: a)
    (auto simp: send_one_def put_def say_def session_def spend_def case_prod_unfold)

lemma sends_out:
  "\<exists>is. m_out (fold (send_one fd) ps a) =
    m_out a @ map2 (\<lambda>(q, nm) i. (fd, Message q i nm (the (m_retained a nm)))) ps is \<and> length is = length ps"
proof (induction ps arbitrary: a)
  case (Cons p ps)
  obtain q nm where p: "p = (q, nm)" by (cases p)
  obtain "is" where "m_out (fold (send_one fd) ps (send_one fd p a)) = m_out (send_one fd p a) @
      map2 (\<lambda>(q, nm) i. (fd, Message q i nm (the (m_retained (send_one fd p a) nm)))) ps is" "length is = length ps"
    using Cons.IH by blast
  then show ?case
    by (intro exI [of _ "use_id q (session fd a) # is"]) (simp add: send_one_def put_def say_def p)
qed simp

lemma replay_adds:
  assumes rep: "replay fd ts a a'" and subs: "fst ` set ts \<subseteq> dom (s_subs (session fd a))"
    and flts: "\<forall>flt\<in>fst ` set ts. tokenize flt is_sep \<noteq> []"
  shows "adds x a0 a a'"
proof -
  obtain pss where pss: "list_all2 (replays (m_retained a)) ts pss" "a' = fold (send_one fd) (concat pss) a"
    using rep by (auto simp: replay_def)
  have match: "\<exists>flt\<in>fst ` set ts. sub_matches flt nm" if mem: "(q, nm) \<in> set (concat pss)" for q nm
  proof -
    obtain ps where ps: "ps \<in> set pss" "(q, nm) \<in> set ps" using mem by auto
    then obtain k where k: "k < length ts" "ps = pss ! k" using pss(1) by (auto simp: in_set_conv_nth list_all2_lengthD)
    obtain flt opts where t: "ts ! k = (flt, opts)" by (cases "ts ! k")
    have "replays (m_retained a) (flt, opts) ps" using pss(1) k t by (metis list_all2_nthD)
    then have lm: "level_match (tokenize flt is_sep) (tokenize nm is_sep)" using ps(2) by (auto simp: replays_def)
    have flt: "flt \<in> fst ` set ts" using k t by (metis fst_conv image_eqI nth_mem)
    with flts lm have "tokenize nm is_sep \<noteq> []" by (cases "tokenize flt is_sep") auto
    with lm flt show ?thesis by (auto simp: sub_matches_def)
  qed
  obtain "is" where out: "m_out a' = m_out a @
      map2 (\<lambda>(q, nm) i. (fd, Message q i nm (the (m_retained a nm)))) (concat pss) is"
    using sends_out [of fd "concat pss" a] pss(2) by blast
  have "solicited x a0 a' (fd, Message q i nm m)" if mem: "(q, nm) \<in> set (concat pss)" for q i nm m
  proof -
    obtain flt where "flt \<in> fst ` set ts" "sub_matches flt nm" using match [OF mem] by blast
    moreover then have "flt \<in> dom (s_subs (session fd a'))" using subs sends_subs pss(2) by auto
    ultimately show ?thesis by auto
  qed
  then have "list_all (solicited x a0 a')
      (map2 (\<lambda>(q, nm) i. (fd, Message q i nm (the (m_retained a nm)))) (concat pss) is)"
    by (auto simp: list_all_iff dest!: set_zip_leftD)
  then show ?thesis using out by (auto simp: adds_def)
qed

lemma session_changed [simp]:
  "session fd (keep c y a) = session fd a" "session fd (forget c i a) = session fd a"
  "m_out (keep c y a) = m_out a" "m_out (forget c i a) = m_out a" "m_out (retain nm m a) = m_out a"
  "m_out (put fd s a) = m_out a" "m_out (drop_session fd a) = m_out a"
  by (simp_all add: session_def keep_def forget_def retain_def put_def drop_session_def)

lemma last_will_adds:
  assumes "last_will fd a a'" and subs: "\<And>fd. s_subs (session fd a0) = s_subs (session fd a)"
  shows "adds x a0 a a'"
proof -
  obtain a1 where a1: "send_will fd a a1" "a' = drop_session fd a1" using assms(1) by (auto simp: last_will_def)
  then consider "a1 = a" | nm m where "deliver nm m a a1" by (auto simp: send_will_def split: option.splits)
  then show ?thesis
  proof cases
    case 2
    then show ?thesis using subs by (rule deliver_adds) (simp add: a1(2))
  qed (simp add: a1(2) adds_refl)
qed

lemma gets_adds:
  assumes g: "gets fd p a a'" and acc: "packet_accepted fd p a"
  shows "adds (Gets fd p) a a a'"
proof -
  let ?adds = "adds (Gets fd p) a"
  show ?thesis
  proof (cases p)
    case (Publish q ret i nm m)
    let ?a = "if ret then retain nm m a else a"
    have subs: "s_subs (session fd' a) = s_subs (session fd' ?a)"
      "s_subs (session fd' a) = s_subs (session fd' (say fd y ?a))" for fd' y by simp_all
    have out: "m_out ?a = m_out a" by simp
    consider "deliver nm m (say fd (ack PUBACK i) ?a) a'"
      | "a' = keep (s_id (session fd a)) (i, nm, m) (say fd (ack PUBREC i) ?a)" | "deliver nm m ?a a'"
      using g Publish by (auto simp: Let_def split: if_splits)
    then have "?adds ?a a'"
    proof cases
      case 1
      then show ?thesis by (intro say_adds [OF deliver_adds [OF 1 subs(2) refl]]) (simp add: Publish)
    next
      case 2
      then show ?thesis by (auto simp: adds_def say_def)
    qed (use deliver_adds [OF _ subs(1) refl] in blast)
    then show ?thesis using out by (simp add: adds_def)
  next
    case (Pubrel i)
    let ?a = "say fd (ack PUBCOMP i) a"
    consider "a' = ?a" | nm m a1 where "deliver nm m ?a a1" "a' = forget (s_id (session fd a)) i a1"
      using g Pubrel by (auto simp: Let_def split: option.splits)
    then have "?adds ?a a'"
    proof cases
      case 2
      then show ?thesis by (intro deliver_adds [OF 2(1)]) simp_all
    qed (simp add: adds_refl)
    then show ?thesis by (rule say_adds) (simp add: Pubrel)
  next
    case (Subscribe i ts)
    let ?a = "say fd (Granted i (length ts)) (put fd (subscribe_to ts (session fd a)) a)"
    have rep: "replay fd ts ?a a'" using g Subscribe by simp
    have flts: "\<forall>flt\<in>fst ` set ts. tokenize flt is_sep \<noteq> []" using acc Subscribe by (auto simp: replayable_def)
    have "session fd (put fd s b) = s" for s b by (simp add: session_def put_def)
    then have "fst ` set ts \<subseteq> dom (s_subs (session fd ?a))"
      by (simp add: subscribe_to_def dom_map_of_conv_image_fst)
    then have "?adds ?a a'" by (rule replay_adds [OF rep _ flts])
    then have "?adds (put fd (subscribe_to ts (session fd a)) a) a'"
      by (rule say_adds) (simp add: Subscribe)
    then show ?thesis by (simp add: adds_def)
  next
    case (Connect cid clean w)
    then show ?thesis using g by (auto simp: adds_def say_def)
  next
    case (Unsubscribe i flts)
    then show ?thesis using g by (auto simp: adds_def say_def)
  qed (use g in \<open>auto simp: adds_def say_def\<close>)
qed

lemma step_adds:
  assumes "step x a a'" and "accepted_act x a"
  shows "adds x a a a'"
proof (cases x)
  case (Idles fd)
  then consider "a' = a" | "last_will fd (say fd Bye a) a'" using assms(1) by auto
  then show ?thesis
  proof cases
    case 2
    then have "adds x a (say fd Bye a) a'" by (rule last_will_adds) simp
    then show ?thesis by (rule say_adds) (simp add: Idles)
  qed (simp add: adds_refl)
qed (use assms gets_adds last_will_adds adds_refl in auto)

lemma event_answers:
  assumes sh: "shown a b" and "appears v x" and acc: "accepted_act x a"
  shows "\<exists>b' a' new. handle v b = Inr b' \<and> shown a' b' \<and> commands b' = commands b @ map answer_cmd new \<and>
    list_all (solicited x a a') new"
proof -
  obtain b' a' where one: "handle v b = Inr b'" "step x a a'" "shown a' b'"
    using event_follows [OF assms] by (auto simp: follows_def)
  obtain new where "m_out a' = m_out a @ new" "list_all (solicited x a a') new"
    using step_adds [OF one(2) acc] by (auto simp: adds_def)
  moreover then have "commands b' = commands b @ map answer_cmd new" using sh one(3) by (simp add: shown_def)
  ultimately show ?thesis using one by blast
qed

section \<open>Whole passes\<close>

text \<open>The events of a pass over a poll set, the control socket left out.\<close>

fun entry_event :: "env \<Rightarrow> pollfd \<Rightarrow> event" where
  "entry_event e (fd, Pollin) = Data e fd"
| "entry_event e (fd, OtherEvents) = Hang_Up fd"
| "entry_event e (fd, NoEvents) = Quiet e fd"

definition pass_events :: "env \<Rightarrow> int \<Rightarrow> pollfd list \<Rightarrow> event list" where
  "pass_events e ctl v = map (entry_event e) (filter (\<lambda>x. fst x \<noteq> ctl) v)"

lemma handle_entry:
  "handle (entry_event e (fd, ev)) b = give_up fd (serve_entry e fd ev b)"
  by (cases ev) (simp_all add: serve_entry_def)

lemma wait_loop_longer: "wait_loop e vs dels b = Inr (vs', dels', b') \<Longrightarrow> length dels \<le> length dels'"
proof (induction e vs dels b arbitrary: vs' rule: wait_loop.induct)
  case (2 e fd ev vs dels b)
  show ?case
  proof (cases "ev \<noteq> OtherEvents \<and> fd = control_sock b")
    case True
    then show ?thesis using 2 by (cases ev) (auto simp: rbind_eq_Inr split: if_splits)
  next
    case False
    then show ?thesis using 2(3,4) by (cases ev) (fastforce simp: rbind_eq_Inr split: if_splits)+
  qed
qed simp

lemma wait_loop_events:
  assumes "wait_loop e vs dels b = Inr (vs', dels, b')" and "broker_inv b"
    and "\<forall>x\<in>set vs. fst x = control_sock b \<longrightarrow> snd x = NoEvents"
  shows "handle_all (pass_events e (control_sock b) vs) b = Inr b'"
  using assms
proof (induction vs arbitrary: b vs')
  case (Cons x vs)
  obtain fd ev where x: "x = (fd, ev)" by (cases x)
  show ?case
  proof (cases "fd = control_sock b")
    case True
    with Cons.prems(3) have "ev = NoEvents" by (simp add: x)
    with Cons.prems(1) True obtain ws where "wait_loop e vs dels b = Inr (ws, dels, b')"
      by (auto simp: x rbind_eq_Inr)
    then show ?thesis using Cons True by (simp add: x pass_events_def)
  next
    case False
    then have "wait_loop e (x # vs) dels b = rbind (serve_entry e fd ev b) (\<lambda>(del, b).
        rbind (wait_loop e vs (if del then dels @ [fd] else dels) b) (\<lambda>(vs, dels, b).
        Inr ((fd, if ev = Pollin then NoEvents else ev) # vs, dels, b)))"
      by (cases ev) (simp_all add: x serve_entry_def)
    with Cons.prems(1) obtain del b1 ws where one: "serve_entry e fd ev b = Inr (del, b1)"
      and rest: "wait_loop e vs (if del then dels @ [fd] else dels) b1 = Inr (ws, dels, b')"
      by (auto simp: rbind_eq_Inr simp del: if_split split del: if_split)
    have "\<not> del"
    proof
      assume del
      then have "set (dels @ [fd]) \<subseteq> set dels \<and> length (dels @ [fd]) \<le> length dels"
        using rest wait_loop_dels [of e vs "dels @ [fd]" b1] wait_loop_longer [of e vs "dels @ [fd]" b1] by auto
      then show False by simp
    qed
    moreover have ev1: "evolves b b1"
      using one serve_data_evolves serve_closed_evolves serve_quiet_evolves Cons.prems(2)
      by (cases ev) (auto simp: serve_entry_def)
    ultimately have "handle_all (pass_events e (control_sock b1) vs) b1 = Inr b'"
      using rest Cons.prems(3) by (intro Cons.IH) (auto simp: evolves_def)
    then show ?thesis
      using False one \<open>\<not> del\<close> ev1 by (simp add: x pass_events_def handle_entry give_up_def evolves_def)
  qed
qed (simp add: pass_events_def)

definition polled_set :: "env \<Rightarrow> pollfd list \<Rightarrow> Broker \<Rightarrow> pollfd list" where
  "polled_set e v b = map (\<lambda>(fd, _). (fd, polled e fd)) (take (unat (GetClientCount b + 1)) v)"

lemma pass_is_events:
  assumes pass: "wait_step e v b = Inr (v', b')" and inv: "broker_inv b" and "\<not> poll_failed e"
    and ctl: "polled e (control_sock b) = NoEvents" and quiet: "closed b' = closed b"
  shows "handle_all (pass_events e (control_sock b) (polled_set e v b)) b = Inr b'"
proof -
  obtain vs dels b1 where loop: "wait_loop e (polled_set e v b) [] b = Inr (vs, dels, b1)"
    and rest: "(if dels \<noteq> [] then close_loop dels (SetState started b1) else Inr b1) = Inr b'"
    using pass assms(3)
    by (auto simp: wait_step_def polled_set_def Let_def rbind_eq_Inr split: if_splits simp del: close_loop.simps)
  have "prefix (closed b) (closed b1)" using wait_loop_evolves [OF loop inv] by (simp add: evolves_def)
  then have len: "length (closed b) \<le> length (closed b1)" by (rule prefix_length_le)
  have "dels = []"
  proof (rule ccontr)
    assume "dels \<noteq> []"
    then have "closed b' = closed b1 @ dels"
      using rest close_loop_result [of dels "SetState started b1" b'] by (simp add: SetState_def)
    then show False using quiet len \<open>dels \<noteq> []\<close> by simp
  qed
  moreover have "\<forall>x\<in>set (polled_set e v b). fst x = control_sock b \<longrightarrow> snd x = NoEvents"
    using ctl by (auto simp: polled_set_def)
  ultimately show ?thesis using loop rest wait_loop_events [OF _ inv] by simp
qed

text \<open>So a pass that closes nothing simulates the acts of its entries.\<close>

lemma pass_follows:
  assumes "wait_step e v b = Inr (v', b')" and sh: "shown a b" and "\<not> poll_failed e"
    and "polled e (control_sock b) = NoEvents" and "closed b' = closed b"
    and "list_all2 appears (pass_events e (control_sock b) (polled_set e v b)) xs" and "accepted_acts xs a"
  shows "\<exists>a'. steps xs a a' \<and> shown a' b'"
  using events_follow [OF sh assms(6,7)] pass_is_events [OF assms(1) shown_inv [OF sh] assms(3-5)] by auto

end
