(* ===== verification/Machine_Threads.thy ===== *)
theory Machine_Threads
  imports Machine_Events Startup
begin

text \<open>
  The threads of the program and the abstract machine. A step of \<open>fstep\<close>, in which the server thread
  may be interrupted between two entries of the poll set and two closings, is observed as moves of
  the machine; what is observed of a run is simulated.
\<close>

section \<open>What a step shows\<close>

text \<open>The descriptors the server thread has given up and not closed yet.\<close>

fun given_up :: "server_pc \<Rightarrow> int list" where
  "given_up (At_entry t i n dels) = dels"
| "given_up (At_close fds) = fds"
| "given_up _ = []"

text \<open>The parts of the broker a client or the machine can see, but for the queue.\<close>

definition same_sessions :: "Broker \<Rightarrow> Broker \<Rightarrow> bool" where
  "same_sessions b b' \<longleftrightarrow> clients b' = clients b \<and> subscribed_clients b' = subscribed_clients b \<and>
     objects b' = objects b \<and> topics b' = topics b \<and> qos_2_topics b' = qos_2_topics b"

text \<open>
  Every observation is one of a step of the program that does not fault. The main thread adds a connection; the server
  thread serves an entry that is not the control socket, with the event \<open>poll\<close> reported and a packet
  if there is data; it closes a descriptor; a command is taken out of the queue, by a sender thread
  or by the server thread itself; or nothing that can be seen changes.
\<close>

inductive observed :: "threads \<Rightarrow> move list \<Rightarrow> threads \<Rightarrow> bool" where
  accepts: "fstep s s' \<Longrightarrow> \<not> crashed s' \<Longrightarrow> broker s' = main_step fd i t (broker s) \<Longrightarrow> given_up (pc s') = given_up (pc s) \<Longrightarrow>
    observed s [Does (Opens fd)] s'"
| serves: "fstep s s' \<Longrightarrow> \<not> crashed s' \<Longrightarrow> pc s = At_entry (cur_time e) i n dels \<Longrightarrow> i < n \<Longrightarrow> vec_fds s ! i = (fd, ev) \<Longrightarrow>
    fd \<noteq> control_sock (broker s) \<Longrightarrow>
    entry_step e i (vec_fds s) dels (broker s) = Inr (v, dels', broker s', leave) \<Longrightarrow>
    given_up (pc s') = dels' \<Longrightarrow> appears (entry_event e (fd, ev)) x \<Longrightarrow> observed s [Does x] s'"
| closes: "fstep s s' \<Longrightarrow> \<not> crashed s' \<Longrightarrow> pc s = At_close (fd # fds) \<Longrightarrow> pc s' = At_close fds \<Longrightarrow> observed s [Drops fd] s'"
| sends: "fstep s s' \<Longrightarrow> \<not> crashed s' \<Longrightarrow> same_sessions (broker s) (broker s') \<Longrightarrow> commands (broker s) = c # commands (broker s') \<Longrightarrow>
    given_up (pc s') = given_up (pc s) \<Longrightarrow> observed s [Sends] s'"
| silent: "fstep s s' \<Longrightarrow> \<not> crashed s' \<Longrightarrow> same_sessions (broker s) (broker s') \<Longrightarrow> commands (broker s') = commands (broker s) \<Longrightarrow>
    given_up (pc s') = given_up (pc s) \<Longrightarrow> observed s [] s'"

text \<open>A run of the threads with all that is observed of it.\<close>

inductive observed_run :: "threads \<Rightarrow> move list \<Rightarrow> threads \<Rightarrow> bool" for s where
  start: "observed_run s [] s"
| step: "observed_run s xs s1 \<Longrightarrow> observed s1 ys s' \<Longrightarrow> observed_run s (xs @ ys) s'"

lemma observed_fstep: "observed s ys s' \<Longrightarrow> fstep s s'"
  by (induction rule: observed.induct)

lemma observed_run_fsteps: "observed_run s xs s' \<Longrightarrow> fstep\<^sup>*\<^sup>* s s'"
  by (induction rule: observed_run.induct) (auto dest: observed_fstep intro: rtranclp.rtrancl_into_rtrancl)

section \<open>The relation\<close>

text \<open>The machine shows the broker and the descriptors given up; the poll set and the descriptors to be
  closed belong to connections.\<close>

definition threads_show :: "service \<Rightarrow> threads \<Rightarrow> bool" where
  "threads_show u s \<longleftrightarrow> shown (fst u) (broker s) \<and> snd u = given_up (pc s) \<and> \<not> crashed s \<and>
     threads_inv s \<and> control_sock (broker s) \<notin> fds_of (broker s) \<and> polled_inv (broker s) (vec_fds s) (pc s)"

lemma fds_of_shown: "shown a b \<Longrightarrow> fds_of b = dom (m_sessions a)"
  by (simp add: shown_def sessions_shown_def)

lemma shown_same:
  assumes "shown a b" and "same_sessions b b'" and "broker_inv b'" and "commands b' = map answer_cmd (m_out a')"
    and "m_sessions a' = m_sessions a" and "m_retained a' = m_retained a" and "m_kept a' = m_kept a"
  shows "shown a' b'"
  using assms
  by (simp add: shown_def same_sessions_def sessions_shown_def storage_shown_def fds_of_def listed_def session_def
      held_def)

definition open_fds :: "machine \<Rightarrow> int set" where
  "open_fds a = dom (m_sessions a)"

lemma accepted_open:
  "accepted_act x a \<longleftrightarrow> offered x a \<and> (case x of Opens fd \<Rightarrow> True | _ \<Rightarrow> act_fd x \<in> open_fds a)"
  by (cases x) (auto simp: open_fds_def)

lemma deliver_dom: "deliver nm m a a' \<Longrightarrow> open_fds a' = open_fds a"
  unfolding open_fds_def by (rule deliver_keeps(3))

lemma send_will_dom: "send_will fd a a' \<Longrightarrow> open_fds a' = open_fds a"
  by (auto simp: send_will_def dest: deliver_dom split: option.splits)

lemma dom_operations [simp]:
  "open_fds (say fd y a) = open_fds a" "open_fds (keep c z a) = open_fds a"
  "open_fds (forget c i a) = open_fds a" "open_fds (retain nm m a) = open_fds a"
  "open_fds (put fd s a) = insert fd (open_fds a)"
  by (auto simp: open_fds_def say_def keep_def forget_def retain_def put_def)

lemma sends_dom: "open_fds (fold (send_one fd) ps a) \<union> {fd} = open_fds a \<union> {fd}"
proof (induction ps arbitrary: a)
  case (Cons p ps)
  have "open_fds (send_one fd p a) = insert fd (open_fds a)"
    by (simp add: send_one_def case_prod_unfold)
  then show ?case using Cons.IH [of "send_one fd p a"] by simp
qed simp

lemma gets_dom:
  assumes "gets fd p a a'" and "p \<noteq> Disconnect" and "fd \<in> open_fds a"
  shows "open_fds a' = open_fds a"
proof (cases p)
  case (Publish q ret i nm m)
  let ?a = "if ret then retain nm m a else a"
  consider "deliver nm m (say fd (ack PUBACK i) ?a) a'"
    | "a' = keep (s_id (session fd a)) (i, nm, m) (say fd (ack PUBREC i) ?a)" | "deliver nm m ?a a'"
    using assms(1) Publish by (auto simp: Let_def split: if_splits)
  then show ?thesis by cases (simp_all add: deliver_dom)
next
  case (Pubrel i)
  let ?a = "say fd (ack PUBCOMP i) a"
  consider "a' = ?a" | nm m a1 where "deliver nm m ?a a1" "a' = forget (s_id (session fd a)) i a1"
    using assms(1) Pubrel by (auto simp: Let_def split: option.splits)
  then show ?thesis by cases (simp_all add: deliver_dom)
next
  case (Subscribe i ts)
  let ?a = "say fd (Granted i (length ts)) (put fd (subscribe_to ts (session fd a)) a)"
  obtain ps where a': "a' = fold (send_one fd) ps ?a" using assms(1) Subscribe by (auto simp: replay_def)
  have "fd \<in> open_fds a'"
  proof (cases ps rule: rev_cases)
    case (snoc qs q)
    then show ?thesis by (simp only: a' fold_append fold.simps comp_apply id_apply) (simp add: send_one_def case_prod_unfold)
  qed (simp add: a')
  then show ?thesis using sends_dom [of fd ps ?a] assms(3) unfolding a' [symmetric] by (auto simp: insert_absorb)
qed (use assms in auto)

lemma serves_dom:
  assumes "Machine.serves x a a' del" and "accepted_act x a"
  shows "open_fds a \<subseteq> open_fds a'" and "open_fds a' \<subseteq> insert (act_fd x) (open_fds a)"
proof -
  have "open_fds a' = open_fds a \<or> open_fds a' = insert (act_fd x) (open_fds a)"
  proof (cases x)
    case (Gets fd p)
    then show ?thesis using assms gets_dom [of fd p a a'] by (auto simp: accepted_open split: if_splits)
  next
    case (Idles fd)
    then show ?thesis using assms send_will_dom [of fd "say fd Bye a" a'] by (auto split: if_splits)
  qed (use assms send_will_dom in \<open>auto simp: accepted_open\<close>)
  then show "open_fds a \<subseteq> open_fds a'" "open_fds a' \<subseteq> insert (act_fd x) (open_fds a)"
    by auto
qed

section \<open>Steps of the threads\<close>

lemma fstep_control: "fstep s s' \<Longrightarrow> threads_inv s \<Longrightarrow> control_sock (broker s') = control_sock (broker s)"
proof (induction rule: fstep.induct)
  case (main s b' fd i t new)
  then show ?case by (simp add: main_step_control)
next
  case (build s v b' go)
  then show ?case
    by (auto simp: started_step_def Let_def SetState_def split: if_splits option.splits prod.splits)
next
  case (entry s e i n dels v dels' b' leave)
  then show ?case using entry_step_evolves(1) [OF entry.hyps(5)] by (simp add: threads_inv_def evolves_def)
next
  case (close s fd fds r b')
  then have "b' = broker s" using clients_at_deref [of fd "broker s"] by simp
  then show ?case using evolves_CloseConnection [of "broker s" fd] close.prems by (simp add: threads_inv_def evolves_def)
next
  case (qos s b')
  then show ?case by (simp add: threads_inv_def qos_step_idle)
qed (simp_all add: SetState_def)

text \<open>What remains to be shown of a step once the machine follows it.\<close>

lemma threads_showI:
  assumes "fstep s s'" and "threads_show u s" and "\<not> crashed s'" and "shown a' (broker s')"
    and "control_sock (broker s) \<notin> open_fds a'"
    and "\<And>t i n dels. pc s = At_entry t i n dels \<Longrightarrow> open_fds (fst u) \<subseteq> open_fds a'"
  shows "threads_show (a', given_up (pc s')) s'"
proof -
  have inv: "threads_inv s" and old: "control_sock (broker s) \<notin> fds_of (broker s)"
      "polled_inv (broker s) (vec_fds s) (pc s)"
    using assms(2) by (simp_all add: threads_show_def)
  have fds: "fds_of (broker s) = open_fds (fst u)" "fds_of (broker s') = open_fds a'"
    using assms(2,4) by (simp_all add: threads_show_def fds_of_shown open_fds_def)
  have ctl: "control_sock (broker s') = control_sock (broker s)" by (rule fstep_control [OF assms(1) inv])
  have "no_takeover s s'"
    using assms(1,5,6) by (auto simp: no_takeover_def ctl fds split: server_pc.split)
  then have "polled_inv (broker s') (vec_fds s') (pc s')" using inv old by (rule no_takeover_polled)
  then show ?thesis
    using assms(3,4,5) fstep_inv [OF assms(1) inv] by (simp add: threads_show_def ctl fds)
qed

lemma entry_step_client:
  assumes "v ! i = (fd, ev)" and "fd \<noteq> control_sock b"
  shows "entry_step e i v dels b = rbind (serve_entry e fd ev b) (\<lambda>(del, b).
    Inr (if ev = Pollin then v[i := (fd, NoEvents)] else v, if del then dels @ [fd] else dels, b, False))"
  using assms by (cases ev) (simp_all add: entry_step_def)

lemma served_entry:
  assumes "shown a b" and "appears (entry_event e (fd, ev)) x" and "offered x a" and "fd \<in> open_fds a"
  shows "accepted_act x a" and "act_fd x = fd" and "entry_serves x a (serve_entry e fd ev b)"
proof -
  show fd: "act_fd x = fd" using assms(2) by (cases ev) auto
  then show acc: "accepted_act x a" using assms(3,4) by (cases x) (simp_all add: accepted_open)
  show "entry_serves x a (serve_entry e fd ev b)"
  proof (cases ev)
    case NoEvents
    then show ?thesis using assms(2) acc Quiet_serves [OF assms(1)] by (simp add: serve_entry_def)
  next
    case Pollin
    then obtain t body p where "arrives e fd t body" "carries t body p" "x = Gets fd p" using assms(2) by auto
    then show ?thesis using acc Data_serves [OF assms(1)] Pollin by (simp add: serve_entry_def)
  next
    case OtherEvents
    then show ?thesis using assms(2) acc Hang_Up_serves [OF assms(1)] by (simp add: serve_entry_def)
  qed
qed

lemma control_closed: "threads_show u s \<Longrightarrow> control_sock (broker s) \<notin> open_fds (fst u)"
  using fds_of_shown [of "fst u" "broker s"] unfolding threads_show_def open_fds_def by simp

text \<open>An entry of the poll set belongs to a connection or to the control socket.\<close>

lemma entry_open:
  assumes "threads_show u s" and "pc s = At_entry t i n dels" and "i < n" and "vec_fds s ! i = (fd, ev)"
    and "fd \<noteq> control_sock (broker s)"
  shows "fd \<in> open_fds (fst u)"
proof -
  have "i < length (vec_fds s)" using assms(1-3) by (auto simp: threads_show_def threads_inv_def)
  then have "(fd, ev) \<in> set (vec_fds s)" using assms(4) by (metis nth_mem)
  moreover have "fst ` set (vec_fds s) \<subseteq> insert (control_sock (broker s)) (fds_of (broker s))"
    using assms(1,2) by (simp add: threads_show_def poll_set_ok_def)
  ultimately show ?thesis
    using assms(1,5) by (force simp: threads_show_def fds_of_shown open_fds_def)
qed

lemma step_accepts:
  assumes st: "fstep s s'" "\<not> crashed s'" "broker s' = main_step fd i t (broker s)"
    and up: "given_up (pc s') = given_up (pc s)"
    and sh: "threads_show u s" and off: "offered (Opens fd) (fst u)" and ctl: "fd \<noteq> control_sock (broker s)"
  shows "\<exists>u'. moves (Does (Opens fd)) u u' \<and> threads_show u' s'"
proof -
  let ?a = "put fd new_session (fst u)"
  have "shown ?a (broker s')"
    unfolding st(3) using sh off by (intro shown_open) (simp_all add: threads_show_def)
  moreover have "control_sock (broker s) \<notin> open_fds ?a"
    using control_closed [OF sh] ctl by simp
  ultimately have "threads_show (?a, given_up (pc s')) s'"
    by (intro threads_showI [OF st(1) sh st(2)]) auto
  moreover have "moves (Does (Opens fd)) u (?a, given_up (pc s'))"
    using sh up by (cases u) (auto simp: threads_show_def)
  ultimately show ?thesis by blast
qed

lemma step_serves:
  assumes st: "fstep s s'" "\<not> crashed s'" "pc s = At_entry (cur_time e) i n dels" "i < n"
    and cur: "vec_fds s ! i = (fd, ev)" "fd \<noteq> control_sock (broker s)"
    and res: "entry_step e i (vec_fds s) dels (broker s) = Inr (v, given_up (pc s'), broker s', leave)"
    and app: "appears (entry_event e (fd, ev)) x"
    and sh: "threads_show u s" and off: "offered x (fst u)"
  shows "\<exists>u'. moves (Does x) u u' \<and> threads_show u' s'"
proof -
  have fd: "fd \<in> open_fds (fst u)" using entry_open [OF sh st(3,4) cur] .
  have shb: "shown (fst u) (broker s)" using sh by (simp add: threads_show_def)
  note one = served_entry [OF shb app off fd]
  obtain del b' a' where ser: "serve_entry e fd ev (broker s) = Inr (del, b')" "Machine.serves x (fst u) a' del" "shown a' b'"
    using one(3) by (auto simp: entry_serves_def)
  then have b': "broker s' = b'" "given_up (pc s') = (if del then dels @ [fd] else dels)"
    using res by (simp_all add: entry_step_client [OF cur])
  note dom = serves_dom [OF ser(2) one(1)]
  have "control_sock (broker s) \<notin> open_fds a'"
    using dom(2) control_closed [OF sh] cur(2) one(2) by auto
  then have "threads_show (a', given_up (pc s')) s'"
    using dom(1) ser(3) b'(1) by (intro threads_showI [OF st(1) sh st(2)]) simp_all
  moreover have "u = (fst u, dels)" using sh st(3) by (simp add: threads_show_def prod_eq_iff)
  moreover have "moves (Does x) (fst u, dels) (a', given_up (pc s'))"
    unfolding b'(2) one(2) [symmetric] using ser(2) by (simp only: moves.simps) blast
  ultimately show ?thesis by metis
qed

lemma fstep_closes:
  assumes "fstep s s'" and "pc s = At_close (fd # fds)" and "pc s' = At_close fds"
  shows "broker s' = CloseConnection fd (broker s)"
  using assms(1)
proof (cases rule: fstep.cases)
  case (close fd' fds' r b')
  have "b' = broker s" using close(5) clients_at_deref [of fd' "broker s"] by simp
  then show ?thesis using close(1,4) assms(2) by simp
next
  case (main b' fd i t new)
  have "pc s' \<noteq> At_close fds" unfolding main(1) using assms(2) by (cases new) simp_all
  then show ?thesis using assms(3) by simp
next
  case (qos b')
  have "pc s' = pc s" by (simp add: qos(1))
  then show ?thesis using assms(2,3) by simp
next
  case (sender c cs)
  have "pc s' = pc s" by (simp add: sender(1))
  then show ?thesis using assms(2,3) by simp
qed (use assms(2,3) in simp_all)

lemma step_closes:
  assumes st: "fstep s s'" "\<not> crashed s'" "pc s = At_close (fd # fds)" "pc s' = At_close fds"
    and sh: "threads_show u s"
  shows "\<exists>u'. moves (Drops fd) u u' \<and> threads_show u' s'"
proof -
  let ?a = "drop_session fd (fst u)"
  have "shown ?a (broker s')"
    unfolding fstep_closes [OF st(1,3,4)] using sh by (intro shown_close) (simp add: threads_show_def)
  moreover have "control_sock (broker s) \<notin> open_fds ?a"
    using control_closed [OF sh] by (simp add: open_fds_def drop_session_def)
  ultimately have "threads_show (?a, given_up (pc s')) s'"
    using st(3) by (intro threads_showI [OF st(1) sh st(2)]) simp_all
  moreover have "moves (Drops fd) u (?a, given_up (pc s'))"
    using sh st(3,4) by (cases u) (simp add: threads_show_def)
  ultimately show ?thesis by blast
qed

lemma step_same:
  assumes st: "fstep s s'" "\<not> crashed s'" "same_sessions (broker s) (broker s')"
    and cmds: "commands (broker s') = map answer_cmd out"
    and sh: "threads_show u s"
  shows "threads_show ((fst u)\<lparr>m_out := out\<rparr>, given_up (pc s')) s'"
proof -
  have inv: "broker_inv (broker s')" using fstep_inv [OF st(1)] sh by (simp add: threads_show_def threads_inv_def)
  have "shown ((fst u)\<lparr>m_out := out\<rparr>) (broker s')"
    using sh cmds by (intro shown_same [OF _ st(3) inv]) (simp_all add: threads_show_def)
  then show ?thesis
    using control_closed [OF sh] by (intro threads_showI [OF st(1) sh st(2)]) (simp_all add: open_fds_def)
qed

section \<open>Runs\<close>

lemma observed_simulated:
  assumes "observed s ys s'" and "threads_show u s" and "offered_run ys u"
    and "Does (Opens (control_sock (broker s))) \<notin> set ys"
  shows "\<exists>u'. run ys u u' \<and> threads_show u' s'"
  using assms
proof (induction rule: observed.induct)
  case (accepts s s' fd i t)
  then show ?case using step_accepts [OF accepts.hyps accepts.prems(1)] by auto
next
  case (serves s s' e i n dels fd ev v dels' leave x)
  then show ?case using step_serves [OF serves.hyps(1-6) _ serves.hyps(9) serves.prems(1)] by auto
next
  case (closes s s' fd fds)
  then show ?case using step_closes [OF closes.hyps closes.prems(1)] by auto
next
  case (sends s s' c)
  have "commands (broker s) = map answer_cmd (m_out (fst u))"
    using sends.prems(1) by (simp add: threads_show_def shown_def)
  then obtain y ys where out: "m_out (fst u) = y # ys" "commands (broker s') = map answer_cmd ys"
    using sends.hyps(4) by (cases "m_out (fst u)") auto
  have "threads_show ((fst u)\<lparr>m_out := ys\<rparr>, given_up (pc s')) s'"
    by (rule step_same [OF sends.hyps(1-3) out(2) sends.prems(1)])
  moreover have "moves Sends u ((fst u)\<lparr>m_out := ys\<rparr>, given_up (pc s'))"
    using sends.prems(1) sends.hyps(5) out(1) by (cases u) (simp add: threads_show_def)
  ultimately show ?case by auto
next
  case (silent s s')
  have "commands (broker s') = map answer_cmd (m_out (fst u))"
    using silent.prems(1) silent.hyps(4) by (simp add: threads_show_def shown_def)
  from step_same [OF silent.hyps(1-3) this silent.prems(1)] have "threads_show u s'"
    using silent.prems(1) silent.hyps(5) by (simp add: threads_show_def)
  then show ?case by simp
qed

lemma observed_control: "observed s ys s' \<Longrightarrow> threads_inv s \<Longrightarrow> control_sock (broker s') = control_sock (broker s)"
  by (rule fstep_control [OF observed_fstep])

lemma run_simulated:
  assumes "observed_run s xs s'" and "threads_show u s" and "offered_run xs u"
    and "Does (Opens (control_sock (broker s))) \<notin> set xs"
  shows "\<exists>u'. run xs u u' \<and> threads_show u' s' \<and> control_sock (broker s') = control_sock (broker s)"
  using assms
proof (induction rule: observed_run.induct)
  case (step xs s1 ys s')
  then obtain u1 where u1: "run xs u u1" "threads_show u1 s1" and ctl: "control_sock (broker s1) = control_sock (broker s)"
    by (auto simp: offered_append simp del: split_paired_All split_paired_Ex)
  moreover have "offered_run ys u1" using step.prems(2) u1(1) by (simp add: offered_append del: split_paired_All)
  moreover have "Does (Opens (control_sock (broker s1))) \<notin> set ys" using step.prems(3) ctl by simp
  ultimately obtain u' where "run ys u1 u'" "threads_show u' s'"
    using observed_simulated [OF step.hyps(2)] by blast
  moreover have "control_sock (broker s') = control_sock (broker s)"
    using observed_control [OF step.hyps(2)] u1(2) ctl by (simp add: threads_show_def)
  ultimately show ?case using u1(1) by (auto simp: run_append simp del: split_paired_Ex)
qed auto

lemma threads_show_start:
  assumes "broker_inv b" and "state b = init" and "clients b = []" and "topics b = []" and "qos_2_topics b = []"
    and "commands b = []"
  shows "threads_show (new_machine, []) (start_threads b)"
  using shown_start [of b] assms
  by (simp add: threads_show_def start_threads_def threads_inv_def fds_of_def)

lemma main_run_simulated:
  assumes "main_start cfg sock bound listening ctl = Some b" and "observed_run (start_threads b) xs s"
    and "offered_run xs (new_machine, [])" and "Does (Opens (control_sock b)) \<notin> set xs"
  shows "\<exists>u. run xs (new_machine, []) u \<and> threads_show u s"
proof -
  have "threads_show (new_machine, []) (start_threads b)"
    using main_start_inv [OF assms(1)] main_start_empty [OF assms(1)] by (intro threads_show_start) simp_all
  moreover have "control_sock (broker (start_threads b)) = control_sock b" by (simp add: start_threads_def)
  ultimately show ?thesis using run_simulated [OF assms(2) _ assms(3)] assms(4) by (metis (no_types))
qed

section \<open>What is not observed\<close>

text \<open>The poll set is too short for the clients there are.\<close>

definition overrun :: "threads \<Rightarrow> bool" where
  "overrun s \<longleftrightarrow> (\<exists>n. pc s = At_poll n \<and> length (vec_fds s) < n)"

text \<open>What the environment has for an entry is not for the machine: the control socket is reported with
  an event that is no data, or a client sends what the machine does not read as a packet it accepts,
  or it goes with a will the machine does not accept.\<close>

definition unfit :: "machine \<Rightarrow> Broker \<Rightarrow> env \<Rightarrow> pollfd \<Rightarrow> bool" where
  "unfit a b e = (\<lambda>(fd, ev). if fd = control_sock b then ev = OtherEvents
     else \<forall>x. appears (entry_event e (fd, ev)) x \<longrightarrow> \<not> offered x a)"

text \<open>The step serves such an entry.\<close>

definition outside :: "machine \<Rightarrow> threads \<Rightarrow> threads \<Rightarrow> bool" where
  "outside a s s' \<longleftrightarrow> (\<exists>e i n dels. pc s = At_entry (cur_time e) i n dels \<and> i < n \<and>
     unfit a (broker s) e (vec_fds s ! i) \<and>
     (case entry_step e i (vec_fds s) dels (broker s) of
        Inl f \<Rightarrow> crashed s'
      | Inr (v, dels', b', leave) \<Rightarrow> broker s' = b' \<and> given_up (pc s') = dels'))"

lemma same_sessions_refl [simp]:
  "same_sessions b b" "same_sessions b (SetState t b)" "same_sessions b (b\<lparr>commands := cs\<rparr>)"
  by (simp_all add: same_sessions_def SetState_def)

lemma commands_SetState [simp]: "commands (SetState t b) = commands b"
  by (simp add: SetState_def)

text \<open>What is observed is offered, but for a descriptor that \<open>accept\<close> returns.\<close>

definition seen :: "service \<Rightarrow> threads \<Rightarrow> threads \<Rightarrow> bool" where
  "seen u s s' \<longleftrightarrow> (\<exists>ys. observed s ys s' \<and> (offered_run ys u \<or> (\<exists>fd. ys = [Does (Opens fd)])))"

lemma seenI: "observed s ys s' \<Longrightarrow> offered_run ys u \<Longrightarrow> seen u s s'"
  by (auto simp: seen_def)

lemma offered_one [simp]:
  "offered_run [Does x] u \<longleftrightarrow> offered x (fst u)" "offered_run [Drops fd] u" "offered_run [Sends] u"
  by simp_all

lemma entry_observed:
  assumes st: "fstep s s'" and pc: "pc s = At_entry (cur_time e) i n dels" and i: "i < n"
    and sh: "threads_show u s" and fit: "\<not> unfit (fst u) (broker s) e (vec_fds s ! i)"
    and res: "entry_step e i (vec_fds s) dels (broker s) = Inr (v, dels', broker s', leave)"
    and s': "given_up (pc s') = dels'" "\<not> crashed s'"
  shows "seen u s s'"
proof -
  obtain fd ev where cur: "vec_fds s ! i = (fd, ev)" by (cases "vec_fds s ! i")
  show ?thesis
  proof (cases "fd = control_sock (broker s)")
    case True
    with fit cur have "ev \<noteq> OtherEvents" by (simp add: unfit_def)
    then have "dels' = dels" "broker s' = broker s \<or> broker s' = SetState started (broker s)"
      using res True by (cases ev; auto simp: entry_step_def cur Let_def split: if_splits)+
    then have "observed s [] s'" using st s' pc by (intro observed.silent) auto
    then show ?thesis by (rule seenI) simp
  next
    case False
    with fit cur obtain x where x: "appears (entry_event e (fd, ev)) x" "offered x (fst u)" by (auto simp: unfit_def)
    from x(1) have "observed s [Does x] s'"
      by (intro observed.serves [OF st s'(2) pc i cur False res s'(1)])
    then show ?thesis by (rule seenI) (simp add: x(2))
  qed
qed

lemma entry_no_fault:
  assumes pc: "pc s = At_entry (cur_time e) i n dels" and i: "i < n"
    and sh: "threads_show u s" and fit: "\<not> unfit (fst u) (broker s) e (vec_fds s ! i)"
  shows "\<exists>r. entry_step e i (vec_fds s) dels (broker s) = Inr r"
proof -
  obtain fd ev where cur: "vec_fds s ! i = (fd, ev)" by (cases "vec_fds s ! i")
  show ?thesis
  proof (cases "fd = control_sock (broker s)")
    case True
    with fit cur have "ev \<noteq> OtherEvents" by (simp add: unfit_def)
    then show ?thesis using True by (cases ev) (auto simp: entry_step_def cur Let_def)
  next
    case False
    with fit cur obtain x where x: "appears (entry_event e (fd, ev)) x" "offered x (fst u)"
      by (auto simp: unfit_def)
    have "shown (fst u) (broker s)" using sh by (simp add: threads_show_def)
    from served_entry(3) [OF this x entry_open [OF sh pc i cur False]] show ?thesis
      by (auto simp: entry_step_client [OF cur False] entry_serves_def)
  qed
qed

text \<open>A step of the program is observed, faults included, unless one of the two holds.\<close>

lemma step_observed:
  assumes "fstep s s'" and sh: "threads_show u s" and "\<not> overrun s" and inside: "\<not> outside (fst u) s s'"
  shows "seen u s s'"
  using assms(1)
proof (cases rule: fstep.cases)
  case (main b' fd i t new)
  have "given_up (pc s') = given_up (pc s)"
  proof (cases new)
    case True
    then have "\<not> serving s"
      using main_step_thread [where fd = fd and i = i and t = t and b = "broker s"] main(3,4) sh
      by (auto simp: threads_show_def threads_inv_def)
    then show ?thesis using sh main(1) True by (simp add: threads_show_def threads_inv_def)
  qed (simp add: main(1))
  then have "observed s [Does (Opens fd)] s'"
    using main by (intro observed.accepts [OF assms(1)]) simp_all
  then show ?thesis by (auto simp: seen_def)
next
  case (build v b' go)
  then consider "commands b' = commands (broker s)" | c where "commands (broker s) = c # commands b'"
    by (auto simp: started_step_def Let_def Execute_pop_def split: if_splits list.splits)
  moreover have "same_sessions (broker s) b'"
    using build(6) by (auto simp: started_step_def Let_def same_sessions_def SetState_def
        split: if_splits option.splits prod.splits)
  ultimately show ?thesis
  proof cases
    case 1
    then have "observed s [] s'" using build \<open>same_sessions (broker s) b'\<close>
      by (intro observed.silent [OF assms(1)]) simp_all
    then show ?thesis by (rule seenI) simp
  next
    case 2
    then have "observed s [Sends] s'" using build \<open>same_sessions (broker s) b'\<close>
      by (intro observed.sends [OF assms(1)]) simp_all
    then show ?thesis by (rule seenI) simp
  qed
next
  case (entry e i n dels v dels' b' leave)
  then have "\<not> unfit (fst u) (broker s) e (vec_fds s ! i)" using inside by (fastforce simp: outside_def)
  then show ?thesis using entry by (intro entry_observed [OF assms(1) entry(4,5) sh]) simp_all
next
  case (entry_fault e i n dels f)
  then have "\<not> unfit (fst u) (broker s) e (vec_fds s ! i)" using inside by (fastforce simp: outside_def)
  then show ?thesis using entry_no_fault [OF entry_fault(4,5) sh] entry_fault(6) by simp
next
  case (close fd fds r b')
  then have "observed s [Drops fd] s'" by (intro observed.closes [OF assms(1)]) simp_all
  then show ?thesis by (rule seenI) simp
next
  case (close_fault fd fds b')
  have "lookups_ok (broker s) (vec_fds s) (pc s)"
    using sh polled_inv_lookups by (simp add: threads_show_def threads_inv_def)
  then show ?thesis using close_fault by (simp add: is_connected_def)
next
  case (qos b')
  then have "b' = broker s" using sh by (simp add: threads_show_def threads_inv_def qos_step_idle)
  then have "observed s [] s'" using qos by (intro observed.silent [OF assms(1)]) simp_all
  then show ?thesis by (rule seenI) simp
next
  case (qos_fault f)
  then show ?thesis using sh by (simp add: threads_show_def threads_inv_def qos_step_idle)
next
  case (sender c cs)
  then have "observed s [Sends] s'"
    by (intro observed.sends [OF assms(1)]) (auto simp: Execute_pop_def split: list.splits)
  then show ?thesis by (rule seenI) simp
next
  case (overrun n)
  then show ?thesis using assms(3) by (simp add: overrun_def)
next
  case (entries_done t n dels)
  then have "observed s [] s'" by (intro observed.silent [OF assms(1)]) simp_all
  then show ?thesis by (rule seenI) simp
next
  case call_poll
  then have "observed s [] s'" by (intro observed.silent [OF assms(1)]) simp_all
  then show ?thesis by (rule seenI) simp
next
  case (return_poll n e)
  then have "observed s [] s'" by (intro observed.silent [OF assms(1)]) simp_all
  then show ?thesis by (rule seenI) simp
next
  case closed
  then have "observed s [] s'" by (intro observed.silent [OF assms(1)]) simp_all
  then show ?thesis by (rule seenI) simp
qed

end
