(* ===== verification/Examples.thy ===== *)
theory Examples
  imports Machine_Threads
begin

text \<open>
  A small broker on which the witnesses of the properties run: descriptor 5 belongs to a client
  \<open>c1\<close> that publishes, descriptor 6 to a client \<open>c2\<close> subscribed to the topic \<open>t\<close> at QoS 1 and to
  \<open>a/+\<close> at QoS 0. A value is retained for \<open>t\<close>, and one message is kept for the client \<open>c1\<close> under
  the identifier 7. Another broker is the one \<open>main\<close> has when it enters its loop.
\<close>

definition name_t :: bytes where "name_t = [0x74]"

definition name_ab :: bytes where "name_ab = [0x61, 0x2F, 0x62]"

definition filter_a :: bytes where "filter_a = [0x61, 0x2F, 0x2B]"

definition id_1 :: bytes where "id_1 = [0x63, 0x31]"

definition id_2 :: bytes where "id_2 = [0x63, 0x32]"

definition client_1 :: Client where
  "client_1 = (new_Client [] 0)\<lparr>client_id := id_1\<rparr>"

definition client_2 :: Client where
  "client_2 = (new_Client [] 0)\<lparr>client_id := id_2, subscribed_topics := [(name_t, 1), (filter_a, 0)]\<rparr>"

definition retained_t :: MqttTopic where
  "retained_t = new_MqttTopic 0 0 name_t (Some [1, 2])"

definition kept_t :: MqttTopic where
  "kept_t = new_MqttTopic 2 7 name_t (Some [3])"

definition demo :: Broker where
  "demo = new_Broker\<lparr>topics := [retained_t], qos_2_topics := [(id_1, kept_t)], current_clients := 2,
     clients := [(5, Some 0), (6, Some 1)], subscribed_clients := [(6, 1)], state := wait_state,
     control_sock := 3, objects := (\<lambda>r. if r = 0 then client_1 else client_2), next_object := 2\<rparr>"

lemma demo_simps [simp]:
  "topics demo = [retained_t]" "qos_2_topics demo = [(id_1, kept_t)]"
  "clients demo = [(5, Some 0), (6, Some 1)]" "subscribed_clients demo = [(6, 1)]"
  "commands demo = []" "control_sock demo = 3"
  "objects demo 0 = client_1" "objects demo 1 = client_2" "objects demo (Suc 0) = client_2"
  "state demo = wait_state" "postponed_events demo = []" "next_object demo = 2"
  by (simp_all add: demo_def new_Broker_def)

lemma demo_client_inv: "client_inv (objects demo r)"
  by (simp add: demo_def client_1_def client_2_def client_inv_def new_Client_def name_t_def filter_a_def
      un_ok_def ord_ok_def)

lemma demo_inv: "broker_inv demo"
  using demo_client_inv
  by (simp add: broker_inv_def clients_inv_def storage_inv_def un_ok_def ord_ok_def less_Suc_eq)

lemma demo_mem: "(5, Some 0) \<in> set (clients demo)" "(6, Some 1) \<in> set (clients demo)"
  by simp_all

lemma example_sizes:
  "length name_t = 1" "length name_ab = 3"
  by (simp_all add: name_t_def name_ab_def)

lemma example_tokens [simp]:
  "tokenize name_t is_sep = [name_t]"
  "tokenize name_ab is_sep = [[0x61], [0x62]]" "tokenize filter_a is_sep = [[0x61], plus_tok]"
  by (simp_all add: tokenize_def re_split.simps is_sep_def name_t_def name_ab_def filter_a_def plus_tok_def)

section \<open>The start of the program\<close>

definition small_config :: cfg_file where
  "small_config = Parsed (\<lambda>g. if g = ''log_file''
       then Some \<lparr>lookup_int = (\<lambda>_. None), lookup_string = (\<lambda>n. if n = ''path'' then Some ''log'' else None)\<rparr>
     else if g = ''broker'' then Some \<lparr>lookup_int = (\<lambda>_. None), lookup_string = (\<lambda>_. None)\<rparr> else None)"

definition late_bind :: "nat \<Rightarrow> int" where
  "late_bind n = (if n < 2 then -1 else 0)"

definition booted :: Broker where
  "booted = new_Broker\<lparr>control_sock := 3\<rparr>"

lemma booted_start: "main_start small_config 4 late_bind 0 (3, 0, 0) = Some booted"
proof -
  have "bind_loop late_bind 0 = Some (0 + 2)" by (rule bind_loop_first) (auto simp: late_bind_def)
  then show ?thesis
    by (simp add: main_start_def small_config_def read_groups_def default_to_def booted_def
        InitSocket_def InitControlSocket_def SetEraseOldValues_def SetPort_def new_Broker_def DEFAULT_PORT_def Let_def)
qed

lemma booted_simps [simp]: "clients booted = []" "state booted = init" "control_sock booted = 3" "server_threads booted = 0"
  "next_object booted = 0"
  by (simp_all add: booted_def new_Broker_def)

text \<open>After the first connection, on descriptor 5, and in the middle of the first pass of the server
  thread over its poll set.\<close>

definition one_client :: Broker where
  "one_client = main_step 5 [] 0 booted"

lemma one_client_simps [simp]:
  "clients one_client = [(5, Some 0)]" "state one_client = started" "control_sock one_client = 3"
  "server_threads one_client = 1"
  by (simp_all add: one_client_def main_step_def AddClient_def un_insert_def Let_def GetState_def Start_def SetState_def)

definition accepted :: threads where
  "accepted = \<lparr>broker = one_client, vec_fds = [], serving = True, crashed = False, pc = At_switch\<rparr>"

definition polling :: "server_pc \<Rightarrow> threads" where
  "polling p = \<lparr>broker = SetState wait_state one_client, vec_fds = [(5, NoEvents), (3, NoEvents)], serving = True,
     crashed = False, pc = p\<rparr>"

definition mid_pass :: threads where
  "mid_pass = polling (At_entry 0 0 2 [])"

definition idle_env :: env where
  "idle_env = \<lparr>poll_failed = False, polled = (\<lambda>_. NoEvents), cur_time = 0, ctl_in = None, hdr_in = (\<lambda>_. []),
     body_in = (\<lambda>_ _ _. ReadFails), rand_vals = (\<lambda>_. 0)\<rparr>"

lemma mid_pass_steps:
  "no_takeover (start_threads booted) accepted" "no_takeover accepted (polling At_switch)"
  "no_takeover (polling At_switch) (polling (At_poll 2))" "no_takeover (polling (At_poll 2)) mid_pass"
proof -
  have "fstep (start_threads booted) ((start_threads booted)\<lparr>broker := one_client, vec_fds := (if True then []
      else vec_fds (start_threads booted)), serving := serving (start_threads booted) \<or> True,
      pc := (if True then At_switch else pc (start_threads booted))\<rparr>)"
    by (rule fstep.main [where fd = 5 and i = "[]" and t = 0]) (simp_all add: start_threads_def one_client_def [symmetric])
  then show "no_takeover (start_threads booted) accepted"
    by (simp add: no_takeover_def start_threads_def accepted_def fds_of_def)
  have "started_step one_client = ([(5, NoEvents), (3, NoEvents)], SetState wait_state one_client, True)"
    by (simp add: started_step_def GetClientCount_def)
  then have "fstep accepted (accepted\<lparr>broker := SetState wait_state one_client,
      vec_fds := [(5, NoEvents), (3, NoEvents)], serving := True\<rparr>)"
    by (intro fstep.build) (simp_all add: accepted_def)
  then show "no_takeover accepted (polling At_switch)"
    by (simp add: no_takeover_def accepted_def polling_def fds_of_def SetState_def)
  have "fstep (polling At_switch) ((polling At_switch)\<lparr>pc := At_poll (unat (GetClientCount (broker (polling At_switch)) + 1))\<rparr>)"
    by (rule fstep.call_poll) (simp_all add: polling_def SetState_def)
  then show "no_takeover (polling At_switch) (polling (At_poll 2))"
    by (simp add: no_takeover_def polling_def fds_of_def SetState_def GetClientCount_def)
  have "fstep (polling (At_poll 2)) ((polling (At_poll 2))\<lparr>broker := (if poll_failed idle_env
        then SetState started (broker (polling (At_poll 2))) else broker (polling (At_poll 2))),
      vec_fds := poll_result idle_env 2 (vec_fds (polling (At_poll 2))), pc := At_entry (cur_time idle_env) 0 2 []\<rparr>)"
    by (rule fstep.return_poll) (simp_all add: polling_def)
  then show "no_takeover (polling (At_poll 2)) mid_pass"
    by (simp add: no_takeover_def polling_def mid_pass_def fds_of_def SetState_def idle_env_def poll_result_def)
qed

lemma mid_pass_reached: "no_takeover\<^sup>*\<^sup>* (start_threads booted) mid_pass"
  using mid_pass_steps by (meson converse_rtranclp_into_rtranclp rtranclp.rtrancl_refl)

lemma one_client_reached: "pstep\<^sup>*\<^sup>* (start_program booted) ((start_program booted)\<lparr>broker := one_client, serving := True\<rparr>)"
  using pstep.main [of "start_program booted" one_client 5 "[]" 0]
  by (simp add: start_program_def r_into_rtranclp flip: one_client_def)

lemma example_safe:
  "sub_safe name_t name_t" "sub_safe filter_a name_t" "sub_safe name_t name_ab" "sub_safe filter_a name_ab"
  by (simp_all add: sub_safe_def) (simp_all add: name_t_def name_ab_def filter_a_def plus_tok_def)

lemma demo_ready: "all_ready name_t demo" "all_ready name_ab demo"
  using example_safe by (simp_all add: all_ready_def ready_def client_2_def new_Client_def)

section \<open>Packets\<close>

lemma example_publish:
  "publish_packet_ok \<lparr>first = 0x32, remaining_len = 8\<rparr> (new_PublishVH name_t 9 []) [1, 2]
    (publish_body (new_PublishVH name_t 9 []) [1, 2])"
  by (simp add: publish_packet_ok_def chain_readable_def chain_ok_def publish_body_def new_PublishVH_def
      chain_enc_Nil id_enc_def QoS_def example_sizes)

lemma example_subscribe:
  "subscribe_packet_ok \<lparr>first = 0x82, remaining_len = 7\<rparr> \<lparr>sub_packet_id = 4, sub_chain = []\<rparr> [(name_t, 1)]
    (vh_enc (Subscribe_vh \<lparr>sub_packet_id = 4, sub_chain = []\<rparr>) @ subs_enc [(name_t, 1)])"
  by (simp add: subscribe_packet_ok_def chain_readable_def chain_ok_def chain_enc_Nil example_sizes length_id_enc)

text \<open>The packet of a client that asks for the identifier of the client behind descriptor 6.\<close>

definition example_connect :: connect_packet where
  "example_connect =
     \<lparr>cp_vh = \<lparr>prot_name_len = 4, vh_name = [0x4D, 0x51, 0x54, 0x54], version = 5, conn_flags = 2, vh_alive = 60\<rparr>,
      cp_chain = [], cp_id = id_2, cp_will = None, cp_user = None, cp_pwd = None\<rparr>"

lemma example_connect_ok: "connect_packet_ok example_connect"
  by (simp add: connect_packet_ok_def example_connect_def chain_readable_def chain_ok_def chain_enc_Nil
      MQTT_VERSION_5_def connect_body_def opt_enc_def will_enc_def id_2_def)

text \<open>An environment in which the bytes of a packet are delivered at once on every descriptor.\<close>

definition delivering :: "u8 \<Rightarrow> bytes \<Rightarrow> int \<Rightarrow> env" where
  "delivering t body now =
     \<lparr>poll_failed = False, polled = (\<lambda>_. Pollin), cur_time = now, ctl_in = None,
      hdr_in = (\<lambda>_. t # vint (length body)),
      body_in = (\<lambda>_ _ _. case body of [] \<Rightarrow> ReadFails | c # cs \<Rightarrow> Got c cs), rand_vals = (\<lambda>_. 0)\<rparr>"

lemma delivering_arrives:
  assumes "body \<noteq> []" and "length body < 2 ^ 28" and "0 \<le> fd"
  shows "arrives (delivering t body now) fd t body"
  using assms by (cases body)
    (simp_all add: arrives_def delivering_def ReadData_def read_data_loop.simps [of _ 0] nat_add_distrib)

lemma example_carries:
  "carries 0x32 (publish_body (new_PublishVH name_t 9 []) [1, 2]) (Publish 1 False 9 name_t [1, 2])"
proof -
  have "length (publish_body (new_PublishVH name_t 9 []) [1, 2]) = 8"
    by (simp add: publish_body_def new_PublishVH_def chain_enc_Nil length_id_enc example_sizes)
  then show ?thesis using example_publish
    by (auto simp: header_def QoS_def isRETAIN_def new_PublishVH_def intro!: exI [of _ "new_PublishVH name_t 9 []"])
qed

lemma example_publish_appears:
  "appears (Data (delivering 0x32 (publish_body (new_PublishVH name_t 9 []) [1, 2]) 0) 5)
    (Gets 5 (Publish 1 False 9 name_t [1, 2]))"
proof -
  let ?pub = "publish_body (new_PublishVH name_t 9 []) [1, 2]"
  have "length ?pub = 8"
    by (simp add: publish_body_def new_PublishVH_def chain_enc_Nil length_id_enc example_sizes)
  then have "arrives (delivering 0x32 ?pub 0) 5 0x32 ?pub" by (intro delivering_arrives) auto
  then show ?thesis using example_carries by (auto simp del: carries.simps)
qed

lemma example_connect_appears:
  "arrives (delivering 0x10 (connect_body example_connect) 0) 5 0x10 (connect_body example_connect)"
  "carries 0x10 (connect_body example_connect) (Connect id_2 True None)"
proof -
  have "connect_body example_connect \<noteq> []" "length (connect_body example_connect) < 2 ^ 28"
    using example_connect_ok by (simp_all add: connect_packet_ok_def) (simp add: connect_body_def example_connect_def)
  then show "arrives (delivering 0x10 (connect_body example_connect) 0) 5 0x10 (connect_body example_connect)"
    by (intro delivering_arrives) simp_all
  show "carries 0x10 (connect_body example_connect) (Connect id_2 True None)"
    using example_connect_ok by (auto simp: example_connect_def intro!: exI [of _ example_connect])
qed

section \<open>A run of the threads\<close>

text \<open>A client is accepted, its CONNECT is served, another client is accepted in the middle of the pass,
  and a sender thread takes the CONNACK.\<close>

definition example_moves :: "move list" where
  "example_moves = [Does (Opens 5), Does (Gets 5 (Connect id_2 True None)), Does (Opens 6), Sends]"

definition connect_env :: env where
  "connect_env = (delivering 0x10 (connect_body example_connect) 0)
     \<lparr>polled := (\<lambda>fd. if fd = 5 then Pollin else NoEvents)\<rparr>"

definition ready_pass :: threads where
  "ready_pass = (polling (At_entry 0 0 2 []))\<lparr>vec_fds := [(5, Pollin), (3, NoEvents)]\<rparr>"

lemma example_fsteps:
  "fstep (start_threads booted) accepted" "fstep accepted (polling At_switch)"
  "fstep (polling At_switch) (polling (At_poll 2))" "fstep (polling (At_poll 2)) ready_pass"
proof -
  show "fstep (start_threads booted) accepted" "fstep accepted (polling At_switch)"
    "fstep (polling At_switch) (polling (At_poll 2))"
    using mid_pass_steps by (simp_all add: no_takeover_def)
  have "fstep (polling (At_poll 2)) ((polling (At_poll 2))\<lparr>broker := (if poll_failed connect_env
        then SetState started (broker (polling (At_poll 2))) else broker (polling (At_poll 2))),
      vec_fds := poll_result connect_env 2 (vec_fds (polling (At_poll 2))), pc := At_entry (cur_time connect_env) 0 2 []\<rparr>)"
    by (rule fstep.return_poll) (simp_all add: polling_def)
  then show "fstep (polling (At_poll 2)) ready_pass"
    by (simp add: polling_def ready_pass_def connect_env_def delivering_def poll_result_def)
qed

lemma polling_observed: "observed_run (start_threads booted) [Does (Opens 5)] (polling At_switch)"
proof -
  have "observed (start_threads booted) [Does (Opens 5)] accepted"
    by (rule observed.accepts [OF example_fsteps(1), where i = "[]" and t = 0])
      (simp_all add: accepted_def start_threads_def one_client_def)
  then have "observed_run (start_threads booted) ([] @ [Does (Opens 5)]) accepted"
    by (rule observed_run.step [OF observed_run.start])
  moreover have "observed accepted [] (polling At_switch)"
    by (rule observed.silent [OF example_fsteps(2)]) (simp_all add: accepted_def polling_def)
  ultimately have "observed_run (start_threads booted) (([] @ [Does (Opens 5)]) @ []) (polling At_switch)"
    by (rule observed_run.step)
  then show ?thesis by simp
qed

lemma observed_run_silent: "observed_run s xs s1 \<Longrightarrow> observed s1 [] s' \<Longrightarrow> observed_run s xs s'"
  using observed_run.step [of s xs s1 "[]" s'] by simp

lemma ready_observed: "observed_run (start_threads booted) [Does (Opens 5)] ready_pass"
proof -
  have "observed (polling At_switch) [] (polling (At_poll 2))"
    by (rule observed.silent [OF example_fsteps(3)]) (simp_all add: polling_def)
  moreover have "observed (polling (At_poll 2)) [] ready_pass"
    by (rule observed.silent [OF example_fsteps(4)]) (simp_all add: polling_def ready_pass_def)
  ultimately show ?thesis using polling_observed observed_run_silent by blast
qed

lemma opened_offered: "offered_run [Does (Opens 5)] (new_machine, [])"
  by (simp add: new_machine_def)

lemma example_offered: "offered_run example_moves (new_machine, [])" "Does (Opens (control_sock booted)) \<notin> set example_moves"
proof -
  let ?a1 = "put 5 new_session new_machine"
  let ?c = "\<lparr>s_id = id_2, s_greeted = True, s_subs = Map.empty, s_next = 1, s_will = None\<rparr>"
  let ?a2 = "say 5 (Welcome True) (put 5 ?c ?a1)"
  have s: "session 5 ?a1 = new_session" by (simp add: put_def session_def)
  have u: "new_session\<lparr>s_id := id_2, s_greeted := True, s_will := None\<rparr> = ?c" by (simp add: new_session_def)
  have "offered (Opens 5) new_machine" by (simp add: new_machine_def)
  moreover have "offered (Gets 5 (Connect id_2 True None)) ?a1"
    by (simp add: s) (simp add: new_session_def put_def new_machine_def id_2_def)
  moreover have "offered (Opens 6) ?a2" by (simp add: put_def say_def new_machine_def)
  ultimately show "offered_run example_moves (new_machine, [])"
    by (simp add: example_moves_def s u del: offered.simps)
qed (simp add: example_moves_def)

text \<open>The main thread accepts a connection while the server thread runs.\<close>

lemma accept_while_serving:
  assumes "threads_inv s" and "\<not> crashed s" and "serving s"
  obtains s' where "observed s [Does (Opens fd)] s'" "broker s' = main_step fd i t (broker s)"
proof -
  have "state (broker s) \<noteq> init" using assms by (simp add: threads_inv_def)
  then have same: "server_threads (main_step fd i t (broker s)) = server_threads (broker s)"
    using main_step_thread(1,2) by blast
  define s' where "s' = s\<lparr>broker := main_step fd i t (broker s), vec_fds := vec_fds s, serving := serving s \<or> False,
      pc := pc s\<rparr>"
  have "fstep s s'"
    using fstep.main [OF assms(2) refl refl, of fd i t] same by (simp add: s'_def)
  then have "observed s [Does (Opens fd)] s'"
    by (rule observed.accepts) (use assms(2) in \<open>simp_all add: s'_def\<close>)
  then show thesis by (rule that) (simp add: s'_def)
qed

lemma sender_observed:
  assumes "\<not> crashed s" and "commands (broker s) \<noteq> []"
  obtains s' where "observed s [Sends] s'"
proof -
  obtain c cs where c: "commands (broker s) = c # cs" using assms(2) by (cases "commands (broker s)") auto
  have "fstep s (s\<lparr>broker := (broker s)\<lparr>commands := cs\<rparr>\<rparr>)"
    by (rule fstep.sender [OF assms(1), of c]) (simp add: Execute_pop_def c)
  then have "observed s [Sends] (s\<lparr>broker := (broker s)\<lparr>commands := cs\<rparr>\<rparr>)"
    by (rule observed.sends) (use assms(1) c in simp_all)
  then show thesis by (rule that)
qed

lemma connect_observed:
  "\<exists>s. observed_run (start_threads booted) [Does (Opens 5), Does (Gets 5 (Connect id_2 True None))] s \<and>
    serving s"
proof -
  let ?x = "Gets 5 (Connect id_2 True None)"
  obtain u where u: "run [Does (Opens 5)] (new_machine, []) u" "threads_show u ready_pass"
    using main_run_simulated [OF booted_start ready_observed opened_offered] by (auto simp del: run.simps)
  have cur: "vec_fds ready_pass ! 0 = (5, Pollin)" "(5 :: int) \<noteq> control_sock (broker ready_pass)"
    by (simp_all add: ready_pass_def polling_def SetState_def)
  have pc: "pc ready_pass = At_entry (cur_time connect_env) 0 2 []"
    by (simp add: ready_pass_def polling_def connect_env_def delivering_def)
  have "arrives connect_env 5 0x10 (connect_body example_connect)"
    using example_connect_appears(1) by (simp add: arrives_def connect_env_def)
  then have app: "appears (entry_event connect_env (5, Pollin)) ?x"
    using example_connect_appears(2) by (auto simp del: carries.simps)
  have "offered ?x (fst u)"
  proof -
    have "fst u = put 5 new_session new_machine" using u(1) by (cases u) auto
    then show ?thesis
      by (simp add: put_def session_def) (simp add: new_session_def new_machine_def id_2_def)
  qed
  then have "\<not> unfit (fst u) (broker ready_pass) connect_env (vec_fds ready_pass ! 0)"
    using app cur by (auto simp: unfit_def simp del: offered.simps appears.simps entry_event.simps)
  then obtain v dels b leave where res: "entry_step connect_env 0 (vec_fds ready_pass) [] (broker ready_pass) =
      Inr (v, dels, b, leave)"
    using entry_no_fault [OF pc _ u(2)] by auto
  define s where "s = ready_pass\<lparr>broker := b, vec_fds := v,
      pc := At_entry (cur_time connect_env) (if leave then 2 else Suc 0) 2 dels\<rparr>"
  have alive: "\<not> crashed ready_pass" "serving ready_pass" by (simp_all add: ready_pass_def polling_def)
  have "fstep ready_pass s" unfolding s_def by (rule fstep.entry [OF alive pc _ res]) simp
  then have "observed ready_pass [Does ?x] s"
    by (rule observed.serves [OF _ _ pc _ cur _ _ app, where v = v and leave = leave])
      (use res alive in \<open>simp_all add: s_def\<close>)
  from observed_run.step [OF ready_observed this] show ?thesis
    using alive by (intro exI [of _ s]) (simp add: s_def)
qed

lemma example_run: "\<exists>s. observed_run (start_threads booted) example_moves s"
proof -
  let ?xs = "[Does (Opens 5), Does (Gets 5 (Connect id_2 True None))]"
  obtain s1 where s1: "observed_run (start_threads booted) ?xs s1" "serving s1" using connect_observed by blast
  have "offered_run (?xs @ [Does (Opens 6), Sends]) (new_machine, [])"
    using example_offered(1) by (simp add: example_moves_def)
  then have off: "offered_run ?xs (new_machine, [])" unfolding offered_append by blast
  obtain u1 where u1: "run ?xs (new_machine, []) u1" "threads_show u1 s1"
    using main_run_simulated [OF booted_start s1(1) off] by (auto simp del: run.simps)
  then obtain s2 where s2: "observed s1 [Does (Opens 6)] s2" "broker s2 = main_step 6 [] 0 (broker s1)"
    using accept_while_serving [of s1 6 "[]" 0] s1(2) by (auto simp: threads_show_def)
  have "m_out (fst u1) \<noteq> []" using u1(1) by (cases u1) (auto simp: say_def)
  then have "commands (broker s1) \<noteq> []" using u1(2) by (simp add: threads_show_def shown_def)
  then have "commands (broker s2) \<noteq> []"
    by (simp add: s2(2) main_step_def AddClient_def Let_def control_command_def Start_def)
  moreover have "\<not> crashed s2" using s2(1) by (cases rule: observed.cases)
  ultimately obtain s3 where "observed s2 [Sends] s3" using sender_observed by blast
  with observed_run.step [OF observed_run.step [OF s1(1) s2(1)]] show ?thesis
    by (auto simp: example_moves_def)
qed

text \<open>Another client is accepted after the poll set was built; the next call of \<open>poll\<close> counts it.\<close>

definition grown :: threads where
  "grown = (polling (At_poll 3))\<lparr>broker := main_step 6 [] 0 (SetState wait_state one_client)\<rparr>"

lemma grown_observed: "observed_run (start_threads booted) [Does (Opens 5), Does (Opens 6)] grown"
proof -
  let ?s = "(polling At_switch)\<lparr>broker := main_step 6 [] 0 (SetState wait_state one_client)\<rparr>"
  let ?b = "SetState wait_state one_client"
  have b: "server_threads (main_step 6 [] 0 ?b) = server_threads ?b" "state (main_step 6 [] 0 ?b) = wait_state"
    "unat (GetClientCount (main_step 6 [] 0 ?b) + 1) = 3"
    by (simp_all add: SetState_def main_step_def AddClient_def un_insert_def Let_def GetState_def Start_def
        GetClientCount_def control_command_def)
  have "fstep (polling At_switch) ?s"
    using fstep.main [OF _ refl refl, of "polling At_switch" 6 "[]" 0] b by (simp add: polling_def)
  then have "observed (polling At_switch) [Does (Opens 6)] ?s"
    by (rule observed.accepts [where i = "[]" and t = 0]) (simp_all add: polling_def)
  moreover have "fstep ?s grown"
    using fstep.call_poll [of ?s] b by (simp add: polling_def grown_def)
  then have "observed ?s [] grown" by (rule observed.silent) (simp_all add: polling_def grown_def)
  ultimately show ?thesis
    using observed_run_silent observed_run.step [OF polling_observed] by fastforce
qed

lemma grown_faults: "fstep grown (grown\<lparr>crashed := True\<rparr>)"
  by (rule fstep.overrun [where n = 3]) (simp_all add: grown_def polling_def)

end
