(* ===== verification/Header_Objects.thy ===== *)
theory Header_Objects
  imports Packets
begin

text \<open>
  The variable headers as objects: the virtual \<open>ReadFromBuf\<close>, which four of the classes leave empty,
  and the copies and moves of the PUBLISH and SUBSCRIBE headers and of their chain of properties.
\<close>

section \<open>Reading through the interface\<close>

definition PublishVH_ReadFromBuf :: "PublishVH \<Rightarrow> bytes \<Rightarrow> nat \<Rightarrow> u32 \<Rightarrow> (PublishVH \<times> u32) res" where
  "PublishVH_ReadFromBuf v buf p offset = Inr (v, offset)"

definition SubackVH_ReadFromBuf :: "SubackVH \<Rightarrow> bytes \<Rightarrow> nat \<Rightarrow> u32 \<Rightarrow> (SubackVH \<times> u32) res" where
  "SubackVH_ReadFromBuf v buf p offset = Inr (v, offset)"

definition UnsubAckVH_ReadFromBuf :: "UnsubAckVH \<Rightarrow> bytes \<Rightarrow> nat \<Rightarrow> u32 \<Rightarrow> (UnsubAckVH \<times> u32) res" where
  "UnsubAckVH_ReadFromBuf v buf p offset = Inr (v, offset)"

definition PublishV3VH_ReadFromBuf :: "PublishV3VH \<Rightarrow> bytes \<Rightarrow> nat \<Rightarrow> u32 \<Rightarrow> (PublishV3VH \<times> u32) res" where
  "PublishV3VH_ReadFromBuf v buf p offset = Inr (v, offset)"

definition read_as :: "('v \<Rightarrow> IVariableHeader) \<Rightarrow> ('v \<times> u32) res \<Rightarrow> (IVariableHeader \<times> u32) res" where
  "read_as f r = rbind r (\<lambda>(v, offset). Inr (f v, offset))"

lemma read_as_simps [simp]: "read_as f (Inr (v, off)) = Inr (f v, off)" "read_as f (Inl e) = Inl e"
  by (simp_all add: read_as_def)

text \<open>The object is changed in place; the classes that are read in full ignore what it was.\<close>

primrec vh_ReadFromBuf :: "IVariableHeader \<Rightarrow> bytes \<Rightarrow> nat \<Rightarrow> u32 \<Rightarrow> (IVariableHeader \<times> u32) res" where
  "vh_ReadFromBuf (Connect_vh v) buf p off = read_as Connect_vh (ConnectVH_ReadFromBuf buf p off)"
| "vh_ReadFromBuf (Connact_vh v) buf p off = read_as Connact_vh (ConnactVH_ReadFromBuf v buf p off)"
| "vh_ReadFromBuf (Disconnect_vh v) buf p off = read_as Disconnect_vh (DisconnectVH_ReadFromBuf v buf p off)"
| "vh_ReadFromBuf (Publish_vh v) buf p off = read_as Publish_vh (PublishVH_ReadFromBuf v buf p off)"
| "vh_ReadFromBuf (Subscribe_vh v) buf p off = read_as Subscribe_vh (SubscribeVH_ReadFromBuf buf p off)"
| "vh_ReadFromBuf (Suback_vh v) buf p off = read_as Suback_vh (SubackVH_ReadFromBuf v buf p off)"
| "vh_ReadFromBuf (Puback_vh v) buf p off = read_as Puback_vh (PubackVH_ReadFromBuf v buf p off)"
| "vh_ReadFromBuf (Unsubscribe_vh v) buf p off = read_as Unsubscribe_vh (UnsubscribeVH_ReadFromBuf v buf p off)"
| "vh_ReadFromBuf (UnsubAck_vh v) buf p off = read_as UnsubAck_vh (UnsubAckVH_ReadFromBuf v buf p off)"
| "vh_ReadFromBuf (TypicalV3_vh v) buf p off = read_as TypicalV3_vh (TypicalV3VH_ReadFromBuf buf p off)"
| "vh_ReadFromBuf (PublishV3_vh v) buf p off = read_as PublishV3_vh (PublishV3VH_ReadFromBuf v buf p off)"

section \<open>Copies\<close>

definition PublishVH_copy :: "PublishVH \<Rightarrow> PublishVH res" where
  "PublishVH_copy v = rbind (chain_copy (pu_chain v))
     (\<lambda>ch. Inr \<lparr>topic_name = topic_name v, pu_packet_id = pu_packet_id v, pu_chain = ch\<rparr>)"

definition SubscribeVH_copy :: "SubscribeVH \<Rightarrow> SubscribeVH res" where
  "SubscribeVH_copy v = rbind (chain_copy (sub_chain v))
     (\<lambda>ch. Inr \<lparr>sub_packet_id = sub_packet_id v, sub_chain = ch\<rparr>)"

definition assign_SubscribeVH :: "SubscribeVH \<Rightarrow> SubscribeVH \<Rightarrow> SubscribeVH res" where
  "assign_SubscribeVH w v =
     (let w = w\<lparr>sub_packet_id := sub_packet_id v\<rparr>
      in rbind (chain_copy (sub_chain v)) (\<lambda>ch. Inr (w\<lparr>sub_chain := ch\<rparr>)))"

text \<open>The constructors that take references copy them, those that take a chain away leave it moved.\<close>

definition PublishVH_of_copies :: "bytes \<Rightarrow> u16 \<Rightarrow> MqttPropertyChain \<Rightarrow> PublishVH res" where
  "PublishVH_of_copies nm i ch = rbind (chain_copy ch)
     (\<lambda>ch. Inr \<lparr>topic_name = nm, pu_packet_id = i, pu_chain = ch\<rparr>)"

definition PublishVH_of_chain ::
    "MqttPropertyChain \<Rightarrow> bytes \<Rightarrow> u16 \<Rightarrow> MqttPropertyChain \<Rightarrow> PublishVH \<times> MqttPropertyChain" where
  "PublishVH_of_chain left nm i ch =
     (\<lparr>topic_name = nm, pu_packet_id = i, pu_chain = ch\<rparr>, left)"

definition SubscribeVH_of_copies :: "u16 \<Rightarrow> MqttPropertyChain \<Rightarrow> SubscribeVH res" where
  "SubscribeVH_of_copies i ch = rbind (chain_copy ch) (\<lambda>ch. Inr \<lparr>sub_packet_id = i, sub_chain = ch\<rparr>)"

definition new_TypicalV3VH :: "u16 \<Rightarrow> TypicalV3VH" where
  "new_TypicalV3VH i = \<lparr>v3_packet_id = i\<rparr>"

definition new_PublishV3VH :: PublishV3VH where
  "new_PublishV3VH = \<lparr>p3_topic_name = [], p3_packet_id = 0\<rparr>"

definition PublishV3VH_of_copy :: "bytes \<Rightarrow> u16 \<Rightarrow> PublishV3VH" where
  "PublishV3VH_of_copy nm i = \<lparr>p3_topic_name = nm, p3_packet_id = i\<rparr>"

definition PublishV3VH_of_name :: "bytes \<Rightarrow> u16 \<Rightarrow> PublishV3VH \<times> bytes option" where
  "PublishV3VH_of_name nm i = (\<lparr>p3_topic_name = nm, p3_packet_id = i\<rparr>, None)"

lemma copies_id:
  assumes "chain_inv ch" and "\<forall>q\<in>set ch. copyable q"
  shows "pu_chain v = ch \<Longrightarrow> PublishVH_copy v = Inr v" "sub_chain u = ch \<Longrightarrow> SubscribeVH_copy u = Inr u"
    "sub_chain u = ch \<Longrightarrow> assign_SubscribeVH w u = Inr u"
    "PublishVH_of_copies nm i ch = Inr (new_PublishVH nm i ch)"
    "SubscribeVH_of_copies i ch = Inr \<lparr>sub_packet_id = i, sub_chain = ch\<rparr>"
  using chain_copy_id [OF assms]
  by (simp_all add: PublishVH_of_copies_def SubscribeVH_of_copies_def new_PublishVH_def PublishVH_copy_def SubscribeVH_copy_def assign_SubscribeVH_def Let_def)

section \<open>Moves\<close>

text \<open>
  A header that may have been moved away: its topic name is a pointer, null after a move. What
  \<open>std::map\<close> leaves in the chain it gives away is not specified; it is the argument \<open>left\<close>.
\<close>

record PublishVH_object =
  po_topic_name :: "bytes option"
  po_packet_id :: u16
  po_chain :: MqttPropertyChain

definition chain_move :: "MqttPropertyChain \<Rightarrow> MqttPropertyChain \<Rightarrow> MqttPropertyChain \<times> MqttPropertyChain" where
  "chain_move left src = (src, left)"

definition chain_move_assign ::
    "MqttPropertyChain \<Rightarrow> MqttPropertyChain \<Rightarrow> MqttPropertyChain \<Rightarrow> MqttPropertyChain \<times> MqttPropertyChain" where
  "chain_move_assign left dst src = (src, left)"

text \<open>The results are the new object and what is left of the source.\<close>

definition PublishVH_move :: "MqttPropertyChain \<Rightarrow> PublishVH_object \<Rightarrow> PublishVH_object \<times> PublishVH_object" where
  "PublishVH_move left v =
     (let (ch, rest) = chain_move left (po_chain v)
      in (\<lparr>po_topic_name = po_topic_name v, po_packet_id = po_packet_id v, po_chain = ch\<rparr>,
          v\<lparr>po_topic_name := None, po_chain := rest\<rparr>))"

definition PublishVH_move_assign ::
    "MqttPropertyChain \<Rightarrow> PublishVH_object \<Rightarrow> PublishVH_object \<Rightarrow> PublishVH_object \<times> PublishVH_object" where
  "PublishVH_move_assign left w v =
     (let w = w\<lparr>po_topic_name := po_topic_name v\<rparr>;
          v = v\<lparr>po_topic_name := None\<rparr>;
          w = w\<lparr>po_packet_id := po_packet_id v\<rparr>;
          (ch, rest) = chain_move_assign left (po_chain w) (po_chain v)
      in (w\<lparr>po_chain := ch\<rparr>, v\<lparr>po_chain := rest\<rparr>))"

definition SubscribeVH_move :: "MqttPropertyChain \<Rightarrow> SubscribeVH \<Rightarrow> SubscribeVH \<times> SubscribeVH" where
  "SubscribeVH_move left v =
     (let (ch, rest) = chain_move left (sub_chain v)
      in (\<lparr>sub_packet_id = sub_packet_id v, sub_chain = ch\<rparr>, v\<lparr>sub_chain := rest\<rparr>))"

definition SubscribeVH_move_assign ::
    "MqttPropertyChain \<Rightarrow> SubscribeVH \<Rightarrow> SubscribeVH \<Rightarrow> SubscribeVH \<times> SubscribeVH" where
  "SubscribeVH_move_assign left w v =
     (let w = w\<lparr>sub_packet_id := sub_packet_id v\<rparr>;
          (ch, rest) = chain_move_assign left (sub_chain w) (sub_chain v)
      in (w\<lparr>sub_chain := ch\<rparr>, v\<lparr>sub_chain := rest\<rparr>))"

definition object_of :: "PublishVH \<Rightarrow> PublishVH_object" where
  "object_of v = \<lparr>po_topic_name = Some (topic_name v), po_packet_id = pu_packet_id v, po_chain = pu_chain v\<rparr>"

definition value_of :: "PublishVH_object \<Rightarrow> PublishVH res" where
  "value_of v = rbind (deref (po_topic_name v))
     (\<lambda>nm. Inr \<lparr>topic_name = nm, pu_packet_id = po_packet_id v, pu_chain = po_chain v\<rparr>)"

text \<open>A move gives the value on whatever the target was, and any use of the topic name left faults.\<close>

lemma PublishVH_moves:
  "value_of (fst (PublishVH_move left (object_of v))) = Inr v"
  "value_of (fst (PublishVH_move_assign left w (object_of v))) = Inr v"
  "value_of (snd (PublishVH_move left (object_of v))) = Inl NullDeref"
  "value_of (snd (PublishVH_move_assign left w (object_of v))) = Inl NullDeref"
  by (simp_all add: PublishVH_move_def PublishVH_move_assign_def chain_move_def chain_move_assign_def
      value_of_def object_of_def)

lemma SubscribeVH_moves:
  "fst (SubscribeVH_move left v) = v" "fst (SubscribeVH_move_assign left w v) = v"
  by (simp_all add: SubscribeVH_move_def SubscribeVH_move_assign_def chain_move_def chain_move_assign_def)

section \<open>What is read back\<close>

text \<open>The headers whose reader takes everything the writer wrote.\<close>

fun reads_back :: "IVariableHeader \<Rightarrow> bool" where
  "reads_back (Connect_vh v) \<longleftrightarrow> True"
| "reads_back (Connact_vh v) \<longleftrightarrow> True"
| "reads_back (Disconnect_vh v) \<longleftrightarrow> True"
| "reads_back (Subscribe_vh v) \<longleftrightarrow> sub_packet_id v \<noteq> 0"
| "reads_back (Unsubscribe_vh v) \<longleftrightarrow> True"
| "reads_back (TypicalV3_vh v) \<longleftrightarrow> True"
| "reads_back v \<longleftrightarrow> False"

text \<open>An object of the same class, without properties left in it.\<close>

primrec vh_class :: "IVariableHeader \<Rightarrow> nat" where
  "vh_class (Connect_vh v) = 0"
| "vh_class (Connact_vh v) = 1"
| "vh_class (Disconnect_vh v) = 2"
| "vh_class (Publish_vh v) = 3"
| "vh_class (Subscribe_vh v) = 4"
| "vh_class (Suback_vh v) = 5"
| "vh_class (Puback_vh v) = 6"
| "vh_class (Unsubscribe_vh v) = 7"
| "vh_class (UnsubAck_vh v) = 8"
| "vh_class (TypicalV3_vh v) = 9"
| "vh_class (PublishV3_vh v) = 10"

definition clear_of :: "IVariableHeader \<Rightarrow> IVariableHeader \<Rightarrow> bool" where
  "clear_of v w \<longleftrightarrow> vh_class w = vh_class v \<and> vh_chain w = []"

lemma vh_ReadFromBuf_enc:
  assumes "vh_ok v" and "chain_readable (vh_chain v)" and "reads_back v" and "clear_of v w"
  shows "vh_ReadFromBuf w (xs @ vh_enc v @ ys) (length xs) off = Inr (v, off + of_nat (length (vh_enc v)))"
proof (cases v)
  case (Connect_vh c)
  then show ?thesis
    using assms ConnectVH_ReadFromBuf_enc [of c xs ys off] by (cases w) (simp_all add: clear_of_def vh_ok_def)
next
  case (Connact_vh c)
  have "chain_Create [] ((xs @ [conn_acknowledge_flags c, ca_reason_code c]) @ chain_enc (ca_chain c) @ ys)
      (length xs + 2) = Inr (mqtt_ok, of_nat (length (chain_enc (ca_chain c))), ca_chain c)"
    using assms Connact_vh by (intro chain_Create_readable) simp_all
  then show ?thesis
    using assms Connact_vh by (cases w) (simp_all add: clear_of_def ConnactVH_ReadFromBuf_def rd8_def nth_append)
next
  case (Disconnect_vh c)
  have "chain_Create [] ((xs @ [di_reason_code c]) @ chain_enc (di_chain c) @ ys) (length xs + 1) =
      Inr (mqtt_ok, of_nat (length (chain_enc (di_chain c))), di_chain c)"
    using assms Disconnect_vh by (intro chain_Create_readable) simp_all
  then show ?thesis
    using assms Disconnect_vh by (cases w) (simp_all add: clear_of_def DisconnectVH_ReadFromBuf_def rd8_def nth_append)
next
  case (Subscribe_vh c)
  have "chain_Create [] ((xs @ be16 (sub_packet_id c)) @ chain_enc (sub_chain c) @ ys) (length xs + 2) =
      Inr (mqtt_ok, of_nat (length (chain_enc (sub_chain c))), sub_chain c)"
    using assms Subscribe_vh by (intro chain_Create_readable) simp_all
  then show ?thesis
    using assms Subscribe_vh by (cases w) (simp_all add: clear_of_def SubscribeVH_ReadFromBuf_def mem_simps Clear_def id_enc_def)
next
  case (Unsubscribe_vh c)
  have "chain_Create [] ((xs @ be16 (us_packet_id c)) @ chain_enc (us_chain c) @ ys) (length xs + 2) =
      Inr (mqtt_ok, of_nat (length (chain_enc (us_chain c))), us_chain c)"
    using assms Unsubscribe_vh by (intro chain_Create_readable) simp_all
  then show ?thesis
    using assms Unsubscribe_vh by (cases w) (simp_all add: clear_of_def UnsubscribeVH_ReadFromBuf_def mem_simps Clear_def)
next
  case (TypicalV3_vh c)
  then show ?thesis
    using assms by (cases w) (simp_all add: clear_of_def TypicalV3VH_ReadFromBuf_def mem_simps)
qed (use assms in simp_all)

end
