(* ===== verification/Pool_Allocator.thy ===== *)
theory Pool_Allocator
  imports Prelude
begin

text \<open>
  The template \<open>PoolAllocator\<close> of \<open>headers/functions.h\<close>: objects are handed out one after another
  from pools of \<open>num\<close> elements, and a pool is freed when as many elements were given back as were
  handed out of it. An address is counted in elements; where \<open>operator new\<close> puts a pool is an
  argument. No code of the broker instantiates the template.
\<close>

section \<open>The allocator\<close>

text \<open>\<open>used_elements\<close> is an \<open>int32_t\<close>, compared with sizes in 64 bits.\<close>

record PoolData =
  pool :: nat
  used_elements :: "32 word"

record PoolAllocator =
  pools :: "PoolData list"
  pool_size :: "64 word"
  cur_pointer :: "nat option"

datatype alloc_error = Bad_alloc

definition new_PoolAllocator :: "64 word \<Rightarrow> PoolAllocator" where
  "new_PoolAllocator num = \<lparr>pools = [], pool_size = num, cur_pointer = None\<rparr>"

definition AllocateNewPool :: "nat \<Rightarrow> PoolAllocator \<Rightarrow> PoolAllocator" where
  "AllocateNewPool base a =
     a\<lparr>pools := pools a @ [\<lparr>pool = base, used_elements = 0\<rparr>], cur_pointer := Some base\<rparr>"

definition allocate ::
    "64 word \<Rightarrow> nat \<Rightarrow> 64 word \<Rightarrow> PoolAllocator \<Rightarrow> (alloc_error + nat option) \<times> PoolAllocator" where
  "allocate num base n a =
     (if n > pool_size a then (Inl Bad_alloc, a)
      else
        let a = (if pools a = [] \<or> scast (used_elements (last (pools a))) + n > num
                 then AllocateNewPool base a else a);
            pd = last (pools a);
            pd = pd\<lparr>used_elements := used_elements pd + ucast n\<rparr>;
            a = a\<lparr>pools := butlast (pools a) @ [pd]\<rparr>
        in (Inr (map_option (\<lambda>c. nat (int c + sint (used_elements pd) - int (unat n))) (cur_pointer a)), a))"

text \<open>The loop over the pools: it goes on behind a pool that is not empty yet.\<close>

fun dealloc_loop :: "64 word \<Rightarrow> nat \<Rightarrow> 64 word \<Rightarrow> PoolData list \<Rightarrow> PoolData list \<times> bool" where
  "dealloc_loop psize p n [] = ([], False)"
| "dealloc_loop psize p n (pd # pds) =
     (if pool pd \<le> p \<and> p < pool pd + unat psize then
        let pd = pd\<lparr>used_elements := used_elements pd - ucast n\<rparr>
        in if used_elements pd = 0 then (pds, True)
           else let (pds, erased) = dealloc_loop psize p n pds in (pd # pds, erased)
      else let (pds, erased) = dealloc_loop psize p n pds in (pd # pds, erased))"

definition deallocate :: "nat option \<Rightarrow> 64 word \<Rightarrow> PoolAllocator \<Rightarrow> PoolAllocator" where
  "deallocate p n a =
     (case p of
        None \<Rightarrow> a
      | Some p \<Rightarrow>
          if n = 0 then a
          else
            let (pds, erased) = dealloc_loop (pool_size a) p n (pools a);
                a = a\<lparr>pools := pds\<rparr>
            in if erased \<and> pds \<noteq> [] then a\<lparr>cur_pointer := Some (pool (last pds))\<rparr> else a)"

section \<open>Allocating only\<close>

text \<open>
  The ranges that were handed out are kept beside the allocator. As long as nothing is given back,
  they lie in the pools, apart from each other.
\<close>

definition apart :: "nat \<times> nat \<Rightarrow> nat \<times> nat \<Rightarrow> bool" where
  "apart r s \<longleftrightarrow> fst r + snd r \<le> fst s \<or> fst s + snd s \<le> fst r"

definition in_pool :: "64 word \<Rightarrow> PoolData \<Rightarrow> nat \<times> nat \<Rightarrow> bool" where
  "in_pool num pd r \<longleftrightarrow> pool pd \<le> fst r \<and> fst r + snd r \<le> pool pd + unat (used_elements pd) \<and>
     unat (used_elements pd) \<le> unat num"

definition pools_inv :: "64 word \<Rightarrow> (nat \<times> nat) list \<Rightarrow> PoolAllocator \<Rightarrow> bool" where
  "pools_inv num live a \<longleftrightarrow> pool_size a = num \<and>
     (\<forall>pd\<in>set (pools a). unat (used_elements pd) \<le> unat num) \<and>
     (\<forall>r\<in>set live. \<exists>pd\<in>set (pools a). in_pool num pd r) \<and>
     sorted_wrt (\<lambda>pd pd'. apart (pool pd, unat num) (pool pd', unat num)) (pools a) \<and>
     sorted_wrt apart live \<and> (pools a \<noteq> [] \<longrightarrow> cur_pointer a = Some (pool (last (pools a))))"

definition ranges_ok :: "64 word \<Rightarrow> (nat \<times> nat) list \<times> PoolAllocator \<Rightarrow> bool" where
  "ranges_ok num x \<longleftrightarrow> sorted_wrt apart (fst x) \<and>
     (\<forall>r\<in>set (fst x). \<exists>pd\<in>set (pools (snd x)). in_pool num pd r)"

lemma pools_inv_ranges: "pools_inv num live a \<Longrightarrow> ranges_ok num (live, a)"
  by (simp add: pools_inv_def ranges_ok_def)

text \<open>\<open>operator new\<close> puts a pool apart from those there are.\<close>

definition fresh_pool :: "64 word \<Rightarrow> nat \<Rightarrow> PoolAllocator \<Rightarrow> bool" where
  "fresh_pool num base a \<longleftrightarrow> (\<forall>pd\<in>set (pools a). apart (pool pd, unat num) (base, unat num))"

lemma pools_inv_new: "pools_inv num [] (new_PoolAllocator num)"
  by (simp add: pools_inv_def new_PoolAllocator_def)

lemma pools_inv_AllocateNewPool:
  "pools_inv num live a \<Longrightarrow> fresh_pool num base a \<Longrightarrow> pools_inv num live (AllocateNewPool base a)"
  by (auto simp: pools_inv_def AllocateNewPool_def fresh_pool_def sorted_wrt_append)

text \<open>The step inside the last pool.\<close>

lemma unat_scast_small:
  assumes "unat (u :: 32 word) < 2 ^ 31"
  shows "sint u = int (unat u)" "unat (scast u :: 64 word) = unat u"
proof -
  have "int (unat u) < int (2 ^ 31)" using assms by (simp only: of_nat_less_iff)
  then have "int (unat u) < 2 ^ 31" by (simp only: of_nat_power of_nat_numeral)
  moreover have "- (2 ^ 31) \<le> int (unat u)" by (rule order_trans [of _ 0]) simp_all
  ultimately have "signed_take_bit 31 (int (unat u)) = int (unat u)" by (intro signed_take_bit_int_eq_self)
  then show s: "sint u = int (unat u)" by (simp add: sint_uint)
  have "scast u = (of_nat (unat u) :: 64 word)" unfolding scast_eq s by simp
  then show "unat (scast u :: 64 word) = unat u" using assms by (simp add: unsigned_ucast_eq take_bit_nat_eq_self)
qed

lemma unat_add_small:
  assumes "unat (a :: 'a::len word) + unat b < 2 ^ LENGTH('a)"
  shows "unat (a + b) = unat a + unat b"
  using assms by (simp add: unat_add_lem)

text \<open>The two branches of \<open>allocate\<close> end in the same step in the last pool.\<close>

definition take_elements :: "64 word \<Rightarrow> PoolAllocator \<Rightarrow> (alloc_error + nat option) \<times> PoolAllocator" where
  "take_elements n a =
     (let pd = last (pools a);
          pd = pd\<lparr>used_elements := used_elements pd + ucast n\<rparr>;
          a = a\<lparr>pools := butlast (pools a) @ [pd]\<rparr>
      in (Inr (map_option (\<lambda>c. nat (int c + sint (used_elements pd) - int (unat n))) (cur_pointer a)), a))"

lemma take_elements_inv:
  assumes inv: "pools_inv num live a" and pds: "pools a = pds @ [pd]"
    and room: "unat (used_elements pd) + unat n \<le> unat num" and num: "unat num < 2 ^ 31"
  shows "\<exists>a'. take_elements n a = (Inr (Some (pool pd + unat (used_elements pd))), a') \<and>
    pools_inv num ((pool pd + unat (used_elements pd), unat n) # live) a' \<and>
    map pool (pools a') = map pool (pools a)"
proof -
  let ?u = "used_elements pd" and ?r = "(pool pd + unat (used_elements pd), unat n)"
  have n: "unat (ucast n :: 32 word) = unat n" using room num by (simp add: unsigned_ucast_eq take_bit_nat_eq_self)
  then have used: "unat (?u + ucast n) = unat ?u + unat n"
    using unat_add_small [of ?u "ucast n"] room num by simp
  then have "sint (?u + ucast n) = int (unat ?u + unat n)"
    using unat_scast_small(1) [of "?u + ucast n"] room num by simp
  moreover have "nat (int i + int (j + k) - int k) = i + j" for i j k :: nat by linarith
  ultimately have addr: "nat (int (pool pd) + sint (?u + ucast n) - int (unat n)) = pool pd + unat ?u"
    by (simp only:)
  define pd' where "pd' = pd\<lparr>used_elements := ?u + ucast n\<rparr>"
  define a' where "a' = a\<lparr>pools := pds @ [pd']\<rparr>"
  have cur: "cur_pointer a = Some (pool pd)" using inv pds by (simp add: pools_inv_def)
  have "take_elements n a = (Inr (Some (pool pd + unat ?u)), a')"
    using addr by (simp add: take_elements_def pds Let_def cur a'_def pd'_def)
  moreover have "pools_inv num (?r # live) a'"
  proof -
    have small: "unat (used_elements pd') = unat ?u + unat n" "pool pd' = pool pd"
      using used by (simp_all add: pd'_def)
    have old: "\<forall>r\<in>set live. \<exists>pd\<in>set (pools a). in_pool num pd r" using inv by (simp add: pools_inv_def)
    have far: "\<forall>q\<in>set pds. apart (pool q, unat num) (pool pd, unat num)"
      using inv pds by (auto simp: pools_inv_def sorted_wrt_append)
    have "apart ?r r" if r: "r \<in> set live" for r
    proof -
      obtain q where q: "q \<in> set (pools a)" "in_pool num q r" using old r by blast
      show ?thesis
      proof (cases "q \<in> set pds")
        case True
        then have "apart (pool q, unat num) (pool pd, unat num)" using far by blast
        then show ?thesis using q(2) room by (auto simp: apart_def in_pool_def)
      next
        case False
        then have "q = pd" using q(1) pds by simp
        then show ?thesis using q(2) by (simp add: apart_def in_pool_def)
      qed
    qed
    moreover have "\<forall>r\<in>set (?r # live). \<exists>q\<in>set (pds @ [pd']). in_pool num q r"
      using old pds small room by (force simp: in_pool_def)
    moreover have "\<forall>q\<in>set (pds @ [pd']). unat (used_elements q) \<le> unat num"
      using inv pds small room by (auto simp: pools_inv_def)
    moreover have "sorted_wrt (\<lambda>pd pd'. apart (pool pd, unat num) (pool pd', unat num)) (pds @ [pd'])"
      using inv pds small by (simp add: pools_inv_def sorted_wrt_append)
    ultimately show ?thesis using inv pds small by (simp add: pools_inv_def a'_def)
  qed
  moreover have "map pool (pools a') = map pool (pools a)" by (simp add: a'_def pds pd'_def)
  ultimately show ?thesis by blast
qed

text \<open>A request that fits a pool is served from memory no other request was given.\<close>

lemma allocate_inv:
  assumes inv: "pools_inv num live a" and fresh: "fresh_pool num base a"
    and n: "unat n \<le> unat num" and num: "unat num < 2 ^ 31"
  shows "\<exists>p a'. allocate num base n a = (Inr (Some p), a') \<and> pools_inv num ((p, unat n) # live) a' \<and>
    set (map pool (pools a')) \<subseteq> insert base (set (map pool (pools a)))"
proof -
  have size: "pool_size a = num" "\<not> n > pool_size a"
    using inv n by (simp_all add: pools_inv_def word_less_nat_alt)
  define full where "full \<longleftrightarrow> pools a = [] \<or> scast (used_elements (last (pools a))) + n > num"
  define a1 where "a1 = (if full then AllocateNewPool base a else a)"
  have run: "allocate num base n a = take_elements n a1"
    using size by (simp add: allocate_def take_elements_def a1_def full_def Let_def)
  have inv1: "pools_inv num live a1"
    using pools_inv_AllocateNewPool [OF inv fresh] inv by (simp add: a1_def)
  have "pools a1 \<noteq> []" by (auto simp: a1_def full_def AllocateNewPool_def)
  then obtain pds pd where pds: "pools a1 = pds @ [pd]" by (cases "pools a1" rule: rev_cases) auto
  have "unat (used_elements pd) + unat n \<le> unat num"
  proof (cases full)
    case True
    then have "used_elements pd = 0" using pds by (auto simp: a1_def AllocateNewPool_def)
    then show ?thesis using n by simp
  next
    case False
    then have last: "last (pools a) = pd" "pd \<in> set (pools a)" using pds by (simp_all add: a1_def)
    then have small: "unat (used_elements pd) \<le> unat num" using inv by (auto simp: pools_inv_def)
    have "unat (scast (used_elements pd) :: 64 word) = unat (used_elements pd)"
      using small num by (intro unat_scast_small) simp
    then have "unat (scast (used_elements pd) + n) = unat (used_elements pd) + unat n"
      using unat_add_small [of "scast (used_elements pd)" n] small n num by simp
    then show ?thesis using False last by (simp add: full_def word_le_nat_alt not_less)
  qed
  then obtain p a' where "take_elements n a1 = (Inr (Some p), a')" "pools_inv num ((p, unat n) # live) a'"
      "map pool (pools a') = map pool (pools a1)"
    using take_elements_inv [OF inv1 pds _ num] by blast
  moreover have "set (map pool (pools a1)) \<subseteq> insert base (set (map pool (pools a)))"
    by (auto simp: a1_def AllocateNewPool_def)
  ultimately show ?thesis unfolding run by (intro exI [of _ p] exI [of _ a']) simp
qed

text \<open>A whole sequence of requests, each with the place of a pool it may need.\<close>

fun allocate_all ::
    "64 word \<Rightarrow> (nat \<times> 64 word) list \<Rightarrow> (nat \<times> nat) list \<Rightarrow> PoolAllocator \<Rightarrow> (nat \<times> nat) list \<times> PoolAllocator" where
  "allocate_all num [] live a = (live, a)"
| "allocate_all num ((base, n) # rs) live a =
     (case allocate num base n a of
        (Inr (Some p), a) \<Rightarrow> allocate_all num rs ((p, unat n) # live) a
      | (_, a) \<Rightarrow> allocate_all num rs live a)"

lemma allocate_all_inv:
  assumes "pools_inv num live a" and "unat num < 2 ^ 31"
    and "\<forall>(base, n)\<in>set rs. unat n \<le> unat num \<and> fresh_pool num base a"
    and "sorted_wrt (\<lambda>r s. apart (fst r, unat num) (fst s, unat num)) rs"
  shows "pools_inv num (fst (allocate_all num rs live a)) (snd (allocate_all num rs live a))"
  using assms
proof (induction rs arbitrary: live a)
  case (Cons r rs)
  obtain base n where r: "r = (base, n)" by (cases r)
  have n: "unat n \<le> unat num" "fresh_pool num base a" using Cons.prems(3) by (simp_all add: r)
  obtain p a' where run: "allocate num base n a = (Inr (Some p), a')" and inv: "pools_inv num ((p, unat n) # live) a'"
    and sub: "set (map pool (pools a')) \<subseteq> insert base (set (map pool (pools a)))"
    using allocate_inv [OF Cons.prems(1) n(2,1) Cons.prems(2)] by blast
  have "fresh_pool num b a'" if "(b, m) \<in> set rs" for b m
  proof -
    have "apart (base, unat num) (b, unat num)" using Cons.prems(4) that by (auto simp: r)
    moreover have "fresh_pool num b a" using Cons.prems(3) that by auto
    ultimately show ?thesis using sub by (fastforce simp: fresh_pool_def)
  qed
  then show ?case
    using Cons.IH [OF inv Cons.prems(2)] Cons.prems(3,4) by (fastforce simp: r run)
qed simp

section \<open>Giving back\<close>

text \<open>
  A pool counts its elements and does not know which of them are free. After the first of two
  allocations is given back, the next one gets the memory of the second, which is still in use.
\<close>

lemma allocate_overlap:
  fixes base :: nat
  defines "a1 \<equiv> snd (allocate 4 base 1 (new_PoolAllocator 4))"
  defines "a2 \<equiv> snd (allocate 4 0 1 a1)"
  shows "fst (allocate 4 base 1 (new_PoolAllocator 4)) = Inr (Some base)"
    and "fst (allocate 4 0 1 a1) = Inr (Some (base + 1))"
    and "fst (allocate 4 0 1 (deallocate (Some base) 1 a2)) = Inr (Some (base + 1))"
  by (simp_all add: a1_def a2_def allocate_def new_PoolAllocator_def AllocateNewPool_def deallocate_def Let_def)

end
