(* ===== verification/Spec2Isabelle.thy ===== *)
theory Spec2Isabelle
  imports Serving Entity_Objects Startup Passes Descriptors Machine_Threads Examples Exchanges Header_Objects Pool_Allocator
begin

text \<open>
  An MQTT 5 broker in C++ (\<open>src/main.cpp\<close>, \<open>src/src/\<close>, \<open>src/headers/\<close>).

  The program. \<open>main\<close> reads a configuration, opens a listening socket and a control socket, accepts
  connections and starts the threads of the broker with the first client. The server thread polls
  the descriptors of the clients and the control socket, reads packets, dispatches them to handlers,
  closes descriptors and watches the keep alive times. The handlers parse the packets, change the
  client objects and the topic storage, and put answers and messages into a queue of write commands,
  which two sender threads execute. A QoS thread is meant to send unacknowledged messages again.

  The theories, from the bottom up.
  \<^item> \<open>Prelude\<close>: machine words, faults as values of a sum type (\<open>fault + 'a\<close>: a read or write outside a
    block, a null dereference, a failed assertion, a loop that does not end), reads and writes of
    blocks of bytes. \<open>Containers\<close>: \<open>std::map\<close>, \<open>std::set\<close> and their unordered kin as association
    lists, with the contract \<open>keyed_store\<close> they all keep. \<open>Serializer\<close>: the contract of the
    \<open>Serialize\<close> methods, which write an encoding and move an offset.
  \<^item> \<open>Protocol\<close> (\<open>headers/mqtt_protocol.h\<close>): the constants. \<open>Var_Int\<close>, \<open>Fixed_Header\<close>
    (\<open>mqtt_fixed_header.cpp\<close>), \<open>Functions\<close> (\<open>functions.cpp\<close>): variable byte integers, the first bytes of
    a packet, loops over sockets, tokens.
  \<^item> \<open>Entities\<close>, \<open>Entity_Objects\<close>, \<open>Properties\<close>, \<open>Property_Chain\<close> (\<open>mqtt_protocol.cpp\<close>): the value
    classes as values; the same classes as objects that share or give away pointers; the properties
    of a packet and their chain. \<open>Variable_Headers\<close> (\<open>mqtt_variable_header.cpp\<close>), \<open>Packets\<close>: the
    headers and the three ways to build a packet in a block of computed size. \<open>Header_Objects\<close>: the
    virtual readers, the copies and the moves of headers.
  \<^item> \<open>Topics\<close> (\<open>mqtt_topic.cpp\<close>, \<open>topic_storage.cpp\<close>), \<open>Clients\<close> (\<open>client.cpp\<close>),
    \<open>Command_Queue\<close> (\<open>command.cpp\<close> and the sender threads, whose own steps are \<open>work\<close>), \<open>Broker_State\<close> (\<open>broker.cpp\<close>): the
    state of the broker with its operations and the delivery of a topic.
  \<^item> \<open>Handlers\<close> (\<open>handlers.cpp\<close>), \<open>Packet_Handlers\<close> (\<open>mqtt_packet_handler.cpp\<close>,
    \<open>mqtt_error_handler.cpp\<close>): the parsers of packet bodies, the handlers and their dispatch.
    \<open>Server\<close> (\<open>broker.cpp\<close>, \<open>main.cpp\<close>): the threads, and the program as a step relation over
    them. \<open>Startup\<close> (\<open>functions.cpp\<close>, \<open>broker.cpp\<close>, \<open>main.cpp\<close>): the configuration and the sockets.
  \<^item> \<open>Invariance\<close>: every operation and every step keeps the invariant of the broker. \<open>Sessions\<close>,
    \<open>Subscribing\<close>, \<open>Connecting\<close>, \<open>Serving\<close>: what the handlers and a pass of the server thread do
    to a broker, as equations with its state afterwards. \<open>Passes\<close>: hung-up descriptors, quiet passes
    and a poll set that is too short. \<open>Interleaving\<close>: the program at the grain of the loop bodies of
    its threads, its invariant, and that \<open>Server\<close> is the case without interruptions.
    \<open>Descriptors\<close>: the descriptors the server thread looks up. \<open>Exchanges\<close>: sequences of packets, a
    QoS 2 exchange with its repetitions, a subscription and a publication in both orders.
  \<^item> \<open>Machine\<close>: what the broker promises, as an abstract publish/subscribe machine with sessions,
    retained and kept messages and a queue of answers, which leaves open the order of deliveries and
    which matching subscription decides the quality of service; it also says when the broker can
    follow. \<open>Simulation\<close> relates its states to those of the broker, \<open>Machine_Packets\<close> simulates the
    handler of each packet, \<open>Machine_Events\<close> single entries of the poll set and events: an accepted
    connection, an arriving packet, a hang-up or a quiet descriptor, taken alone, where a descriptor
    that is given up is closed at once, and whole passes of the server thread that give none up.
    \<open>Machine_Threads\<close> is about the program: what is observed of the steps of \<open>Interleaving\<close>, with the
    closings at the end of the pass, is simulated by moves of the machine, and the steps that are
    not observed are named. \<open>Examples\<close>: the brokers, packets and runs of the witnesses.
  \<^item> \<open>Pool_Allocator\<close> (\<open>headers/functions.h\<close>): an allocator the broker declares and does not use.

  How code and model correspond. A definition has the name of the function it translates, prefixed by
  its class where several classes share the name; a method takes the object and returns it changed. A
  reference parameter that is written becomes a component of the result. A pointer into a buffer is a
  block with a position, and every access is checked. Shared and weak pointers to clients are the
  number of the object. Integers are words of the width of the source, so that the sizes kept in
  \<open>uint8_t\<close> and \<open>uint16_t\<close> wrap around as they do there. What the kernel does is an argument: the results
  of \<open>write\<close>, \<open>read\<close>, \<open>select\<close>, \<open>poll\<close>, \<open>bind\<close> and \<open>rand\<close> are functions over which the theorems quantify.

  Bounds and fuel. The variable byte integers are decoded with a fuel of five rounds, which is
  enough because the fifth one ends with an error (\<open>DeCodeVarInt_total\<close>). The loops over a property
  chain, over the filters of a packet and around \<open>bind\<close> are partial functions whose \<open>None\<close> is a loop that
  does not end; that they end, and when they do not, is proved. The bodies of packets are shorter
  than \<open>2 ^ 28\<close> bytes, the largest length a packet can announce.

  What the properties show. In every interleaving of its threads the program implements the abstract
  machine as long as its conditions hold, and only the named faults are left. The state stays
  consistent whatever the threads do, from the broker \<open>main\<close> starts with; the
  descriptors the server thread looks up belong to clients unless an entry closed one of them; each
  handler does what its equation says; encodings are read back; parsers stay inside their buffers
  where they return; the search among the retained topics and the filters of a client do what their
  levels say; commands are executed once, and a notification gets the queue emptied. Some show
  faults of the program for inputs a client can send: they are stated as what happens, with the
  condition.

  Not modelled. Locks: a pass of a thread over its loop is one step in \<open>Server\<close>, the
  turn of an entry or the closing of a descriptor in \<open>Interleaving\<close>, so that races
  inside one of these are not seen. Log output, which only calls the logging library; reads that are
  made only for a message are kept where they can fault. The text of log messages and the type names
  printed for debugging. The logging, formatting and configuration libraries in
  \<open>headers/spdlog\<close> and \<open>headers/libconfig\<close>, which are third-party code.
  The memory the allocator hands out holds arbitrary bytes where that can be seen, and zeros in the
  packets, which are filled. With no client the server thread waits on the queue of a condition
  variable; the model lets its pass return. The order of the unordered containers is left to the
  library in C++; the model adds at the front, and an equation that lists subscribers or filters
  gives them in that order.
\<close>

section \<open>Properties\<close>

text \<open>C1: the program does what the abstract machine does. From the broker \<open>main\<close> starts with, let the
  main thread, the server thread, the QoS thread and the sender threads take turns in any order, the
  server thread interrupted between any two entries of its poll set and any two closings, and let no
  step fault. What is observed of that run are accepted connections, the packets of every kind that
  arrive, hang-ups and quiet descriptors as the server thread comes to their entries, the closing of
  the descriptors it gave up, and the commands taken out of the queue. If the machine, whatever it
  chooses, stays where the broker can follow (no identifier wraps around, no filter makes a matching
  loop overrun, clients connect once with their own identifier, a new descriptor is not in use), it
  makes exactly these moves: the broker shows its sessions with their subscriptions, identifiers and
  wills, the retained and the kept messages, and the queued packets, which are its answers in its
  order; the descriptors given up and not closed yet are the ones it has to drop. That the entries
  are those of open connections is not assumed.\<close>

theorem program_implements_machine:
  assumes "main_start cfg sock bound listening ctl = Some b" and "observed_run (start_threads b) xs s"
    and "offered_run xs (new_machine, [])" and "Does (Opens (control_sock b)) \<notin> set xs"
  shows "\<exists>a. run xs (new_machine, []) (a, given_up (pc s)) \<and> shown a (broker s)"
  using main_run_simulated [OF assms] by (auto simp: threads_show_def)

theorem program_implements_machine_witness:
  "\<exists>s a. observed_run (start_threads booted) example_moves s \<and>
    run example_moves (new_machine, []) (a, given_up (pc s)) \<and> shown a (broker s)"
proof -
  obtain s where "observed_run (start_threads booted) example_moves s" using example_run by blast
  moreover from program_implements_machine [OF booted_start this example_offered]
  have "\<exists>a. run example_moves (new_machine, []) (a, given_up (pc s)) \<and> shown a (broker s)"
    by (simp add: example_moves_def)
  ultimately show ?thesis by blast
qed



text \<open>A machine for the broker of the other witnesses.\<close>

definition demo_machine :: machine where
  "demo_machine =
     \<lparr>m_sessions = [5 \<mapsto> \<lparr>s_id = id_1, s_greeted = True, s_subs = Map.empty, s_next = 1, s_will = None\<rparr>,
        6 \<mapsto> \<lparr>s_id = id_2, s_greeted = True, s_subs = [name_t \<mapsto> 1, filter_a \<mapsto> 0], s_next = 1, s_will = None\<rparr>],
      m_retained = [name_t \<mapsto> [1, 2]], m_kept = (\<lambda>_. [])(id_1 := [(7, name_t, [3])]), m_out = []\<rparr>"

lemma demo_shown: "shown demo_machine demo"
proof -
  have "name_t \<noteq> filter_a" by (simp add: name_t_def filter_a_def)
  then have "sessions_shown demo_machine demo"
    by (auto simp: sessions_shown_def demo_machine_def fds_of_def session_def shows_session_def listed_def
        will_of_def isWillFlag_def client_1_def client_2_def new_Client_def)
  moreover have "storage_shown demo_machine demo"
    by (auto simp: storage_shown_def demo_machine_def retained_t_def kept_t_def kept_of_def held_def fun_eq_iff
        sendable_def example_sizes)
  ultimately show ?thesis using demo_inv by (simp add: shown_def) (simp add: demo_machine_def)
qed

text \<open>C3: a pass of the server thread. When a pass that polled the descriptors, with nothing on the
  control socket, returns and closed no connection, its entries are events, and the broker
  afterwards shows a state the abstract machine reaches by their acts, in the order of the poll set.\<close>

theorem pass_implements_machine:
  assumes "wait_step e v b = Inr (v', b')" and "shown a b" and "\<not> poll_failed e"
    and "polled e (control_sock b) = NoEvents" and "closed b' = closed b"
    and "list_all2 appears (pass_events e (control_sock b) (polled_set e v b)) xs" and "accepted_acts xs a"
  shows "\<exists>a'. steps xs a a' \<and> shown a' b'"
  using assms by (rule pass_follows)

text \<open>The first client publishes, the second one is quiet.\<close>

definition one_ready :: env where
  "one_ready = (delivering 0x32 (publish_body (new_PublishVH name_t 9 []) [1, 2]) 0)
     \<lparr>polled := (\<lambda>fd. if fd = 5 then Pollin else NoEvents)\<rparr>"

definition published_demo :: Broker where
  "published_demo = published (header 0x32 (publish_body (new_PublishVH name_t 9 []) [1, 2]))
     (new_PublishVH name_t 9 []) [1, 2] 5 0 (upd_obj 0 (SetPacketLastTime 0) demo)"

lemma example_body:
  "length (publish_body (new_PublishVH name_t 9 []) [1, 2]) = 8"
  by (simp add: publish_body_def new_PublishVH_def chain_enc_Nil length_id_enc example_sizes)

lemma one_ready_arrives: "arrives one_ready 5 0x32 (publish_body (new_PublishVH name_t 9 []) [1, 2])"
proof -
  have "arrives (delivering 0x32 (publish_body (new_PublishVH name_t 9 []) [1, 2]) 0) 5 0x32
      (publish_body (new_PublishVH name_t 9 []) [1, 2])"
    using example_body by (intro delivering_arrives) auto
  then show ?thesis by (simp add: arrives_def one_ready_def)
qed

lemma one_ready_pass:
  "wait_step one_ready [(5, NoEvents), (6, NoEvents), (3, NoEvents)] demo =
    Inr ([(5, NoEvents), (6, NoEvents), (3, NoEvents)], published_demo)"
  "closed published_demo = closed demo"
proof -
  have hdr: "header 0x32 (publish_body (new_PublishVH name_t 9 []) [1, 2]) = \<lparr>first = 0x32, remaining_len = 8\<rparr>"
    by (simp add: header_def example_body)
  have "serve_data one_ready 5 demo = Inr (False, published (header 0x32 (publish_body (new_PublishVH name_t 9 []) [1, 2]))
      (new_PublishVH name_t 9 []) [1, 2] 5 0 (upd_obj 0 (SetPacketLastTime (cur_time one_ready)) demo))"
  proof (rule Publish_served [OF demo_inv demo_mem(1) one_ready_arrives])
    show "publish_packet_ok (header 0x32 (publish_body (new_PublishVH name_t 9 []) [1, 2]))
        (new_PublishVH name_t 9 []) [1, 2] (publish_body (new_PublishVH name_t 9 []) [1, 2])"
      unfolding hdr by (rule example_publish)
    show "all_ready (topic_name (new_PublishVH name_t 9 [])) demo" using demo_ready(1) by (simp add: new_PublishVH_def)
  qed simp
  then have served: "serve_data one_ready 5 demo = Inr (False, published_demo)"
    by (simp add: published_demo_def one_ready_def delivering_def)
  have inv: "broker_inv published_demo" using serve_data_evolves [OF served demo_inv] by (simp add: evolves_def)
  have b: "clients published_demo = clients demo" "control_sock published_demo = 3" "closed published_demo = closed demo"
    "time_last_packet (objects published_demo 1) = 0" "alive (objects published_demo 1) = 0"
    by (simp_all add: published_demo_def hdr published_def store_if_def isRETAIN_def QoS_def Let_def delivered_def
        bump_def upd_obj_def GenPacketID_def client_2_def new_Client_def)
  have "serve_quiet one_ready 6 published_demo = Inr (False, published_demo)"
  proof (rule serve_quiet_in_time [OF inv])
    show "(6, Some 1) \<in> set (clients published_demo)" unfolding b(1) by (rule demo_mem(2))
    show "cur_time one_ready < time_last_packet (objects published_demo 1) +
        int (unat (alive (objects published_demo 1))) + 5"
      unfolding b(4,5) by (simp add: one_ready_def delivering_def)
  qed
  then show "wait_step one_ready [(5, NoEvents), (6, NoEvents), (3, NoEvents)] demo =
      Inr ([(5, NoEvents), (6, NoEvents), (3, NoEvents)], published_demo)"
    using served b by (simp add: wait_step_def GetClientCount_def one_ready_def delivering_def Let_def)
  show "closed published_demo = closed demo" by (rule b)
qed

theorem pass_implements_machine_witness:
  "\<exists>a'. steps [Gets 5 (Publish 1 False 9 name_t [1, 2]), Idles 6] demo_machine a' \<and> shown a' published_demo"
proof (rule pass_implements_machine [OF one_ready_pass(1) demo_shown _ _ one_ready_pass(2)])
  show "list_all2 appears (pass_events one_ready (control_sock demo)
      (polled_set one_ready [(5, NoEvents), (6, NoEvents), (3, NoEvents)] demo))
      [Gets 5 (Publish 1 False 9 name_t [1, 2]), Idles 6]"
  proof -
    have "pass_events one_ready (control_sock demo) (polled_set one_ready [(5, NoEvents), (6, NoEvents), (3, NoEvents)] demo) =
        [Data one_ready 5, Quiet one_ready 6]"
      by (simp add: pass_events_def polled_set_def GetClientCount_def one_ready_def)
    moreover have "carries 0x32 (publish_body (new_PublishVH name_t 9 []) [1, 2]) (Publish 1 False 9 name_t [1, 2])"
      by (rule example_carries)
    ultimately show ?thesis using one_ready_arrives by (auto simp del: carries.simps)
  qed
  have "accepted_act (Gets 5 (Publish 1 False 9 name_t [1, 2])) demo_machine"
    using example_safe by (auto simp: demo_machine_def deliverable_def ran_def split: if_splits)
  moreover have "accepted_act (Idles 6) a'" if "step (Gets 5 (Publish 1 False 9 name_t [1, 2])) demo_machine a'" for a'
  proof -
    have "deliver name_t [1, 2] (say 5 (ack PUBACK 9) demo_machine) a'" using that by simp
    note kept = deliver_keeps(3,4) [OF this]
    have "6 \<in> dom (m_sessions a')" unfolding kept(1) by (simp add: say_def demo_machine_def)
    moreover have "s_will (session 6 a') = None"
      using kept(2) [of 6] by (auto simp: session_def say_def demo_machine_def)
    ultimately show ?thesis by (simp add: will_accepted_def)
  qed
  ultimately show "accepted_acts [Gets 5 (Publish 1 False 9 name_t [1, 2]), Idles 6] demo_machine"
    by (simp del: accepted_act.simps step.simps)
qed (simp_all add: one_ready_def delivering_def)

text \<open>C4: who gets what. Whatever an event makes the broker queue, it is an answer to the client of the
  event, or a message to a client that has a filter matching the name of the message; nothing that
  was queued before changes.\<close>

theorem answers_solicited:
  assumes "shown a b" and "appears v x" and "accepted_act x a"
  shows "\<exists>b' a' new. handle v b = Inr b' \<and> shown a' b' \<and> commands b' = commands b @ map answer_cmd new \<and>
    list_all (solicited x a a') new"
  using assms by (rule event_answers)

theorem answers_solicited_witness:
  "\<exists>b' a' new. handle (Data (delivering 0x32 (publish_body (new_PublishVH name_t 9 []) [1, 2]) 0) 5) demo = Inr b' \<and>
    shown a' b' \<and> commands b' = commands demo @ map answer_cmd new \<and>
    list_all (solicited (Gets 5 (Publish 1 False 9 name_t [1, 2])) demo_machine a') new"
proof (rule answers_solicited [OF demo_shown])
  show "appears (Data (delivering 0x32 (publish_body (new_PublishVH name_t 9 []) [1, 2]) 0) 5)
      (Gets 5 (Publish 1 False 9 name_t [1, 2]))"
    by (rule example_publish_appears)
  show "accepted_act (Gets 5 (Publish 1 False 9 name_t [1, 2])) demo_machine"
    using example_safe by (auto simp: demo_machine_def deliverable_def ran_def split: if_splits)
qed

text \<open>C5: whatever the main thread, the server thread, the QoS thread and the sender threads do in
  turns, where the server thread can be interrupted between any two entries of its poll set, and
  whatever the kernel and the clients send, the state of the broker stays consistent: descriptors
  are unique, every client has an object of its own, a subscribed client is a connected one, the
  retained topics are ordered by name, the messages of a client awaiting PUBREL are stored together,
  and no message is ever postponed. A server thread runs exactly when the broker is not in its first
  state.\<close>

theorem reachable_broker_consistent:
  assumes "main_start cfg sock bound listening ctl = Some b" and "fstep\<^sup>*\<^sup>* (start_threads b) s"
  shows "broker_inv (broker s) \<and> (serving s \<longleftrightarrow> state (broker s) \<noteq> init)"
  using threads_reachable_inv [OF assms(2)] main_start_inv [OF assms(1)] by (simp add: threads_inv_def)

theorem reachable_broker_consistent_witness:
  "broker_inv (broker mid_pass) \<and> (serving mid_pass \<longleftrightarrow> state (broker mid_pass) \<noteq> init)"
  by (rule reachable_broker_consistent [OF booted_start no_takeover_fsteps [OF mid_pass_reached]])

text \<open>C6: the descriptors the server thread looks up in the map of clients. As long as no entry of a
  pass makes the broker close the connection of another client (which a CONNECT with the identifier
  of that client does), every entry of the poll set still to be handled is the control socket or the
  descriptor of a client, also when the main thread accepts connections during the pass, and the
  descriptors to be closed are distinct and all belong to clients.\<close>

theorem polled_descriptors_connected:
  assumes "main_start cfg sock bound listening ctl = Some b" and "no_takeover\<^sup>*\<^sup>* (start_threads b) s"
  shows "lookups_ok (broker s) (vec_fds s) (pc s)"
  using no_takeover_lookups [OF assms(2)] main_start_inv [OF assms(1)] by simp

theorem polled_descriptors_connected_witness:
  "lookups_ok (broker mid_pass) (vec_fds mid_pass) (pc mid_pass)"
  by (rule polled_descriptors_connected [OF booted_start mid_pass_reached])

text \<open>C7: a PUBLISH through a pass of the server thread. When it arrives on the descriptor of a client
  it is read, dispatched to its handler and handled, and the descriptor is kept. QoS 0 queues the
  message for every subscriber whose filters match, at the QoS of its subscription; QoS 1 queues the
  PUBACK first; QoS 2 queues the PUBREC and keeps the message under its identifier. A retained
  message replaces the stored one.\<close>

theorem served_publish:
  assumes "broker_inv b" and "(fd, Some r) \<in> set (clients b)" and "arrives e fd t body"
    and "drop_bit 4 t = 3" and "publish_packet_ok (header t body) v m body" and "all_ready (topic_name v) b"
  shows "serve_data e fd b = Inr (False,
    published (header t body) v m fd r (upd_obj r (SetPacketLastTime (cur_time e)) b))"
  using assms by (rule Publish_served)

theorem served_publish_witness:
  "serve_data (delivering 0x32 (publish_body (new_PublishVH name_t 9 []) [1, 2]) 100) 5 demo =
    Inr (False, published (header 0x32 (publish_body (new_PublishVH name_t 9 []) [1, 2]))
      (new_PublishVH name_t 9 []) [1, 2] 5 0 (upd_obj 0 (SetPacketLastTime 100) demo))"
proof -
  let ?body = "publish_body (new_PublishVH name_t 9 []) [1, 2]"
  have len: "length ?body = 8"
    by (simp add: publish_body_def new_PublishVH_def chain_enc_Nil length_id_enc example_sizes)
  then have hdr: "header 0x32 ?body = \<lparr>first = 0x32, remaining_len = 8\<rparr>" by (simp add: header_def)
  have "arrives (delivering 0x32 ?body 100) 5 0x32 ?body"
    by (rule delivering_arrives) (use len in auto)
  then have "serve_data (delivering 0x32 ?body 100) 5 demo = Inr (False, published (header 0x32 ?body)
      (new_PublishVH name_t 9 []) [1, 2] 5 0
      (upd_obj 0 (SetPacketLastTime (cur_time (delivering 0x32 ?body 100))) demo))"
  proof (rule served_publish [OF demo_inv demo_mem(1)])
    show "publish_packet_ok (header 0x32 ?body) (new_PublishVH name_t 9 []) [1, 2] ?body"
      unfolding hdr by (rule example_publish)
    show "all_ready (topic_name (new_PublishVH name_t 9 [])) demo"
      by (simp add: new_PublishVH_def demo_ready)
  qed simp
  moreover have "cur_time (delivering t body 100) = 100" for t body by (simp add: delivering_def)
  ultimately show ?thesis by (simp only:)
qed

text \<open>C8: PUBREL completes a QoS 2 exchange. The PUBCOMP is queued; a message kept for this client
  under the identifier is delivered to the subscribers and forgotten; without one nothing else
  happens, so that a repeated PUBREL delivers nothing.\<close>

theorem pubrel_outcome:
  assumes "broker_inv b" and "(fd, Some r) \<in> set (clients b)"
    and "\<And>t. find (\<lambda>t. t_id t = i) (held (client_id (objects b r)) b) = Some t \<Longrightarrow>
      all_ready (t_name t) b \<and> (\<exists>m. t_data t = Some m \<and> length m < 2 ^ 16) \<and> length (t_name t) < 2 ^ 16"
  shows "MqttPubRelPacketHandler fh (be16 i @ ys) fd b = Inr (mqtt_ok, released i fd r b)"
  using assms by (rule PubRel_released)

theorem pubrel_outcome_witness:
  "MqttPubRelPacketHandler \<lparr>first = 0x62, remaining_len = 2\<rparr> (be16 7 @ []) 5 demo =
    Inr (mqtt_ok, released 7 5 0 demo)"
  by (rule pubrel_outcome [OF demo_inv demo_mem(1)])
    (auto simp: held_def client_1_def kept_t_def demo_ready example_sizes)

text \<open>C9: delivery. Every subscriber one of whose filters matches the topic gets exactly one packet,
  in the order of the container, at the QoS of the first filter that matches; above QoS 0 with the
  identifier of its generator, which moves on. The others get nothing, and nothing else of the
  state changes.\<close>

theorem notify_clients_delivers:
  assumes "broker_inv b" and "all_ready (t_name topic) b" and "t_data topic = Some m"
    and "length (t_name topic) < 2 ^ 16" and "length m < 2 ^ 16"
  shows "\<exists>topic'. NotifyClients topic b = Inr (topic', b\<lparr>commands := commands b @
      List.map_filter (delivery (objects b) (t_name topic) m) (subscribed_clients b),
      objects := bump (t_name topic) (subscribed_clients b) (objects b)\<rparr>)"
  using assms NotifyClients_exact [of b topic m] by (simp add: all_ready_def)

theorem notify_clients_delivers_witness:
  "\<exists>topic'. NotifyClients kept_t demo = Inr (topic', demo\<lparr>commands := commands demo @
      List.map_filter (delivery (objects demo) (t_name kept_t) [3]) (subscribed_clients demo),
      objects := bump (t_name kept_t) (subscribed_clients demo) (objects demo)\<rparr>)"
  by (rule notify_clients_delivers [OF demo_inv]) (simp_all add: kept_t_def demo_ready example_sizes)

text \<open>C10: SUBSCRIBE. The subscriptions are entered at the client (the options of one that exists
  stay), the SUBACK is queued with reason code QoS 2 for every filter whatever was asked for, the
  retained messages that match follow, and the client becomes a subscribed one.\<close>

theorem subscribe_outcome:
  assumes "broker_inv b" and "(fd, Some r) \<in> set (clients b)" and "subscribe_packet_ok fh v ts buf"
    and "\<forall>(nm, opts)\<in>set ts. GetMatchedTopics nm b = Inr (ms nm) \<and> (\<forall>t\<in>set (ms nm). sendable t)"
    and "room r (length (retained_sends ms ts)) b"
  shows "MqttSubscribePacketHandler fh buf fd b = Inr (mqtt_ok, subscribed v ts ms fd r b)"
  using assms by (rule Subscribe_subscribed)

lemma example_matched: "GetMatchedTopics name_t demo = Inr [retained_t]"
proof -
  have "GetMatchedTopics name_t demo =
      Inr (filter (\<lambda>t. level_match (tokenize name_t is_sep) (tokenize (t_name t) is_sep)) (topics demo))"
    by (rule GetMatchedTopics_filter)
      (use broker_invD(2) [OF demo_inv] in
        \<open>simp_all add: retained_t_def, simp_all add: name_t_def hash_tok_def slash_hash_def\<close>)
  then show ?thesis by (simp add: retained_t_def)
qed

lemma example_sendable: "sendable retained_t"
  by (simp add: sendable_def retained_t_def example_sizes)

theorem subscribe_outcome_witness:
  "MqttSubscribePacketHandler \<lparr>first = 0x82, remaining_len = 7\<rparr>
     (vh_enc (Subscribe_vh \<lparr>sub_packet_id = 4, sub_chain = []\<rparr>) @ subs_enc [(name_t, 1)]) 5 demo =
   Inr (mqtt_ok, subscribed \<lparr>sub_packet_id = 4, sub_chain = []\<rparr> [(name_t, 1)] (\<lambda>_. [retained_t]) 5 0 demo)"
  by (rule subscribe_outcome [OF demo_inv demo_mem(1) example_subscribe])
    (simp_all add: example_matched example_sendable room_def retained_sends_def client_1_def new_Client_def)

text \<open>C11: UNSUBSCRIBE. Every filter of the packet is removed from the client, and the UNSUBACK says
  of each whether it was there, also when the packet names it twice.\<close>

theorem unsubscribe_outcome:
  assumes "broker_inv b" and "(fd, Some r) \<in> set (clients b)" and "unsubscribe_packet_ok fh v nms buf"
  shows "MqttUnsubscribePacketHandler fh buf fd b = Inr (mqtt_ok, unsubscribed v nms fd r b)"
  using assms by (rule Unsubscribe_unsubscribed)

lemma example_unsubscribe:
  "unsubscribe_packet_ok \<lparr>first = 0xA2, remaining_len = 9\<rparr> \<lparr>us_packet_id = 4, us_chain = []\<rparr> [name_t, name_t]
    (vh_enc (Unsubscribe_vh \<lparr>us_packet_id = 4, us_chain = []\<rparr>) @ concat (map str_enc [name_t, name_t]))"
  by (simp add: unsubscribe_packet_ok_def chain_readable_def chain_ok_def chain_enc_Nil example_sizes length_id_enc)

theorem unsubscribe_outcome_witness:
  "MqttUnsubscribePacketHandler \<lparr>first = 0xA2, remaining_len = 9\<rparr>
     (vh_enc (Unsubscribe_vh \<lparr>us_packet_id = 4, us_chain = []\<rparr>) @ concat (map str_enc [name_t, name_t])) 6 demo =
   Inr (mqtt_ok, unsubscribed \<lparr>us_packet_id = 4, us_chain = []\<rparr> [name_t, name_t] 6 1 demo)"
  by (rule unsubscribe_outcome [OF demo_inv demo_mem(2) example_unsubscribe])

text \<open>C12: a publication at QoS 2 whose PUBREL is repeated is delivered once: the PUBLISH queues the
  PUBREC, the first PUBREL the PUBCOMP and one packet for each matching subscriber, the second
  PUBREL the PUBCOMP only, and afterwards the client has as many messages kept as before.\<close>

theorem qos2_delivered_once:
  assumes "broker_inv b" and "(fd, Some r) \<in> set (clients b)" and "publish_packet_ok fh v m buf"
    and "QoS fh = qos_code QoS_2" and "all_ready (topic_name v) b" and "c = client_id (objects b r)"
    and "\<forall>t\<in>set (held c b). t_id t \<noteq> pu_packet_id v"
  shows "\<exists>b1 b2 b3. MqttPublishPacketHandler fh buf fd b = Inr (mqtt_ok, b1) \<and>
    MqttPubRelPacketHandler fh1 (be16 (pu_packet_id v) @ xs) fd b1 = Inr (mqtt_ok, b2) \<and>
    MqttPubRelPacketHandler fh2 (be16 (pu_packet_id v) @ ys) fd b2 = Inr (mqtt_ok, b3) \<and>
    held c b3 = held c b \<and>
    commands b3 = commands b @ [ack_cmd fd (packet_type_byte PUBREC) (pu_packet_id v),
        ack_cmd fd (packet_type_byte PUBCOMP) (pu_packet_id v)] @
      List.map_filter (delivery (objects b) (topic_name v) m) (subscribed_clients b) @
      [ack_cmd fd (packet_type_byte PUBCOMP) (pu_packet_id v)]"
  using assms by (rule qos2_exchange)

lemma example_publish_2:
  "publish_packet_ok \<lparr>first = 0x34, remaining_len = 8\<rparr> (new_PublishVH name_t 9 []) [1, 2]
    (publish_body (new_PublishVH name_t 9 []) [1, 2])"
  "QoS \<lparr>first = 0x34, remaining_len = 8\<rparr> = qos_code QoS_2"
  by (simp_all add: publish_packet_ok_def chain_readable_def chain_ok_def publish_body_def new_PublishVH_def
      chain_enc_Nil id_enc_def QoS_def example_sizes)

lemma example_v [simp]:
  "topic_name (new_PublishVH nm i ch) = nm" "pu_packet_id (new_PublishVH nm i ch) = i"
  by (simp_all add: new_PublishVH_def)

theorem qos2_delivered_once_witness:
  "\<exists>b1 b2 b3. MqttPublishPacketHandler \<lparr>first = 0x34, remaining_len = 8\<rparr>
      (publish_body (new_PublishVH name_t 9 []) [1, 2]) 5 demo = Inr (mqtt_ok, b1) \<and>
    MqttPubRelPacketHandler \<lparr>first = 0x62, remaining_len = 2\<rparr> (be16 (pu_packet_id (new_PublishVH name_t 9 [])) @ []) 5 b1 =
      Inr (mqtt_ok, b2) \<and>
    MqttPubRelPacketHandler \<lparr>first = 0x62, remaining_len = 2\<rparr> (be16 (pu_packet_id (new_PublishVH name_t 9 [])) @ []) 5 b2 =
      Inr (mqtt_ok, b3) \<and>
    held id_1 b3 = held id_1 demo \<and>
    commands b3 = commands demo @ [ack_cmd 5 (packet_type_byte PUBREC) (pu_packet_id (new_PublishVH name_t 9 [])),
        ack_cmd 5 (packet_type_byte PUBCOMP) (pu_packet_id (new_PublishVH name_t 9 []))] @
      List.map_filter (delivery (objects demo) (topic_name (new_PublishVH name_t 9 [])) [1, 2]) (subscribed_clients demo) @
      [ack_cmd 5 (packet_type_byte PUBCOMP) (pu_packet_id (new_PublishVH name_t 9 []))]"
  by (rule qos2_delivered_once [OF demo_inv demo_mem(1) example_publish_2])
    (simp_all add: demo_ready client_1_def held_def kept_t_def new_MqttTopic_def)

text \<open>C13: a publication at QoS 2 that is sent again before its PUBREL, as a client does that got no
  PUBREC, is kept twice under its identifier; each of two PUBRELs delivers it to every matching
  subscriber.\<close>

theorem qos2_repeat_delivered_twice:
  assumes "broker_inv b" and "(fd, Some r) \<in> set (clients b)" and "publish_packet_ok fh v m buf"
    and "QoS fh = qos_code QoS_2" and "all_ready (topic_name v) b"
    and "all_ready (topic_name v) (delivered (topic_name v) m b)"
  shows "\<exists>b1 b2 b3 b4. MqttPublishPacketHandler fh buf fd b = Inr (mqtt_ok, b1) \<and>
    MqttPublishPacketHandler fh buf fd b1 = Inr (mqtt_ok, b2) \<and>
    MqttPubRelPacketHandler fh1 (be16 (pu_packet_id v) @ xs) fd b2 = Inr (mqtt_ok, b3) \<and>
    MqttPubRelPacketHandler fh2 (be16 (pu_packet_id v) @ ys) fd b3 = Inr (mqtt_ok, b4) \<and>
    commands b4 = commands b3 @ ack_cmd fd (packet_type_byte PUBCOMP) (pu_packet_id v) #
      List.map_filter (delivery (objects b3) (topic_name v) m) (subscribed_clients b) \<and>
    commands b3 = commands b2 @ ack_cmd fd (packet_type_byte PUBCOMP) (pu_packet_id v) #
      List.map_filter (delivery (objects b) (topic_name v) m) (subscribed_clients b)"
  using assms by (rule qos2_repeated)

theorem qos2_repeat_delivered_twice_witness:
  "\<exists>b1 b2 b3 b4. MqttPublishPacketHandler \<lparr>first = 0x34, remaining_len = 8\<rparr>
      (publish_body (new_PublishVH name_t 9 []) [1, 2]) 5 demo = Inr (mqtt_ok, b1) \<and>
    MqttPublishPacketHandler \<lparr>first = 0x34, remaining_len = 8\<rparr>
      (publish_body (new_PublishVH name_t 9 []) [1, 2]) 5 b1 = Inr (mqtt_ok, b2) \<and>
    MqttPubRelPacketHandler \<lparr>first = 0x62, remaining_len = 2\<rparr> (be16 (pu_packet_id (new_PublishVH name_t 9 [])) @ []) 5 b2 =
      Inr (mqtt_ok, b3) \<and>
    MqttPubRelPacketHandler \<lparr>first = 0x62, remaining_len = 2\<rparr> (be16 (pu_packet_id (new_PublishVH name_t 9 [])) @ []) 5 b3 =
      Inr (mqtt_ok, b4) \<and>
    commands b4 = commands b3 @ ack_cmd 5 (packet_type_byte PUBCOMP) (pu_packet_id (new_PublishVH name_t 9 [])) #
      List.map_filter (delivery (objects b3) (topic_name (new_PublishVH name_t 9 [])) [1, 2]) (subscribed_clients demo) \<and>
    commands b3 = commands b2 @ ack_cmd 5 (packet_type_byte PUBCOMP) (pu_packet_id (new_PublishVH name_t 9 [])) #
      List.map_filter (delivery (objects demo) (topic_name (new_PublishVH name_t 9 [])) [1, 2]) (subscribed_clients demo)"
proof (rule qos2_repeat_delivered_twice [OF demo_inv demo_mem(1) example_publish_2])
  show "all_ready (topic_name (new_PublishVH name_t 9 [])) demo" by (simp add: demo_ready)
  show "all_ready (topic_name (new_PublishVH name_t 9 [])) (delivered (topic_name (new_PublishVH name_t 9 [])) [1, 2] demo)"
    using example_safe by (simp add: all_ready_def ready_def delivered_def bump_def GenPacketID_def client_2_def new_Client_def)
qed

text \<open>C14: a subscription followed by a publication. After a client has subscribed, a message another
  client publishes below QoS 2 to a name that one of the filters matches is queued for it.\<close>

theorem subscription_served:
  assumes "broker_inv b" and "(fd, Some r) \<in> set (clients b)" and "(fd', Some r') \<in> set (clients b)"
    and "subscribe_packet_ok fh v ts buf"
    and "\<forall>(nm, opts)\<in>set ts. GetMatchedTopics nm b = Inr (ms nm) \<and> (\<forall>t\<in>set (ms nm). sendable t)"
    and "room r (length (retained_sends ms ts)) b"
    and "publish_packet_ok fh' v' m buf'" and "QoS fh' \<noteq> qos_code QoS_2"
    and "all_ready (topic_name v') (subscribed v ts ms fd r b)"
    and "flt \<in> fst ` set ts" and "sub_matches flt (topic_name v')"
  shows "\<exists>b1 b2 q i. MqttSubscribePacketHandler fh buf fd b = Inr (mqtt_ok, b1) \<and>
    MqttPublishPacketHandler fh' buf' fd' b1 = Inr (mqtt_ok, b2) \<and>
    publish_cmd fd q i (topic_name v') m \<in> set (commands b2)"
  using assms by (rule subscribe_publish)

theorem subscription_served_witness:
  "\<exists>b1 b2 q i. MqttSubscribePacketHandler \<lparr>first = 0x82, remaining_len = 7\<rparr>
      (vh_enc (Subscribe_vh \<lparr>sub_packet_id = 4, sub_chain = []\<rparr>) @ subs_enc [(name_t, 1)]) 5 demo = Inr (mqtt_ok, b1) \<and>
    MqttPublishPacketHandler \<lparr>first = 0x32, remaining_len = 8\<rparr> (publish_body (new_PublishVH name_t 9 []) [1, 2]) 6 b1 =
      Inr (mqtt_ok, b2) \<and>
    publish_cmd 5 q i (topic_name (new_PublishVH name_t 9 [])) [1, 2] \<in> set (commands b2)"
proof (rule subscription_served [OF demo_inv demo_mem example_subscribe _ _ example_publish])
  let ?b = "subscribed \<lparr>sub_packet_id = 4, sub_chain = []\<rparr> [(name_t, 1)] (\<lambda>_. [retained_t]) 5 0 demo"
  show "\<forall>(nm, opts)\<in>set [(name_t, 1)]. GetMatchedTopics nm demo = Inr [retained_t] \<and> (\<forall>t\<in>set [retained_t]. sendable t)"
    by (simp add: example_matched example_sendable)
  show "room 0 (length (retained_sends (\<lambda>_. [retained_t]) [(name_t, 1)])) demo"
    by (simp add: room_def retained_sends_def client_1_def new_Client_def)
  show "QoS \<lparr>first = 0x32, remaining_len = 8\<rparr> \<noteq> qos_code QoS_2" by (simp add: QoS_def)
  have "subscribed_clients ?b = [(5, 0), (6, 1)]"
    by (simp add: subscribed_def AddSubscribedClient_def retained_sends_def retained_cmd_def Let_def
        subscribe_all_def upd_obj_def un_insert_def)
  moreover have "ready name_t (objects ?b 0)" "ready name_t (objects ?b 1)"
    using example_safe
    by (simp_all add: subscribed_def AddSubscribedClient_def retained_sends_def retained_cmd_def Let_def
        subscribe_all_def upd_obj_def AddSubscription_def un_insert_def ready_def GenPacketID_def
        client_1_def client_2_def new_Client_def)
  ultimately show "all_ready (topic_name (new_PublishVH name_t 9 [])) ?b" by (simp add: all_ready_def)
  show "name_t \<in> fst ` set [(name_t, 1 :: u8)]" "sub_matches name_t (topic_name (new_PublishVH name_t 9 []))"
    by (simp_all add: sub_matches_def)
qed

text \<open>C15: a retained publication followed by a subscription. The message of a PUBLISH with the retain
  flag, at any QoS, is queued for a client that subscribes later with a filter that matches its
  name, level by level, with wildcards or without. The note \<open>doc/to_do\<close> says that retained messages do
  not work with wildcard subscriptions; they do, except where the search runs past the levels of a
  stored name, which \<open>searchable\<close> excludes. An empty message is kept and sent like any other.\<close>

theorem retained_served:
  assumes "broker_inv b" and "(fd, Some r) \<in> set (clients b)" and "(fd', Some r') \<in> set (clients b)"
    and "publish_packet_ok fh v m buf" and "isRETAIN fh" and "all_ready (topic_name v) b"
    and "subscribe_packet_ok fh' u ts buf'"
    and "\<forall>flt\<in>fst ` set ts. searchable flt (published fh v m fd r b)"
    and "\<forall>t\<in>set (topics (published fh v m fd r b)). sendable t"
    and "room r' (length (retained_sends (matched_by (published fh v m fd r b)) ts)) (published fh v m fd r b)"
    and "(flt, opts) \<in> set ts" and "level_match (tokenize flt is_sep) (tokenize (topic_name v) is_sep)"
  shows "\<exists>b1 b2 i. MqttPublishPacketHandler fh buf fd b = Inr (mqtt_ok, b1) \<and>
    MqttSubscribePacketHandler fh' buf' fd' b1 = Inr (mqtt_ok, b2) \<and>
    publish_cmd fd' opts i (topic_name v) m \<in> set (commands b2)"
  using assms by (rule publish_subscribe)

lemma example_retained:
  "publish_packet_ok \<lparr>first = 0x31, remaining_len = 4\<rparr> (new_PublishVH name_t 0 []) []
    (publish_body (new_PublishVH name_t 0 []) [])"
  by (simp add: publish_packet_ok_def chain_readable_def chain_ok_def publish_body_def new_PublishVH_def
      chain_enc_Nil id_enc_def QoS_def example_sizes)

text \<open>The subscription is to \<open>+\<close>.\<close>

lemma example_subscribe_plus:
  "subscribe_packet_ok \<lparr>first = 0x82, remaining_len = 7\<rparr> \<lparr>sub_packet_id = 4, sub_chain = []\<rparr> [(plus_tok, 1)]
    (vh_enc (Subscribe_vh \<lparr>sub_packet_id = 4, sub_chain = []\<rparr>) @ subs_enc [(plus_tok, 1)])"
  by (simp add: subscribe_packet_ok_def chain_readable_def chain_ok_def chain_enc_Nil example_sizes length_id_enc
      plus_tok_def)

lemma plus_tokens: "tokenize plus_tok is_sep = [plus_tok]"
  by (simp add: tokenize_def re_split.simps is_sep_def plus_tok_def)

theorem retained_served_witness:
  "\<exists>b1 b2 i. MqttPublishPacketHandler \<lparr>first = 0x31, remaining_len = 4\<rparr>
      (publish_body (new_PublishVH name_t 0 []) []) 5 demo = Inr (mqtt_ok, b1) \<and>
    MqttSubscribePacketHandler \<lparr>first = 0x82, remaining_len = 7\<rparr>
      (vh_enc (Subscribe_vh \<lparr>sub_packet_id = 4, sub_chain = []\<rparr>) @ subs_enc [(plus_tok, 1)]) 6 b1 = Inr (mqtt_ok, b2) \<and>
    publish_cmd 6 1 i (topic_name (new_PublishVH name_t 0 [])) [] \<in> set (commands b2)"
proof (rule retained_served [OF demo_inv demo_mem example_retained _ _ example_subscribe_plus, where flt = plus_tok])
  let ?b = "published \<lparr>first = 0x31, remaining_len = 4\<rparr> (new_PublishVH name_t 0 []) [] 5 0 demo"
  have topics: "topics ?b = [new_MqttTopic 0 0 name_t (Some [])]"
    by (simp add: published_topics store_if_def isRETAIN_def QoS_def StoreTopicValue_def Let_def retained_t_def)
  show "isRETAIN \<lparr>first = 0x31, remaining_len = 4\<rparr>" by (simp add: isRETAIN_def)
  show "all_ready (topic_name (new_PublishVH name_t 0 [])) demo" by (simp add: demo_ready)
  show "\<forall>flt\<in>fst ` set [(plus_tok, 1 :: u8)]. searchable flt ?b"
    by (simp add: searchable_def topics plus_tokens) (simp add: plus_tok_def name_t_def hash_tok_def slash_hash_def)
  show "\<forall>t\<in>set (topics ?b). sendable t" by (simp add: topics sendable_def example_sizes)
  have "packet_id_gen (objects ?b 1) = 1 \<or> packet_id_gen (objects ?b 1) = 2"
    by (simp add: published_def store_if_def StoreTopicValue_def delivered_def bump_def QoS_def Let_def
        GenPacketID_def client_2_def new_Client_def)
  then show "room 1 (length (retained_sends (matched_by ?b) [(plus_tok, 1)])) ?b"
    by (auto simp: room_def retained_sends_def matched_by_def topics)
  show "level_match (tokenize plus_tok is_sep) (tokenize (topic_name (new_PublishVH name_t 0 [])) is_sep)"
    by (simp add: plus_tokens)
qed simp

text \<open>C16: a descriptor the kernel reports as hung up. When a pass of the server thread returns that
  polled it, and no \<open>ADD\<close> command cut the pass short, the descriptor is closed, its client is neither
  among the clients nor among the subscribed ones, and the poll set will be built again.\<close>

theorem hang_up_closed:
  assumes "wait_step e v b = Inr (v', b')" and "broker_inv b"
    and "\<not> poll_failed e" and "\<not> is_add (ctl_in e)"
    and "fd \<in> fst ` set (take (unat (GetClientCount b + 1)) v)" and "polled e fd = OtherEvents"
  shows "fd \<in> set (closed b') \<and> fd \<notin> fst ` set (clients b') \<and> fd \<notin> fst ` set (subscribed_clients b') \<and>
    state b' = started"
  using assms by (rule wait_step_hang_up)

text \<open>The first client hangs up, nothing else happens.\<close>

definition hanging :: env where
  "hanging = \<lparr>poll_failed = False, polled = (\<lambda>fd. if fd = 5 then OtherEvents else NoEvents), cur_time = 0,
     ctl_in = None, hdr_in = (\<lambda>_. []), body_in = (\<lambda>_ _ _. ReadFails), rand_vals = (\<lambda>_. 0)\<rparr>"

theorem hang_up_closed_witness:
  "5 \<in> set (closed (CloseConnection 5 (SetState started demo))) \<and>
    5 \<notin> fst ` set (clients (CloseConnection 5 (SetState started demo))) \<and>
    5 \<notin> fst ` set (subscribed_clients (CloseConnection 5 (SetState started demo))) \<and>
    state (CloseConnection 5 (SetState started demo)) = started"
proof (rule hang_up_closed [OF _ demo_inv])
  have at: "clients_at 5 demo = (Some 0, demo)"
    "clients_at 5 (SetState started demo) = (Some 0, SetState started demo)"
    by (simp_all add: clients_at_def SetState_def)
  have closed: "serve_closed 5 demo = Inr (True, demo)"
    using at by (simp add: serve_closed_def notify_will_def client_1_def new_Client_def isWillFlag_def)
  have quiet: "serve_quiet hanging 6 demo = Inr (False, demo)"
    by (rule serve_quiet_in_time [OF demo_inv demo_mem(2)]) (simp add: hanging_def client_2_def new_Client_def)
  have "wait_loop hanging [(5, OtherEvents), (6, NoEvents), (3, NoEvents)] [] demo =
      Inr ([(5, OtherEvents), (6, NoEvents), (3, NoEvents)], [5], demo)"
    by (simp add: closed quiet)
  then show "wait_step hanging [(5, NoEvents), (6, NoEvents), (control_sock demo, NoEvents)] demo =
      Inr ([(5, OtherEvents), (6, NoEvents), (control_sock demo, NoEvents)], CloseConnection 5 (SetState started demo))"
    using at by (simp add: wait_step_def GetClientCount_def hanging_def Let_def del: wait_loop.simps)
qed (simp_all add: hanging_def is_add_def GetClientCount_def)

text \<open>C17: a connection accepted between two passes. From every state in which the server thread is to
  build its poll set for at least one client, it can build the set and \<open>main\<close> accept another
  connection; then the poll set has fewer entries than the next pass of the server thread polls,
  whatever the kernel answers, and that pass reads past it.\<close>

theorem accept_overruns_poll_set:
  assumes "\<not> crashed s" and "serving s" and "state (broker s) = started"
    and "clients (broker s) \<noteq> []" and "Suc (length (clients (broker s))) < 2 ^ 31"
    and "0 < fd" and "fd \<notin> fst ` set (clients (broker s))"
  shows "\<exists>s1 s2. pstep s s1 \<and> pstep s1 s2 \<and> fd \<in> fst ` set (clients (broker s2)) \<and>
    \<not> crashed s2 \<and> (\<forall>e. server_step e (vec_fds s2) (broker s2) = Inl OobRead)"
  using assms by (rule accept_overrun)

theorem accept_overruns_poll_set_witness:
  "\<exists>s1 s2. pstep ((start_program booted)\<lparr>broker := one_client, serving := True\<rparr>) s1 \<and> pstep s1 s2 \<and>
    6 \<in> fst ` set (clients (broker s2)) \<and> \<not> crashed s2 \<and>
    (\<forall>e. server_step e (vec_fds s2) (broker s2) = Inl OobRead)"
  by (rule accept_overruns_poll_set) (simp_all add: start_program_def)

text \<open>C18: CONNECT of a well-formed packet. The members of the client object are set from it, an
  empty identifier is replaced by 23 random characters, an identifier in use is refused unless the
  packet asks for a clean start, which closes the connection that has it; a CONNACK is queued when
  the client is accepted.\<close>

theorem connect_outcome:
  assumes "broker_inv b" and "(fd, Some r) \<in> set (clients b)" and "connect_packet_ok p"
    and "conn_properties (objects b r) = []" and "will_properties (objects b r) = []"
    and "\<forall>e\<in>set (clients b). fst e \<noteq> -1"
  shows "MqttConnectPacketHandler rnd fh (connect_body p) fd b =
    (case connected rnd p r b of (err, b') \<Rightarrow>
       Inr (err, if err \<noteq> mqtt_ok then b'
         else b'\<lparr>commands := commands b' @
           [packet_cmd fd (packet_type_byte CONNACK) (connack_body (objects b' r))]\<rparr>))"
  using assms by (rule Connect_connected)

lemma demo_fresh: "conn_properties (objects demo 0) = []" "will_properties (objects demo 0) = []"
  by (simp_all add: client_1_def new_Client_def)

theorem connect_outcome_witness:
  "MqttConnectPacketHandler (\<lambda>_. 0) \<lparr>first = 0x10, remaining_len = 16\<rparr> (connect_body example_connect) 5 demo =
    (case connected (\<lambda>_. 0) example_connect 0 demo of (err, b') \<Rightarrow>
       Inr (err, if err \<noteq> mqtt_ok then b'
         else b'\<lparr>commands := commands b' @
           [packet_cmd 5 (packet_type_byte CONNACK) (connack_body (objects b' 0))]\<rparr>))"
  by (rule connect_outcome [OF demo_inv demo_mem(1) example_connect_ok demo_fresh]) simp

text \<open>C19: taking over an identifier stops the server. A CONNECT with a clean start and the identifier
  of another client is accepted and closes the descriptor of that client in the middle of a pass;
  the poll set still lists it, so that the next pass of the server thread faults, whatever the
  kernel reports.\<close>

theorem takeover_stops_server:
  assumes "broker_inv b" and "(fd, Some r) \<in> set (clients b)" and "connect_packet_ok p"
    and "conn_properties (objects b r) = []" and "will_properties (objects b r) = []"
    and "cp_id p \<noteq> []" and "conn_flags (cp_vh p) AND 0x2 \<noteq> 0"
    and "id_owner (cp_id p) (upd_obj r (connect_setup p) b) = Some fd'"
    and "\<forall>e\<in>set (clients b). fst e \<noteq> -1 \<and> fst e \<noteq> control_sock b" and "length (clients b) < 2 ^ 31"
    and "map fst v = map fst (clients b) @ [control_sock b]"
  shows "\<exists>b'. MqttConnectPacketHandler rnd fh (connect_body p) fd b = Inr (mqtt_ok, b') \<and>
    fd' \<in> set (closed b') \<and> (\<forall>e. \<exists>f. wait_step e v b' = Inl f)"
  using assms by (rule takeover_faults)

theorem takeover_stops_server_witness:
  "\<exists>b'. MqttConnectPacketHandler (\<lambda>_. 0) \<lparr>first = 0x10, remaining_len = 16\<rparr> (connect_body example_connect) 5 demo =
      Inr (mqtt_ok, b') \<and> 6 \<in> set (closed b') \<and>
    (\<forall>e. \<exists>f. wait_step e [(5, Pollin), (6, NoEvents), (3, NoEvents)] b' = Inl f)"
proof (rule takeover_stops_server [OF demo_inv demo_mem(1) example_connect_ok demo_fresh])
  show "cp_id example_connect \<noteq> []" "conn_flags (cp_vh example_connect) AND 0x2 \<noteq> 0"
    by (simp_all add: example_connect_def id_2_def)
  show "id_owner (cp_id example_connect) (upd_obj 0 (connect_setup example_connect) demo) = Some 6"
    by (simp add: id_owner_def upd_obj_def example_connect_def connect_setup_def client_1_def client_2_def
        id_1_def id_2_def)
qed simp_all

text \<open>C20: the options byte of a subscription is used whole as a QoS when a retained message is
  delivered. A SUBSCRIBE that asks for QoS 0 with any option of MQTT 5 set (No Local, Retain As
  Published, Retain Handling) and matches a retained message makes the broker write past the block
  of the packet it builds.\<close>

theorem retained_options_overrun:
  assumes "broker_inv b" and "(fd, Some r) \<in> set (clients b)"
    and "opts \<noteq> 0" and "opts AND 3 = 0" and "packet_id_gen (objects b r) \<noteq> 0"
    and "GetMatchedTopics nm b = Inr (t # ts)" and "sendable t"
  shows "retained_loop fd ((nm, opts) # tpcs) b = Inl OobWrite"
  using assms by (rule retained_loop_flags)

theorem retained_options_overrun_witness:
  "retained_loop 5 [(name_t, 0x10)] demo = Inl OobWrite"
  by (rule retained_options_overrun [OF demo_inv demo_mem(1) _ _ _ example_matched example_sendable])
    (simp_all add: client_1_def new_Client_def)

text \<open>C21: the packet identifiers of a client wrap to 0 after 65535 messages; the next message above
  QoS 0 to the first subscriber then gets no identifier on the wire while its size counts one, and
  the assertion at the end of the packet construction ends the program.\<close>

theorem identifier_wrap_aborts:
  assumes "broker_inv b" and "subscribed_clients b = (fd, r) # es"
    and "MyTopic (t_name topic) (objects b r) = Inr (True, opts)" and "opts AND 3 \<noteq> 0"
    and "packet_id_gen (objects b r) = 0" and "sendable topic"
  shows "NotifyClients topic b = Inl AssertFail"
  using assms by (rule NotifyClients_wrapped)

definition demo_wrapped :: Broker where
  "demo_wrapped = upd_obj 1 (\<lambda>c. c\<lparr>packet_id_gen := 0\<rparr>) demo"

theorem identifier_wrap_aborts_witness:
  "NotifyClients retained_t demo_wrapped = Inl AssertFail"
proof (rule identifier_wrap_aborts)
  show "broker_inv demo_wrapped" unfolding demo_wrapped_def by (rule upd_obj_inv [OF demo_inv]) (simp add: client_inv_def)
  show "subscribed_clients demo_wrapped = (6, 1) # []" by (simp add: demo_wrapped_def upd_obj_def)
  show "MyTopic (t_name retained_t) (objects demo_wrapped 1) = Inr (True, 1)"
    by (simp add: demo_wrapped_def upd_obj_def retained_t_def client_2_def MyTopic_safe example_safe sub_matches_def)
qed (simp_all add: demo_wrapped_def upd_obj_def example_sendable)

text \<open>C22: a CONNECT of another protocol version is answered with a CONNACK that carries the reason
  code for it, written past the queue, and the descriptor is given up; the rest of the packet is
  not looked at.\<close>

theorem served_other_version:
  assumes "broker_inv b" and "(fd, Some r) \<in> set (clients b)"
    and "arrives e fd t (vh_enc (Connect_vh v) @ rest)"
    and "drop_bit 4 t = 1" and "length (vh_name v) = 4" and "version v \<noteq> MQTT_VERSION_5"
  shows "serve_data e fd b = Inr (True, (upd_obj r (SetPacketLastTime (cur_time e)) b)
    \<lparr>direct := direct b @ [(fd, [0x20, 3, 0, 0x84, 0])]\<rparr>)"
proof -
  let ?b = "upd_obj r (SetPacketLastTime (cur_time e)) b" and ?body = "vh_enc (Connect_vh v) @ rest"
  have "broker_inv ?b" by (rule upd_obj_inv [OF assms(1)]) (simp add: client_inv_def SetPacketLastTime_def)
  moreover have "(fd, Some r) \<in> set (clients ?b)" using assms(2) by (simp add: upd_obj_def)
  ultimately have "MqttConnectPacketHandler (rand_vals e) (header t ?body) ?body fd ?b =
      Inr (protocol_version_err, ?b)"
    using assms(5,6) by (intro Connect_version)
  moreover have "HandlePacket (rand_vals e) (header t ?body) ?body fd ?b =
      run_handler Connect_Handler (rand_vals e) (header t ?body) ?body fd ?b"
    by (rule HandlePacket_type) (simp add: assms(4))
  ultimately have "HandlePacket (rand_vals e) (header t ?body) ?body fd ?b = Inr (protocol_version_err, ?b)"
    by simp
  then show ?thesis
    by (simp add: serve_data_arrives [OF assms(1-3)] HandleError_def error_handlers_def refuse_bytes
        upd_obj_def del: vh_enc.simps)
qed

definition connect_v4 :: ConnectVH where
  "connect_v4 = \<lparr>prot_name_len = 4, vh_name = [0x4D, 0x51, 0x54, 0x54], version = 4, conn_flags = 2, vh_alive = 60\<rparr>"

theorem served_other_version_witness:
  "serve_data (delivering 0x10 (vh_enc (Connect_vh connect_v4) @ []) 100) 5 demo =
    Inr (True, (upd_obj 0 (SetPacketLastTime 100) demo)
      \<lparr>direct := direct demo @ [(5, [0x20, 3, 0, 0x84, 0])]\<rparr>)"
proof -
  have "arrives (delivering 0x10 (vh_enc (Connect_vh connect_v4) @ []) 100) 5 0x10
      (vh_enc (Connect_vh connect_v4) @ [])"
    by (rule delivering_arrives) (simp_all add: connect_v4_def)
  then have "serve_data (delivering 0x10 (vh_enc (Connect_vh connect_v4) @ []) 100) 5 demo =
      Inr (True, (upd_obj 0 (SetPacketLastTime
          (cur_time (delivering 0x10 (vh_enc (Connect_vh connect_v4) @ []) 100))) demo)
        \<lparr>direct := direct demo @ [(5, [0x20, 3, 0, 0x84, 0])]\<rparr>)"
    by (rule served_other_version [OF demo_inv demo_mem(1)]) (simp_all add: connect_v4_def MQTT_VERSION_5_def)
  moreover have "cur_time (delivering t body 100) = 100" for t body by (simp add: delivering_def)
  ultimately show ?thesis by (simp only:)
qed

text \<open>C23: the keep alive time. A client that sent nothing for its keep alive time and five seconds
  has a DISCONNECT with the reason queued, its will delivered to the subscribers if it has one, and
  its descriptor given up; until then it is left alone, and the state does not change.\<close>

theorem keep_alive_limit:
  assumes "broker_inv b" and "(fd, Some r) \<in> set (clients b)" and "will_ready r b"
  shows "if time_last_packet (objects b r) + int (unat (alive (objects b r))) + 5 \<le> cur_time e
    then \<exists>b'. serve_quiet e fd b = Inr (True, b') \<and>
      will_published r (b\<lparr>commands := commands b @ [disconnect_cmd fd]\<rparr>) b'
    else serve_quiet e fd b = Inr (False, b)"
  using serve_quiet_timeout [OF assms(1,2) _ assms(3)] serve_quiet_in_time [OF assms(1,2), of e] by simp

theorem keep_alive_limit_witness:
  "if time_last_packet (objects demo 0) + int (unat (alive (objects demo 0))) + 5 \<le> cur_time (delivering 0 [] 5)
    then \<exists>b'. serve_quiet (delivering 0 [] 5) 5 demo = Inr (True, b') \<and>
      will_published 0 (demo\<lparr>commands := commands demo @ [disconnect_cmd 5]\<rparr>) b'
    else serve_quiet (delivering 0 [] 5) 5 demo = Inr (False, demo)"
  by (rule keep_alive_limit [OF demo_inv demo_mem(1)])
    (simp add: client_1_def new_Client_def will_ready_def isWillFlag_def)

text \<open>C24: the QoS thread never sends anything. On every state the program reaches there is no
  postponed message, so that a pass of the thread over the clients leaves the broker as it is: no
  message above QoS 0 is ever sent again.\<close>

theorem qos_thread_idle:
  assumes "main_start cfg sock bound listening ctl = Some b" and "fstep\<^sup>*\<^sup>* (start_threads b) s"
  shows "qos_step (broker s) = Inr (broker s)"
  using threads_reachable_inv [OF assms(2)] main_start_inv [OF assms(1)] qos_step_idle [of "broker s"]
  by (simp add: threads_inv_def)

theorem qos_thread_idle_witness: "qos_step (broker (start_threads booted)) = Inr (broker (start_threads booted))"
  by (rule qos_thread_idle [OF booted_start]) (rule rtranclp.rtrancl_refl)

text \<open>C25: what the broker sends to a subscriber is a PUBLISH packet that its own reader takes apart
  again: the size it computed is the length of the packet, the fixed header gives the QoS and the
  length of the body, and the body gives the topic name, the identifier and the payload.\<close>

theorem publish_wire_roundtrip:
  assumes "length nm < 2 ^ 16" and "length m < 2 ^ 16" and "q < 4" and "i = 0 \<longleftrightarrow> q = 0"
  shows "\<exists>pkt n fh body.
    CreateMqttPacket_msg (publish_first q) (Publish_vh (new_PublishVH nm i [])) (Some m) = Inr (pkt, n) \<and>
    unat n = length pkt \<and> ReadFixedHeader pkt h = (broker_ok, fh, body) \<and>
    unat (remaining_len fh) = length body \<and> QoS fh = q \<and>
    HandleMqttPublish fh body = Inr (new_PublishVH nm i [], m)"
proof -
  let ?v = "new_PublishVH nm i []" and ?t = "publish_first q"
  let ?body = "publish_body ?v m"
  have len: "length ?body + 8 < 2 ^ 32" "length ?body < 2 ^ 28"
    using assms(1,2) by (simp_all add: publish_body_def new_PublishVH_def chain_enc_Nil length_id_enc)
  define pkt where "pkt = packet_enc ?t ?body"
  have pkt: "pkt = ?t # vint (length ?body) @ ?body" using packet_enc_vint [OF len(2)] by (simp add: pkt_def)
  have n: "unat (of_nat (length pkt) :: u32) = length pkt"
    using length_packet_enc [of ?t ?body] len(2) by (intro unat_of_nat32) (simp add: pkt_def)
  have made: "CreateMqttPacket_msg ?t (Publish_vh ?v) (Some m) = Inr (pkt, of_nat (length pkt))"
    using CreateMqttPacket_publish [OF assms(1-3), of i] assms(4) by (simp add: publish_packet_def pkt_def)
  have "DeCodeVarInt ([] @ vint (length ?body) @ ?body) (length ([] :: bytes)) =
      Inr (Inr (of_nat (length ?body), of_nat (length (vint (length ?body)))))"
    using len(2) by (intro DeCodeVarInt_vint) simp
  moreover have "length (vint (length ?body)) \<le> 4"
    using length_vint_le [of "length ?body" 3] len(2) by simp
  ultimately have hdr: "ReadFixedHeader pkt h = (broker_ok, header ?t ?body, ?body)"
    by (simp add: pkt ReadFixedHeader_def ReadVariableInt_DeCodeVarInt header_def)
  have q: "QoS (header ?t ?body) = q"
    using QoS_publish_first [OF assms(3)] by (simp add: QoS_def header_def new_FixedHeader_def)
  have rl: "unat (remaining_len (header ?t ?body)) = length ?body"
    using len(2) unat_of_nat32 [of "length ?body"] by (simp add: header_def)
  have "publish_packet_ok (header ?t ?body) ?v m ?body"
    using assms len(2) q by (simp add: publish_packet_ok_def chain_readable_def chain_ok_def header_def new_PublishVH_def)
  then have "HandleMqttPublish (header ?t ?body) ?body = Inr (?v, m)" by (rule HandleMqttPublish_ok)
  then show ?thesis using made n hdr rl q by blast
qed

theorem publish_wire_roundtrip_witness:
  "\<exists>pkt n fh body.
    CreateMqttPacket_msg (publish_first 1) (Publish_vh (new_PublishVH name_t 9 [])) (Some [1, 2]) = Inr (pkt, n) \<and>
    unat n = length pkt \<and> ReadFixedHeader pkt (new_FixedHeader 0) = (broker_ok, fh, body) \<and>
    unat (remaining_len fh) = length body \<and> QoS fh = 1 \<and>
    HandleMqttPublish fh body = Inr (new_PublishVH name_t 9 [], [1, 2])"
  by (rule publish_wire_roundtrip) (simp_all add: example_sizes)

text \<open>C26: writing a 32-bit value as a variable byte integer and reading it back gives the value and
  the number of bytes written, when the value fits the four bytes of the encoding. Reading the bytes
  from a socket, one at a time, gives the same value and leaves the bytes behind it.\<close>

theorem var_int_roundtrip:
  assumes "unat val < 128 ^ 4" and "p + length (vint (unat val)) \<le> length dst"
  shows "\<exists>dst' n. CodeVarInt dst p val = Inr (dst', n) \<and> DeCodeVarInt dst' p = Inr (Inr (val, n)) \<and>
    ReadVariableInt (drop p dst') = (Inr val, drop (p + unat n) dst')"
proof -
  obtain xs ys where dst: "dst = xs @ ys" "length xs = p"
    using that [of "take p dst" "drop p dst"] assms(2) by simp
  let ?zs = "drop (length (vint (unat val))) ys"
  have "DeCodeVarInt (xs @ vint (unat val) @ ?zs) (length xs) = Inr (Inr (val, of_nat (length (vint (unat val)))))"
    using DeCodeVarInt_vint [OF assms(1), of xs ?zs] by simp
  moreover have "DeCodeVarInt (vint (unat val) @ ?zs) 0 = Inr (Inr (val, of_nat (length (vint (unat val)))))"
    using DeCodeVarInt_vint [OF assms(1), of "[]" ?zs] by simp
  ultimately show ?thesis
    using assms dst by (simp add: CodeVarInt_vint mem_put_def ReadVariableInt_DeCodeVarInt)
qed

theorem var_int_roundtrip_witness:
  "\<exists>dst' n. CodeVarInt [0, 0, 0, 0] 1 321 = Inr (dst', n) \<and> DeCodeVarInt dst' 1 = Inr (Inr (321, n)) \<and>
    ReadVariableInt (drop 1 dst') = (Inr 321, drop (1 + unat n) dst')"
  by (rule var_int_roundtrip) (simp_all add: vint.simps)

text \<open>C27: a packet made of a variable header, for every header whose announced size is the number of
  bytes it writes: the block allocated for it is filled exactly, so that the final assertion holds
  and nothing is written outside, and it holds the fixed header, the length and the header.\<close>

theorem packet_construction_exact:
  assumes "vh_ok v" and "vh_exact v" and "length (vh_enc v) + 6 < 2 ^ 32"
  shows "CreateMqttPacket_vh t v = Inr (packet_enc t (vh_enc v), of_nat (length (packet_enc t (vh_enc v))))"
  using assms by (rule CreateMqttPacket_vh_exact)

theorem packet_construction_exact_witness:
  "CreateMqttPacket_vh 0x40 (Puback_vh (new_PubackVH 258 0 [])) =
    Inr (packet_enc 0x40 (vh_enc (Puback_vh (new_PubackVH 258 0 []))),
      of_nat (length (packet_enc 0x40 (vh_enc (Puback_vh (new_PubackVH 258 0 []))))))"
  by (rule packet_construction_exact) (simp_all add: vh_ok_def new_PubackVH_def chain_ok_def chain_enc_Nil)

text \<open>C28: property chains. A chain in order of its identifiers, whose properties have the type of
  their identifier and fewer than 256 bytes, is written into a block and read back as the same
  chain, with the size of what was written.\<close>

theorem chain_roundtrip:
  assumes "chain_readable ch" and "p + length (chain_enc ch) \<le> length dst"
  shows "\<exists>dst'. chain_Serialize ch dst p 0 = Inr (dst', of_nat (length (chain_enc ch))) \<and>
    chain_Create [] dst' p = Inr (mqtt_ok, of_nat (length (chain_enc ch)), ch)"
proof -
  obtain xs ys where dst: "dst = xs @ ys" "length xs = p"
    using that [of "take p dst" "drop p dst"] assms(2) by simp
  define dst' where "dst' = xs @ chain_enc ch @ drop (length (chain_enc ch)) ys"
  have "chain_Serialize ch dst p 0 = emit (chain_enc ch) dst p 0"
    using assms(1) by (simp add: chain.ser_emit chain_readable_def)
  also have "\<dots> = Inr (dst', of_nat (length (chain_enc ch)))"
    using assms(2) dst by (simp add: emit_def mem_put_def dst'_def)
  finally have "chain_Serialize ch dst p 0 = Inr (dst', of_nat (length (chain_enc ch)))" .
  moreover have "chain_Create [] dst' p = Inr (mqtt_ok, of_nat (length (chain_enc ch)), ch)"
    unfolding dst'_def by (rule chain_Create_readable) (simp_all add: assms(1) dst(2))
  ultimately show ?thesis by blast
qed

definition example_chain :: MqttPropertyChain where
  "example_chain = [new_MqttProperty 0x11 (MqttFourByteEntity 5), new_MqttProperty 0x1F (MqttStringEntity id_1)]"

lemma example_chain_readable: "chain_readable example_chain"
  by (simp add: chain_readable_def example_chain_def chain_ok_def chain_inv_def ord_ok_def prop_wf_def
      new_MqttProperty_def property_type_def prop_enc_def id_1_def)

theorem chain_roundtrip_witness:
  "\<exists>dst'. chain_Serialize example_chain (replicate 100 0) 10 0 = Inr (dst', of_nat (length (chain_enc example_chain))) \<and>
    chain_Create [] dst' 10 = Inr (mqtt_ok, of_nat (length (chain_enc example_chain)), example_chain)"
proof (rule chain_roundtrip [OF example_chain_readable])
  have "length (chain_body example_chain) = 10"
    by (simp add: example_chain_def new_MqttProperty_def prop_enc_def id_1_def)
  then show "10 + length (chain_enc example_chain) \<le> length (replicate 100 (0 :: u8))"
    by (simp add: chain_enc_def vint_small)
qed

text \<open>C29: reading a chain of arbitrary bytes. When it returns, the size it reports ends inside the
  buffer, also for a chain that is refused.\<close>

theorem chain_read_in_bounds:
  assumes "chain_Create ch buf p = Inr (e, s, ch')" and "p \<le> length buf"
  shows "p + unat s \<le> length buf"
  using assms by (rule chain_Create_bound)

theorem chain_read_in_bounds_witness: "0 + unat (1 :: u32) \<le> length [0, 7 :: u8]"
proof (rule chain_read_in_bounds)
  show "chain_Create [] [0, 7] 0 = Inr (mqtt_ok, 1, [])"
    using chain_Create_empty [of "[]" "[]" "[7]"] by (simp add: chain_enc_Nil)
qed simp

text \<open>C30: the types of a chain read from arbitrary bytes. Whatever the bytes are, a chain that comes
  out of the reader has at most one property of each identifier, in order, and the value of each is
  of the class that belongs to its identifier and has a size its serializer can write.\<close>

theorem parsed_chain_typed:
  assumes "chain_Create ch buf p = Inr (e, s, ch')" and "chain_typed ch"
  shows "chain_typed ch'"
  using assms by (rule chain_Create_typed)

theorem parsed_chain_typed_witness: "chain_typed example_chain"
proof (rule parsed_chain_typed)
  show "chain_Create [] ([] @ chain_enc example_chain @ []) 0 =
      Inr (mqtt_ok, of_nat (length (chain_enc example_chain)), example_chain)"
    by (rule chain_Create_readable [OF example_chain_readable]) simp
qed (simp add: chain_typed_def chain_inv_def ord_ok_def)

text \<open>C31: reading a chain can hang, and in one way only. The size of a string property of 253 bytes,
  kept in eight bits, is 0: the loop makes no progress, and reading any packet whose chain starts
  with one never returns. In a buffer without a property that is reported with size 0 the loop
  ends, with a chain, an error or a fault, for every length the packet announces.\<close>

theorem chain_loop_ends:
  assumes "property_type i = Some mqtt_string" and "length s = 253" and "0 < n" and "n < 128 ^ 4"
    and "\<forall>j q. CreateProperty (Some (buf, j)) \<noteq> Inr (Some q, 0)" and "length buf < 2 ^ 31"
  shows "chain_Create ch (xs @ vint n @ [i] @ str_enc s @ ys) (length xs) = Inl Diverges \<and>
    create_loop buf p p_len sz ch \<noteq> None"
  using chain_Create_hangs [OF assms(1-4)] create_loop_ends [OF assms(5,6)] by blast

theorem chain_loop_ends_witness:
  "chain_Create [] ([] @ vint 256 @ [0x1F] @ str_enc (replicate 253 0x61) @ []) (length ([] :: bytes)) = Inl Diverges \<and>
    create_loop [0x01, 0x01] 0 200 0 [] \<noteq> None"
proof (rule chain_loop_ends)
  show "\<forall>i q. CreateProperty (Some ([0x01, 0x01], i)) \<noteq> Inr (Some q, 0)"
  proof (intro allI notI)
    fix i q assume r: "CreateProperty (Some ([0x01, 0x01], i)) = Inr (Some q, 0)"
    then have "i = 0 \<or> i = 1" using CreateProperty_in_block [of "[0x01, 0x01]" i] by force
    then show False using r by (auto simp: CreateProperty.simps property_type_def rd8_def new_MqttByteEntity_def)
  qed
qed (simp_all add: property_type_def)

text \<open>C32: a PUBLISH that carries correlation data makes the server read past a block. The chain of the
  packet is copied into the header the parser returns, and the copy of a binary property takes its
  size with the two bytes of the length prefix, which are not part of the data.\<close>

theorem publish_correlation_overread:
  assumes "chain_readable (pu_chain v)" and "length (topic_name v) < 2 ^ 16"
    and "QoS fh = 0 \<longleftrightarrow> pu_packet_id v = 0"
    and "pu_chain v = as @ q # bs" and "\<forall>q\<in>set as. copyable q"
    and "property q = MqttBinaryDataEntity d"
  shows "HandleMqttPublish fh (vh_enc (Publish_vh v) @ m) = Inl OobRead"
  using assms by (rule HandleMqttPublish_binary)

definition correlated :: PublishVH where
  "correlated = new_PublishVH name_t 0 [new_MqttProperty 0x09 (MqttBinaryDataEntity [1, 2, 3])]"

theorem publish_correlation_overread_witness:
  "HandleMqttPublish \<lparr>first = 0x30, remaining_len = 11\<rparr> (vh_enc (Publish_vh correlated) @ [7]) = Inl OobRead"
proof (rule publish_correlation_overread)
  show "chain_readable (pu_chain correlated)"
    by (simp add: correlated_def new_PublishVH_def chain_readable_def chain_ok_def chain_inv_def ord_ok_def
        prop_wf_def new_MqttProperty_def property_type_def prop_enc_def)
  show "pu_chain correlated = [] @ new_MqttProperty 0x09 (MqttBinaryDataEntity [1, 2, 3]) # []"
    by (simp add: correlated_def new_PublishVH_def)
qed (simp_all add: correlated_def new_PublishVH_def example_sizes QoS_def new_MqttProperty_def)

text \<open>C33: a PUBLISH without such a property is parsed into the header that was encoded, with as many
  bytes of the payload as its length modulo 65536: the length is kept in sixteen bits.\<close>

theorem publish_parsed:
  assumes "chain_readable (pu_chain v)" and "\<forall>q\<in>set (pu_chain v). copyable q"
    and "length (topic_name v) < 2 ^ 16" and "QoS fh = 0 \<longleftrightarrow> pu_packet_id v = 0"
    and "buf = publish_body v m" and "length buf < 2 ^ 28" and "remaining_len fh = of_nat (length buf)"
  shows "HandleMqttPublish fh buf = Inr (v, take (length m mod 2 ^ 16) m)"
  using assms by (rule HandleMqttPublish_enc)

theorem publish_parsed_witness:
  "HandleMqttPublish \<lparr>first = 0x30, remaining_len = 65541\<rparr>
     (publish_body (new_PublishVH name_t 0 []) (replicate 65537 1)) =
   Inr (new_PublishVH name_t 0 [], take (length (replicate 65537 (1 :: u8)) mod 2 ^ 16) (replicate 65537 1))"
  by (rule publish_parsed)
    (simp_all add: new_PublishVH_def chain_readable_def chain_ok_def publish_body_def chain_enc_Nil
      length_id_enc example_sizes QoS_def)

text \<open>C34: parsing the filters of a SUBSCRIBE or UNSUBSCRIBE ends for every body a packet can have and
  every length it announces, with a result or with a read outside the body.\<close>

theorem filter_loops_end:
  assumes "length buf < 2 ^ 31"
  shows "subscribe_loop buf remaining offset r acc b \<noteq> None \<and>
    unsubscribe_loop buf remaining offset names \<noteq> None"
  using subscribe_loop_ends [OF assms] unsubscribe_loop_ends [OF assms] by blast

theorem filter_loops_end_witness:
  "subscribe_loop [0, 1, 0x61] 200 0 0 [] demo \<noteq> None \<and> unsubscribe_loop [0, 1, 0x61] 200 0 [] \<noteq> None"
  by (rule filter_loops_end) simp

text \<open>C35: matching a filter with wildcards against the retained topics. When the filter does not run
  past the levels of one of them, the result is the retained topics whose levels it matches, in
  order: equal levels, \<open>+\<close> for one level, \<open>#\<close> for one level or more. This is the search behind a
  SUBSCRIBE with wildcards, of which the note \<open>doc/to_do\<close> says that it does not work with retained
  messages: where it returns, it does.\<close>

theorem matched_topics_spec:
  assumes "storage_inv s" and "tokenize nm is_sep \<noteq> []" and "nm \<noteq> hash_tok" and "nm \<noteq> slash_hash"
    and "\<forall>t\<in>set (topics s). hash_tok \<notin> set (tokenize (t_name t) is_sep) \<and>
      \<not> overruns (tokenize nm is_sep) (tokenize (t_name t) is_sep)"
  shows "GetMatchedTopics nm s =
    Inr (filter (\<lambda>t. level_match (tokenize nm is_sep) (tokenize (t_name t) is_sep)) (topics s))"
  using assms by (rule GetMatchedTopics_filter)

definition two_topics :: CTopicStorage where
  "two_topics = \<lparr>topics = [new_MqttTopic 0 0 name_ab (Some [1]), retained_t], qos_2_topics = []\<rparr>"

theorem matched_topics_spec_witness:
  "GetMatchedTopics filter_a two_topics =
    Inr (filter (\<lambda>t. level_match (tokenize filter_a is_sep) (tokenize (t_name t) is_sep)) (topics two_topics))"
  by (rule matched_topics_spec)
    (simp_all add: storage_inv_def two_topics_def retained_t_def ord_ok_def,
     simp_all add: filter_a_def name_t_def name_ab_def hash_tok_def slash_hash_def plus_tok_def)

text \<open>C36: the filters of a client. The first one in the order of the container that matches the name
  decides, unless one before it is a proper prefix of the name, level by level: that one is read
  past the end of the vector of its levels.\<close>

theorem my_topic_spec:
  "MyTopic nm c =
    (case find (\<lambda>e. reads_past (fst e) nm \<or> sub_matches (fst e) nm) (subscribed_topics c) of
       None \<Rightarrow> Inr (False, 0)
     | Some (flt, opts) \<Rightarrow> if reads_past flt nm then Inl OobRead else Inr (True, opts))"
  by (rule MyTopic_decided)

text \<open>C37: the sender threads, any number of them, in any interleaving and with any wake-ups. Every
  command added to the queue is queued, in the hands of one thread or executed, once: none is lost
  and none is executed twice, and they leave the queue in the order they were added.\<close>

theorem commands_exactly_once:
  assumes "sstep\<^sup>*\<^sup>* (senders_start n) s"
  shows "issued s = taken s @ queue s \<and>
    mset (issued s) = mset (written s) + mset (held_cmds (threads s)) + mset (queue s)"
  using senders_inv_reachable [OF assms] by (simp add: senders_inv_def)

theorem commands_exactly_once_witness:
  "issued (senders_start 2) = taken (senders_start 2) @ queue (senders_start 2) \<and>
    mset (issued (senders_start 2)) = mset (written (senders_start 2)) +
      mset (held_cmds (threads (senders_start 2))) + mset (queue (senders_start 2))"
  by (rule commands_exactly_once) (rule rtranclp.rtrancl_refl)

text \<open>C38: with the two sender threads the broker starts, two packets for the same client can reach its
  socket in the opposite order.\<close>

theorem senders_reorder:
  "\<exists>s. sstep\<^sup>*\<^sup>* (senders_start 2) s \<and> issued s = [new_FdWriteCommand fd c, new_FdWriteCommand fd d] \<and>
    written s = [new_FdWriteCommand fd d, new_FdWriteCommand fd c]"
  by (rule two_senders_overtake) simp_all

text \<open>C39: a notification gets the queue emptied. Take any state the sender threads can reach, all of them
  asleep or not, when there is at least one. After the call of \<open>Notify\<close> that ends a pass of the
  server thread, and with no further wake-up of any kind, the threads can only take a bounded number
  of steps, in whatever order; and when none of them can go on, the queue is empty and every command
  added so far has been executed once.\<close>

theorem notified_commands_drain:
  assumes "sstep\<^sup>*\<^sup>* (senders_start (Suc n)) s" and "(work ^^ k) (notify_senders s) u"
  shows "k \<le> 3 * length (queue s) + 2 * Suc n \<and>
    ((\<nexists>v. work u v) \<longrightarrow> queue u = [] \<and> mset (written u) = mset (issued s))"
proof -
  have len: "length (threads s) = Suc n" using ssteps_threads [OF assms(1)] by (simp add: senders_start_def)
  have "senders_inv s" using assms(1) by (rule senders_inv_reachable)
  note drain = works_drain [OF assms(2) this]
  have "undone (notify_senders s) \<le> 3 * length (queue s) + 2 * Suc n"
    using undone_bound [of "notify_senders s"] len by (simp add: notify_senders_def split: if_splits)
  then show ?thesis using works_undone [OF assms(2)] drain len by fastforce
qed

text \<open>The only sender fell asleep before a command was added; the notification lets it execute it.\<close>

definition one_asleep :: senders where
  "one_asleep = \<lparr>queue = AddCommand 5 (2, Some [0xD0, 0]) [], threads = [Waiting],
     issued = [new_FdWriteCommand 5 (2, Some [0xD0, 0])], taken = [], written = []\<rparr>"

definition one_done :: senders where
  "one_done = one_asleep\<lparr>queue := [], taken := issued one_asleep, written := issued one_asleep\<rparr>"

lemma one_asleep_reached: "sstep\<^sup>*\<^sup>* (senders_start (Suc 0)) one_asleep"
proof -
  let ?s0 = "senders_start (Suc 0)"
  let ?s1 = "?s0\<lparr>threads := [Waiting]\<rparr>"
  have "sstep ?s0 ?s1" using sstep.work [OF work.sleep [of 0 ?s0]] by (simp add: senders_start_def Execute_pop_def)
  moreover have "sstep ?s1 one_asleep" using sstep.add [of ?s1 5 "(2, Some [0xD0, 0])"]
    by (simp add: senders_start_def one_asleep_def)
  ultimately show ?thesis by (meson rtranclp.rtrancl_refl rtranclp.rtrancl_into_rtrancl)
qed

lemma one_done_worked: "(work ^^ 3) (notify_senders one_asleep) one_done"
proof -
  let ?c = "new_FdWriteCommand 5 (2, Some [0xD0, 0])"
  let ?s0 = "\<lparr>queue = [?c], threads = [Running], issued = [?c], taken = [], written = []\<rparr>"
  let ?s1 = "?s0\<lparr>queue := [], threads := [Holding ?c], taken := [?c]\<rparr>"
  let ?s2 = "?s1\<lparr>threads := [Running], written := [?c]\<rparr>"
  have "work ?s0 ?s1" using work.take_cmd [of 0 ?s0 ?c "[]"] by (simp add: Execute_pop_def)
  moreover have "work ?s1 ?s2" using work.run [of 0 ?s1 ?c] by simp
  moreover have "work ?s2 one_done" using work.sleep [of 0 ?s2]
    by (simp add: one_asleep_def one_done_def Execute_pop_def)
  ultimately have "(work ^^ 3) ?s0 one_done" by (auto simp: numeral_3_eq_3)
  moreover have "notify_senders one_asleep = ?s0"
    by (simp add: notify_senders_def Notify_def one_asleep_def AddCommand_def)
  ultimately show ?thesis by simp
qed

lemma one_done_stuck: "\<nexists>v. work one_done v"
  by (auto simp: one_done_def one_asleep_def elim!: workE)

theorem notified_commands_drain_witness:
  "3 \<le> 3 * length (queue one_asleep) + 2 * Suc 0 \<and> queue one_done = [] \<and>
    mset (written one_done) = mset (issued one_asleep)"
  using notified_commands_drain [OF one_asleep_reached one_done_worked] one_done_stuck by blast

text \<open>C40: the start of the program. \<open>main\<close> reaches its loop only when the configuration was read and a
  socket was opened, bound and is listening; then the broker is consistent and without clients, in
  its first state, with the configured port. A \<open>bind\<close> that always fails keeps it from ever
  returning.\<close>

theorem startup_state:
  assumes "main_start cfg sock bound listening ctl = Some b"
  shows "broker_inv b \<and> state b = init \<and> clients b = [] \<and> 0 < sock \<and> (\<exists>n. 0 \<le> bound n) \<and> 0 \<le> listening \<and>
    (\<exists>d. ReadConfig cfg = Inr (d, cfg_ok) \<and> port b = cfg_port d)"
  using main_start_inv [OF assms] by blast

theorem startup_state_witness:
  "broker_inv booted \<and> state booted = init \<and> clients booted = [] \<and> 0 < (4 :: int) \<and> (\<exists>n. 0 \<le> late_bind n) \<and>
    0 \<le> (0 :: int) \<and> (\<exists>d. ReadConfig small_config = Inr (d, cfg_ok) \<and> port booted = cfg_port d)"
  by (rule startup_state [OF booted_start])

end
